(* ===== verification/Prelude.thy ===== *)
theory Prelude
  imports "HOL-Library.Word" "HOL-Library.Signed_Division"
begin

text \<open>
  What every component of the model shares: the machine types, the exceptions of the library
  (class \<open>Exception\<close> of \<open>pubsuber/include/pubsuber/Pubsuber.h\<close>), the decimal printer behind
  \<open>std::to_string\<close>, the truncating conversions of \<open>std::chrono\<close>, and the collections of
  simplification rules that the component theories fill.

  Durations and time points are unbounded integers that count the ticks of the C++ type (seconds,
  milliseconds, nanoseconds). Where the 64-bit representation can be exceeded by values that the
  code itself produces, the model checks the range and yields \<open>Undefined\<close>.
\<close>

named_theorems container_simps \<open>how the container operations act on contents and keys\<close>
named_theorems frame_simps \<open>what an operation leaves alone\<close>

type_synonym u32 = "32 word"
type_synonym u64 = "64 word"
type_synonym secs = int
type_synonym msecs = int
type_synonym nsecs = int

section \<open>Exceptions\<close>

text \<open>
  \<open>PsException\<close> is the library's own exception, the only one its threads catch.
  \<open>RuntimeError\<close> is any other standard exception. \<open>Undefined\<close> marks an execution to which the
  C++ standard gives no meaning; no handler ever catches it.
\<close>

datatype exn =
    PsException (exn_what: string) (exn_code: int)
  | RuntimeError string
  | Undefined string

type_synonym 'a outcome = "exn + 'a"

definition kUninitializedCode :: int where
  "kUninitializedCode = 2147483647"

text \<open>The text goes through \<open>c_str()\<close>, so it ends at the first NUL character.\<close>

definition c_str :: "string \<Rightarrow> string" where
  "c_str s = takeWhile (\<lambda>c. c \<noteq> CHR 0x00) s"

definition Exception_code :: "string \<Rightarrow> int \<Rightarrow> exn" where
  "Exception_code what c = PsException (c_str what) c"

definition Exception :: "string \<Rightarrow> exn" where
  "Exception what = Exception_code what kUninitializedCode"

definition caught :: "exn \<Rightarrow> bool" where
  "caught e = (case e of PsException w c \<Rightarrow> True | RuntimeError w \<Rightarrow> False | Undefined w \<Rightarrow> False)"

lemma caught_simps [simp]:
  "caught (PsException w c)" "\<not> caught (RuntimeError w)" "\<not> caught (Undefined w)"
  by (simp_all add: caught_def)

lemma caught_Exception [simp]: "caught (Exception_code w c)" "caught (Exception w)"
  by (simp_all add: Exception_def Exception_code_def)

lemma exn_code_Exception [simp]: "exn_code (Exception_code w c) = c"
  by (simp add: Exception_code_def)

section \<open>Printing numbers\<close>

fun digits_of :: "nat \<Rightarrow> string" where
  "digits_of n = (if n < 10 then [char_of (48 + n)] else digits_of (n div 10) @ [char_of (48 + n mod 10)])"

declare digits_of.simps [simp del]

definition to_string :: "int \<Rightarrow> string" where
  "to_string i = (if i < 0 then ''-'' @ digits_of (nat (- i)) else digits_of (nat i))"

section \<open>Durations\<close>

text \<open>\<open>duration_cast\<close> to a coarser unit truncates towards zero.\<close>

definition ms_of_ns :: "nsecs \<Rightarrow> msecs" where
  "ms_of_ns t = t sdiv 1000000"

definition s_of_ns :: "nsecs \<Rightarrow> secs" where
  "s_of_ns t = t sdiv 1000000000"

definition ns_of_s :: "secs \<Rightarrow> nsecs" where
  "ns_of_s t = t * 1000000000"

definition ns_of_ms :: "msecs \<Rightarrow> nsecs" where
  "ns_of_ms t = t * 1000000"

definition ms_of_s :: "secs \<Rightarrow> msecs" where
  "ms_of_s t = t * 1000"

lemma ms_of_ns_nonneg: "0 \<le> t \<Longrightarrow> ms_of_ns t = t div 1000000"
  by (simp add: ms_of_ns_def signed_divide_int_def sgn_if)

lemma s_of_ns_nonneg: "0 \<le> t \<Longrightarrow> s_of_ns t = t div 1000000000"
  by (simp add: s_of_ns_def signed_divide_int_def sgn_if)

lemma ms_of_ns_neg: "t < 0 \<Longrightarrow> ms_of_ns t = - ((- t) div 1000000)"
  by (simp add: ms_of_ns_def signed_divide_int_def sgn_if)

lemma ms_of_ns_le: "0 \<le> t \<Longrightarrow> ns_of_ms (ms_of_ns t) \<le> t"
  by (simp add: ms_of_ns_nonneg ns_of_ms_def)

lemma ms_of_ns_pos: "0 < ms_of_ns t \<Longrightarrow> 0 < t"
proof (rule ccontr)
  assume pos: "0 < ms_of_ns t" and "\<not> 0 < t"
  then consider "t = 0" | "t < 0" by linarith
  then show False
  proof cases
    case 1
    with pos show False by (simp add: ms_of_ns_def)
  next
    case 2
    then have "0 \<le> (- t) div 1000000" by (simp add: pos_imp_zdiv_nonneg_iff)
    with 2 pos show False by (simp add: ms_of_ns_neg)
  qed
qed

section \<open>Words\<close>

lemma unat_add_small:
  fixes a b :: "'a::len word"
  assumes "unat a + unat b < 2 ^ LENGTH('a)"
  shows "unat (a + b) = unat a + unat b"
  using assms by (simp add: unat_word_ariths)

lemma word_less_unat: "(a :: 'a::len word) < b \<longleftrightarrow> unat a < unat b"
  by (rule word_less_nat_alt)

lemma word_le_unat: "(a :: 'a::len word) \<le> b \<longleftrightarrow> unat a \<le> unat b"
  by (rule word_le_nat_alt)

end
