(* ===== verification/Names.thy ===== *)
theory Names
  imports Prelude "HOL-Library.Sublist"
begin

text \<open>
  \<open>Namer<T>::Name\<close> of \<open>pubsuber/src/Retriable.h\<close>, which cuts the name of its template parameter out of
  \<open>__PRETTY_FUNCTION__\<close> for the text of the exception of a retried call. The string of the compiler is
  the argument \<open>pf\<close>. The branches for other compilers than gcc and clang are left out.
\<close>

section \<open>C strings in a buffer\<close>

definition NUL :: char where
  "NUL = CHR 0x00"

text \<open>\<open>strncpy\<close> pads with NULs; \<open>strstr\<close> gives the offset of the first occurrence.\<close>

definition strncpy :: "string \<Rightarrow> nat \<Rightarrow> string" where
  "strncpy s n = take n s @ replicate (n - length s) NUL"

fun strstr :: "string \<Rightarrow> string \<Rightarrow> nat option" where
  "strstr [] needle = (if needle = [] then Some 0 else None)"
| "strstr (x # xs) needle = (if prefix needle (x # xs) then Some 0 else map_option Suc (strstr xs needle))"

text \<open>\<open>n\<close> bytes move from the offset \<open>src\<close> to the start of the buffer.\<close>

definition memmove_down :: "string \<Rightarrow> nat \<Rightarrow> nat \<Rightarrow> string" where
  "memmove_down buff src n = take n (drop src buff) @ drop n buff"

section \<open>The name\<close>

definition open_term :: string where
  "open_term = ''NamedParamType = ''"

definition open_term_len :: nat where
  "open_term_len = length (open_term @ [NUL]) - 1"

definition close_term_len :: nat where
  "close_term_len = length ('']'' @ [NUL]) - 1"

definition Namer_Name :: "string \<Rightarrow> string outcome" where
  "Namer_Name pf =
     (let func_size = length (pf @ [NUL]);
          buff = strncpy pf func_size
      in case strstr (c_str buff) open_term of
           None \<Rightarrow> Inr ''???''
         | Some p \<Rightarrow>
             (let moved = memmove_down buff (p + open_term_len) (func_size - p - open_term_len);
                  len = length (c_str moved)
              in if len < close_term_len then Inl (Undefined ''write before the buffer'')
                 else Inr (c_str (moved[len - close_term_len := NUL]))))"

section \<open>Lemmas\<close>

lemma c_str_clean: "NUL \<notin> set s \<Longrightarrow> c_str (s @ NUL # r) = s"
  by (induction s) (auto simp: c_str_def NUL_def)

lemma strstr_first:
  "(\<And>i. i < length before \<Longrightarrow> \<not> prefix needle (drop i (before @ needle @ rest))) \<Longrightarrow>
    strstr (before @ needle @ rest) needle = Some (length before)"
proof (induction before)
  case Nil
  have "prefix needle (needle @ rest)" by simp
  then show ?case by (cases "needle @ rest") (simp_all del: prefix_append)
next
  case (Cons x before)
  have "\<not> prefix needle (drop i (before @ needle @ rest))" if "i < length before" for i
    using Cons.prems [of "Suc i"] that by simp
  moreover have "\<not> prefix needle (x # before @ needle @ rest)" using Cons.prems [of 0] by simp
  ultimately show ?case using Cons.IH by simp
qed

text \<open>The name is what stands between the first \<open>NamedParamType = \<close> and the closing bracket.\<close>

lemma Namer_Name_cuts:
  assumes clean: "NUL \<notin> set before" "NUL \<notin> set t" "close \<noteq> NUL"
    and first: "\<And>i. i < length before \<Longrightarrow> \<not> prefix open_term (drop i (before @ open_term @ t @ [close]))"
  shows "Namer_Name (before @ open_term @ t @ [close]) = Inr t"
proof -
  let ?pf = "before @ open_term @ t @ [close]"
  have nul: "NUL \<notin> set open_term" by (simp add: open_term_def NUL_def)
  have buff: "strncpy ?pf (length (?pf @ [NUL])) = ?pf @ [NUL]" by (simp add: strncpy_def)
  have str: "c_str (?pf @ [NUL]) = ?pf" using clean nul by (intro c_str_clean) simp
  have at: "strstr ?pf open_term = Some (length before)" using first by (rule strstr_first)
  define n where "n = length (?pf @ [NUL]) - length before - open_term_len"
  define tail where "tail = drop n (?pf @ [NUL])"
  have "n = length (t @ [close, NUL])" by (simp add: n_def open_term_len_def)
  then have moved: "memmove_down (?pf @ [NUL]) (length before + open_term_len) n = t @ close # NUL # tail"
    by (simp add: memmove_down_def tail_def open_term_len_def)
  have len: "c_str (t @ close # NUL # tail) = t @ [close]"
    using c_str_clean [of "t @ [close]" tail] clean by simp
  have cut: "c_str (t @ NUL # NUL # tail) = t" using c_str_clean [of t "NUL # tail"] clean by simp
  have "Namer_Name ?pf =
      (let moved = memmove_down (?pf @ [NUL]) (length before + open_term_len) n; len = length (c_str moved)
       in if len < close_term_len then Inl (Undefined ''write before the buffer'')
          else Inr (c_str (moved[len - close_term_len := NUL])))"
    by (simp only: Namer_Name_def Let_def buff str at option.case n_def)
  also have "\<dots> = Inr t" unfolding moved Let_def len by (simp add: cut close_term_len_def)
  finally show ?thesis .
qed

text \<open>As gcc and clang print it.\<close>

lemma Namer_Name_gcc:
  "Namer_Name ''static const char* Namer<NamedParamType>::Name() [with NamedParamType = int]'' = Inr ''int''"
  "Namer_Name ''static const char *Namer<int>::Name() [NamedParamType = int]'' = Inr ''int''"
  by (simp_all add: Namer_Name_def Let_def strncpy_def open_term_def open_term_len_def close_term_len_def
      memmove_down_def c_str_def NUL_def)

end
