(* ===== verification/Doubles.thy ===== *)
theory Doubles
  imports Prelude Complex_Main
begin

text \<open>
  The \<open>double\<close> arithmetic of \<open>pubsuber/src/Distribution.h\<close> and \<open>pubsuber/src/ExpoBackoff.cpp\<close>: a finite
  \<open>double\<close> is a mantissa times a power of two, and every operation rounds the exact result to 53
  significant bits, ties to even, as IEEE 754 binary64 does. The exponent is not bounded: the
  values of these two files are counts and milliseconds times constants, far from overflow and from
  the subnormal range, and neither file produces infinities or NaNs from finite input.
\<close>

datatype dbl = Dbl (mant: int) (expo: int)

definition dval :: "dbl \<Rightarrow> real" where
  "dval d = of_int (mant d) * 2 powi expo d"

section \<open>Rounding\<close>

fun bits :: "nat \<Rightarrow> nat" where
  "bits n = (if n = 0 then 0 else Suc (bits (n div 2)))"

declare bits.simps [simp del]

text \<open>\<open>n / 2 ^ k\<close> to the nearest integer, ties to even.\<close>

definition rne :: "nat \<Rightarrow> nat \<Rightarrow> nat" where
  "rne n k =
     (let q = n div 2 ^ k; r = n mod 2 ^ k
      in if 2 * r < 2 ^ k then q
         else if 2 ^ k < 2 * r then Suc q
         else if even q then q else Suc q)"

definition round53 :: "nat \<Rightarrow> nat" where
  "round53 n = (let k = bits n - 53 in rne n k * 2 ^ k)"

definition d_round :: "int \<Rightarrow> int \<Rightarrow> dbl" where
  "d_round m e = Dbl (sgn m * int (round53 (nat \<bar>m\<bar>))) e"

section \<open>Operations\<close>

definition d_of_int :: "int \<Rightarrow> dbl" where
  "d_of_int i = d_round i 0"

definition dmul :: "dbl \<Rightarrow> dbl \<Rightarrow> dbl" where
  "dmul a b = d_round (mant a * mant b) (expo a + expo b)"

definition dless :: "dbl \<Rightarrow> dbl \<Rightarrow> bool" where
  "dless a b = (let e = min (expo a) (expo b)
     in mant a * 2 ^ nat (expo a - e) < mant b * 2 ^ nat (expo b - e))"

text \<open>Conversion to an integer truncates; \<open>ceil\<close> rounds up.\<close>

definition dtrunc :: "dbl \<Rightarrow> int" where
  "dtrunc a = (if 0 \<le> expo a then mant a * 2 ^ nat (expo a) else mant a sdiv 2 ^ nat (- expo a))"

definition dceil :: "dbl \<Rightarrow> int" where
  "dceil a = (if 0 \<le> expo a then mant a * 2 ^ nat (expo a) else - ((- mant a) div 2 ^ nat (- expo a)))"

text \<open>
  \<open>static_cast<uint64_t>\<close> of a \<open>double\<close> is defined exactly when the truncated value fits.
\<close>

definition to_u64 :: "int \<Rightarrow> u64 outcome" where
  "to_u64 t = (if 0 \<le> t \<and> t < 2 ^ 64 then Inr (word_of_int t)
     else Inl (Undefined ''double to uint64_t out of range''))"

text \<open>\<open>std::to_string\<close> prints a \<open>double\<close> as \<open>%f\<close> does, with six decimals.\<close>

definition millionths :: "dbl \<Rightarrow> nat" where
  "millionths d = (let m = nat \<bar>mant d\<bar> * 1000000
     in if 0 \<le> expo d then m * 2 ^ nat (expo d) else rne m (nat (- expo d)))"

definition to_string_double :: "dbl \<Rightarrow> string" where
  "to_string_double d = (let q = millionths d; frac = digits_of (q mod 1000000)
     in (if mant d < 0 then ''-'' else '''') @ digits_of (q div 1000000) @ ''.'' @
        replicate (6 - length frac) (CHR ''0'') @ frac)"

section \<open>The order of values\<close>

instantiation dbl :: preorder
begin

definition less_dbl :: "dbl \<Rightarrow> dbl \<Rightarrow> bool" where
  "less_dbl a b = dless a b"

definition less_eq_dbl :: "dbl \<Rightarrow> dbl \<Rightarrow> bool" where
  "less_eq_dbl a b = (\<not> dless b a)"

lemma dval_scaled:
  assumes "e \<le> expo d"
  shows "of_int (mant d * 2 ^ nat (expo d - e)) * 2 powi e = dval d"
proof -
  have "(2::real) powi expo d = 2 ^ nat (expo d - e) * 2 powi e"
    using assms by (simp add: power_int_add [symmetric] flip: power_int_of_nat)
  then show ?thesis by (simp add: dval_def)
qed

lemma dless_dval: "dless a b \<longleftrightarrow> dval a < dval b"
proof -
  let ?e = "min (expo a) (expo b)"
  have "dval a < dval b \<longleftrightarrow>
      (of_int (mant a * 2 ^ nat (expo a - ?e)) :: real) * 2 powi ?e
        < of_int (mant b * 2 ^ nat (expo b - ?e)) * 2 powi ?e"
    by (simp only: dval_scaled [of ?e a] dval_scaled [of ?e b] min.cobounded1 min.cobounded2)
  also have "\<dots> \<longleftrightarrow> mant a * 2 ^ nat (expo a - ?e) < mant b * 2 ^ nat (expo b - ?e)"
    by (simp only: mult_less_cancel_right_pos zero_less_power_int zero_less_numeral of_int_less_iff)
  finally show ?thesis by (simp add: dless_def Let_def)
qed

instance
  by standard (auto simp: less_dbl_def less_eq_dbl_def dless_dval)

end

lemma dbl_less_iff: "a < b \<longleftrightarrow> dval a < dval b" for a b :: dbl
  by (simp add: less_dbl_def dless_dval)

lemma dbl_le_iff: "a \<le> b \<longleftrightarrow> dval a \<le> dval b" for a b :: dbl
  by (auto simp: less_eq_dbl_def dless_dval)

section \<open>Rounding errors\<close>

lemma bits_bounds: "0 < n \<Longrightarrow> 2 ^ (bits n - 1) \<le> n \<and> n < 2 ^ bits n"
proof (induction n rule: bits.induct)
  case (1 n)
  show ?case
  proof (cases "n = 1")
    case True
    have "bits 1 = 1" by (subst bits.simps, simp, subst bits.simps, simp)
    with True show ?thesis by simp
  next
    case False
    with "1.prems" have pos: "0 < n div 2" by simp
    with "1.IH" "1.prems" have IH: "2 ^ (bits (n div 2) - 1) \<le> n div 2" "n div 2 < 2 ^ bits (n div 2)"
      by auto
    have eq: "bits n = Suc (bits (n div 2))" using "1.prems" by (simp add: bits.simps [of n])
    have b: "0 < bits (n div 2)" using pos by (simp add: bits.simps [of "n div 2"])
    have "2 * 2 ^ (bits (n div 2) - 1) = (2::nat) ^ bits (n div 2)"
      using b by (simp add: power_eq_if)
    with IH have "2 ^ bits (n div 2) \<le> n" "n < 2 * 2 ^ bits (n div 2)" by linarith+
    then show ?thesis by (simp add: eq)
  qed
qed

lemma bits_le: "n < 2 ^ b \<Longrightarrow> bits n \<le> b"
proof (cases "n = 0")
  case True
  then show ?thesis by (simp add: bits.simps [of 0])
next
  case False
  assume "n < 2 ^ b"
  with False bits_bounds [of n] have "2 ^ (bits n - 1) < (2::nat) ^ b" by linarith
  then have "bits n - 1 < b" by simp
  then show ?thesis by simp
qed

lemma rne_upper: "n \<le> a * 2 ^ k \<Longrightarrow> rne n k \<le> a"
proof -
  assume le: "n \<le> a * 2 ^ k"
  have split: "n = (n div 2 ^ k) * 2 ^ k + n mod 2 ^ k" by (rule div_mult_mod_eq [symmetric])
  have q: "n div 2 ^ k \<le> a"
    using div_le_mono [OF le, of "2 ^ k"] by simp
  show ?thesis
  proof (cases "n div 2 ^ k = a")
    case True
    with le split have "n mod 2 ^ k = 0" by (metis add_diff_cancel_left' diff_is_0_eq')
    with True show ?thesis by (simp add: rne_def)
  next
    case False
    with q show ?thesis by (auto simp: rne_def Let_def)
  qed
qed

lemma rne_error: "2 * (rne n k * 2 ^ k) \<le> 2 * n + 2 ^ k" "2 * n \<le> 2 * (rne n k * 2 ^ k) + 2 ^ k"
proof -
  define q r P where "q = n div 2 ^ k" and "r = n mod 2 ^ k" and "P = (2::nat) ^ k"
  have n: "n = q * P + r" unfolding q_def r_def P_def by (rule div_mult_mod_eq [symmetric])
  have r: "r < P" by (simp add: r_def P_def)
  have "rne n k = (if 2 * r < P then q else if P < 2 * r then Suc q else if even q then q else Suc q)"
    by (simp add: rne_def Let_def q_def r_def P_def)
  then have "rne n k = q \<and> 2 * r \<le> P \<or> rne n k = Suc q \<and> P \<le> 2 * r"
    by auto
  with n r have "2 * (rne n k * P) \<le> 2 * n + P \<and> 2 * n \<le> 2 * (rne n k * P) + P"
    by auto
  then show "2 * (rne n k * 2 ^ k) \<le> 2 * n + 2 ^ k" "2 * n \<le> 2 * (rne n k * 2 ^ k) + 2 ^ k"
    by (simp_all add: P_def)
qed

lemma round53_exact: "n < 2 ^ 53 \<Longrightarrow> round53 n = n"
  using bits_le [of n 53] by (simp add: round53_def rne_def Let_def)

lemma round53_ulp: "2 ^ (bits n - 53) * 2 ^ 52 \<le> n \<or> bits n \<le> 53"
proof (cases "bits n \<le> 53")
  case False
  then have "0 < n" by (auto simp: bits.simps [of n] split: if_splits)
  then have "2 ^ (bits n - 1) \<le> n" using bits_bounds by blast
  moreover have "(2::nat) ^ (bits n - 53) * 2 ^ 52 = 2 ^ (bits n - 1)"
    using False by (simp only: power_add [symmetric]) simp
  ultimately show ?thesis by simp
qed simp

lemma round53_error: "round53 n * 2 ^ 53 \<le> n * (2 ^ 53 + 1)" "n * (2 ^ 53 - 1) \<le> round53 n * 2 ^ 53"
proof -
  let ?k = "bits n - 53"
  have "round53 n * 2 ^ 53 \<le> n * (2 ^ 53 + 1) \<and> n * (2 ^ 53 - 1) \<le> round53 n * 2 ^ 53"
  proof (cases "bits n \<le> 53")
    case True
    then show ?thesis by (simp add: round53_def rne_def Let_def)
  next
    case False
    then have ulp: "2 ^ ?k * 2 ^ 52 \<le> n" using round53_ulp [of n] by simp
    show ?thesis using rne_error [of n ?k] ulp by (simp add: round53_def Let_def)
  qed
  then show "round53 n * 2 ^ 53 \<le> n * (2 ^ 53 + 1)" "n * (2 ^ 53 - 1) \<le> round53 n * 2 ^ 53"
    by blast+
qed

text \<open>A product of two 53-bit values stays below each multiple of \<open>2 ^ 53\<close> that it did not exceed.\<close>

lemma round53_mono_grid:
  assumes "n \<le> a * 2 ^ 53" and "n < 2 ^ 106"
  shows "round53 n \<le> a * 2 ^ 53"
proof -
  let ?k = "bits n - 53"
  have k: "?k \<le> 53" using bits_le [OF assms(2)] by simp
  then have grid: "a * 2 ^ 53 = (a * 2 ^ (53 - ?k)) * 2 ^ ?k"
    by (simp only: mult.assoc power_add [symmetric]) simp
  have "n \<le> (a * 2 ^ (53 - ?k)) * 2 ^ ?k"
    using assms(1) by (simp only: grid)
  then have "rne n ?k \<le> a * 2 ^ (53 - ?k)" by (rule rne_upper)
  then show ?thesis by (subst grid) (simp add: round53_def Let_def)
qed

lemma d_of_nat_small: "n < 2 ^ 53 \<Longrightarrow> d_of_int (int n) = Dbl (int n) 0"
  by (cases "n = 0") (simp_all add: d_of_int_def d_round_def round53_exact)

end
