(* ===== verification/World.thy ===== *)
theory World
  imports Doubles
begin

text \<open>
  What the library talks to: the clocks and the random numbers of the C++ standard library, the gRPC
  channel and the stubs generated from \<open>google/pubsub/v1/pubsub.proto\<close>.

  An \<open>env\<close> is one behaviour of all of them, as functions of how often they were used and of the calls
  made so far; nothing about these functions is assumed, so a statement for every \<open>env\<close> covers every
  behaviour. The \<open>world\<close> is what changes: the time, the use counters and the log of all remote calls
  (newest first). Reading the clock advances the time by an arbitrary natural number, so the steady
  clock never goes back.

  The theory also holds the transport of \<open>pubsuber/src/Trimpl.h\<close> and \<open>Trimpl.cpp\<close>.
\<close>

section \<open>Requests and replies\<close>

datatype grpc_code = OK | DEADLINE_EXCEEDED | UNAVAILABLE | NOT_FOUND | OtherStatus int

record pubsub_message =
  msg_data :: string
  msg_attributes :: "(string \<times> string) list"

record received_message =
  recv_ack_id :: string
  recv_message :: "pubsub_message option"

datatype rpc_request =
    GetTopicRequest string
  | CreateTopicRequest string
  | DeleteTopicRequest string
  | PublishRequest string "pubsub_message list"
  | GetSubscriptionRequest string
  | CreateSubscriptionRequest string string secs
  | DeleteSubscriptionRequest string
  | AcknowledgeRequest string "string list"
  | ModifyAckDeadlineRequest string "string list" secs
  | PullRequest string int bool

record rpc_response =
  resp_message_ids :: "string list"
  resp_ack_deadline_seconds :: secs
  resp_received_messages :: "received_message list"

record rpc_reply =
  rep_code :: grpc_code
  rep_text :: string
  rep_response :: rpc_response
  rep_took :: nat

definition status_ok :: "rpc_reply \<Rightarrow> bool" where
  "status_ok r \<longleftrightarrow> rep_code r = OK"

text \<open>A call is logged with the timeout it was given.\<close>

type_synonym rpc_event = "rpc_request \<times> secs \<times> rpc_reply"

definition ev_request :: "rpc_event \<Rightarrow> rpc_request" where
  "ev_request ev = fst ev"

definition ev_timeout :: "rpc_event \<Rightarrow> secs" where
  "ev_timeout ev = fst (snd ev)"

definition ev_reply :: "rpc_event \<Rightarrow> rpc_reply" where
  "ev_reply ev = snd (snd ev)"

lemma ev_simps [simp]:
  "ev_request (q, t, r) = q" "ev_timeout (q, t, r) = t" "ev_reply (q, t, r) = r"
  by (simp_all add: ev_request_def ev_timeout_def ev_reply_def)

section \<open>Environment and world\<close>

record env =
  e_tick :: "nat \<Rightarrow> nat"
  e_system :: "nsecs \<Rightarrow> nsecs"
  e_oversleep :: "nat \<Rightarrow> nat"
  e_normal :: "nat \<Rightarrow> nat \<Rightarrow> dbl \<Rightarrow> dbl \<Rightarrow> dbl"
  e_server :: "rpc_event list \<Rightarrow> rpc_request \<Rightarrow> secs \<Rightarrow> rpc_reply"
  e_connect :: "nat \<Rightarrow> nsecs \<Rightarrow> bool \<times> nat"
  e_code_num :: "grpc_code \<Rightarrow> int"
  e_call_name :: "rpc_request \<Rightarrow> string"

record world =
  w_time :: nsecs
  w_reads :: nat
  w_seeds :: nat
  w_log :: "rpc_event list"

text \<open>\<open>std::chrono::steady_clock::now()\<close>\<close>

definition steady_now :: "env \<Rightarrow> world \<Rightarrow> nsecs \<times> world" where
  "steady_now E w = (let t = w_time w + int (e_tick E (w_reads w))
     in (t, w\<lparr>w_time := t, w_reads := Suc (w_reads w)\<rparr>))"

text \<open>\<open>std::this_thread::sleep_for\<close> sleeps at least as long as asked.\<close>

definition sleep_for :: "env \<Rightarrow> msecs \<Rightarrow> world \<Rightarrow> world" where
  "sleep_for E d w = w\<lparr>w_time := w_time w + max 0 (ns_of_ms d) + int (e_oversleep E (w_reads w)),
     w_reads := Suc (w_reads w)\<rparr>"

definition rpc_call :: "env \<Rightarrow> rpc_request \<Rightarrow> secs \<Rightarrow> world \<Rightarrow> rpc_reply \<times> world" where
  "rpc_call E req timeout w = (let r = e_server E (w_log w) req timeout
     in (r, w\<lparr>w_time := w_time w + int (rep_took r), w_log := (req, timeout, r) # w_log w\<rparr>))"

section \<open>The transport\<close>

definition kMinAckDeadline :: secs where
  "kMinAckDeadline = 10"

definition kMaxAckDeadline :: secs where
  "kMaxAckDeadline = 600"

text \<open>\<open>WaitForConnected\<close> waits up to five seconds for the channel and says whether it is up.\<close>

definition EnsureConnected :: "env \<Rightarrow> world \<Rightarrow> bool \<times> world" where
  "EnsureConnected E w = (let deadline = e_system E (w_time w) + ns_of_s 5
     in case e_connect E (w_reads w) deadline of (up, took) \<Rightarrow>
          (up, w\<lparr>w_time := w_time w + int took, w_reads := Suc (w_reads w)\<rparr>))"

section \<open>Frame facts\<close>

lemma steady_now_frame [frame_simps]:
  assumes "steady_now E w = (t, w')"
  shows "w_log w' = w_log w" and "w_time w' = t" and "w_time w \<le> t" and "w_seeds w' = w_seeds w"
  using assms by (auto simp: steady_now_def Let_def)

lemma sleep_for_frame [frame_simps]:
  "w_log (sleep_for E d w) = w_log w" "w_time w \<le> w_time (sleep_for E d w)"
  "w_seeds (sleep_for E d w) = w_seeds w"
  by (simp_all add: sleep_for_def)

lemma sleep_for_long_enough: "w_time w + ns_of_ms d \<le> w_time (sleep_for E d w)"
  by (simp add: sleep_for_def)

lemma rpc_call_frame [frame_simps]:
  assumes "rpc_call E req timeout w = (r, w')"
  shows "w_log w' = (req, timeout, r) # w_log w" and "w_time w \<le> w_time w'"
  using assms by (auto simp: rpc_call_def Let_def)

lemma EnsureConnected_frame [frame_simps]:
  assumes "EnsureConnected E w = (up, w')"
  shows "w_log w' = w_log w" and "w_time w \<le> w_time w'"
  using assms by (auto simp: EnsureConnected_def Let_def split: prod.splits)

section \<open>A concrete environment\<close>

text \<open>
  For the examples of the library: every clock reading takes a microsecond, the channel is up, and the
  server answers as the parameter says.
\<close>

definition demo_env :: "(rpc_event list \<Rightarrow> rpc_request \<Rightarrow> secs \<Rightarrow> rpc_reply) \<Rightarrow> env" where
  "demo_env server =
     \<lparr>e_tick = (\<lambda>_. 1000), e_system = (\<lambda>t. t), e_oversleep = (\<lambda>_. 0), e_normal = (\<lambda>_ _ mean _. mean),
      e_server = server, e_connect = (\<lambda>_ _. (True, 1000)),
      e_code_num = (\<lambda>c. case c of OK \<Rightarrow> 0 | DEADLINE_EXCEEDED \<Rightarrow> 4 | NOT_FOUND \<Rightarrow> 5 | UNAVAILABLE \<Rightarrow> 14
        | OtherStatus n \<Rightarrow> n),
      e_call_name = (\<lambda>_. ''call'')\<rparr>"

definition demo_reply :: "grpc_code \<Rightarrow> string list \<Rightarrow> received_message list \<Rightarrow> rpc_reply" where
  "demo_reply c ids msgs =
     \<lparr>rep_code = c, rep_text = [],
      rep_response = \<lparr>resp_message_ids = ids, resp_ack_deadline_seconds = 10, resp_received_messages = msgs\<rparr>,
      rep_took = 1000\<rparr>"

definition demo_world :: world where
  "demo_world = \<lparr>w_time = 0, w_reads = 0, w_seeds = 0, w_log = []\<rparr>"

text \<open>A server that accepts everything.\<close>

definition ok_server :: "rpc_event list \<Rightarrow> rpc_request \<Rightarrow> secs \<Rightarrow> rpc_reply" where
  "ok_server evs req t = demo_reply OK [''id''] []"

lemma demo_env_simps [simp]:
  "e_tick (demo_env srv) n = 1000" "e_system (demo_env srv) t = t" "e_oversleep (demo_env srv) n = 0"
  "e_normal (demo_env srv) a b m d = m" "e_server (demo_env srv) = srv" "e_connect (demo_env srv) n t = (True, 1000)"
  "e_call_name (demo_env srv) req = ''call''" "e_code_num (demo_env srv) OK = 0"
  "e_code_num (demo_env srv) UNAVAILABLE = 14"
  by (simp_all add: demo_env_def)

lemma demo_reply_simps [simp]:
  "rep_code (demo_reply c ids msgs) = c" "rep_took (demo_reply c ids msgs) = 1000"
  "resp_received_messages (rep_response (demo_reply c ids msgs)) = msgs"
  "resp_message_ids (rep_response (demo_reply c ids msgs)) = ids"
  by (simp_all add: demo_reply_def)

end
