(* ===== verification/Backoff.thy ===== *)
theory Backoff
  imports World
begin

text \<open>
  The retry policies of \<open>pubsuber/include/pubsuber/Pubsuber.h\<close> and the exponential backoff of
  \<open>pubsuber/src/ExpoBackoff.h\<close> and \<open>ExpoBackoff.cpp\<close>.

  \<open>std::random_device\<close> gives every backoff object its own seed; the draws of the normal distribution
  are \<open>e_normal\<close> of the seed, the number of the draw, the mean and the deviation.
\<close>

section \<open>Policies\<close>

record RetryCountPolicy =
  policy_count :: u32

record MaxRetryTimePolicy =
  policy_interval :: secs

record ExponentialBackoffPolicy =
  initialDelay :: msecs
  maxDelay :: msecs
  scale :: dbl

definition default_RetryCountPolicy :: RetryCountPolicy where
  "default_RetryCountPolicy = \<lparr>policy_count = 3\<rparr>"

definition default_MaxRetryTimePolicy :: MaxRetryTimePolicy where
  "default_MaxRetryTimePolicy = \<lparr>policy_interval = 15\<rparr>"

text \<open>The scale is the \<open>double\<close> closest to 2.7182818.\<close>

definition default_ExponentialBackoffPolicy :: ExponentialBackoffPolicy where
  "default_ExponentialBackoffPolicy =
     \<lparr>initialDelay = 250, maxDelay = ms_of_s 15, scale = Dbl 6121026450784001 (-51)\<rparr>"

section \<open>The backoff object\<close>

record ExpoBackoff =
  bo_policy :: ExponentialBackoffPolicy
  gen_seed :: nat
  gen_drawn :: nat
  currentInterval :: msecs
  jitter :: dbl
  attempt :: u32

text \<open>The \<open>double\<close>s closest to 0.11049435140430175 and to 0.0001.\<close>

definition DefaultJitter :: dbl where
  "DefaultJitter = Dbl 7961957116975328 (-56)"

definition jitter_limit :: dbl where
  "jitter_limit = Dbl 7378697629483821 (-66)"

text \<open>
  \<open>toMs\<close> casts to \<open>uint64_t\<close>, then stores the value in the signed representation of milliseconds.
\<close>

definition toMs :: "dbl \<Rightarrow> msecs outcome" where
  "toMs v = (case to_u64 (dtrunc v) of Inl e \<Rightarrow> Inl e | Inr u \<Rightarrow> Inr (sint u))"

definition CreatePRNG :: "world \<Rightarrow> nat \<times> world" where
  "CreatePRNG w = (w_seeds w, w\<lparr>w_seeds := Suc (w_seeds w)\<rparr>)"

definition new_ExpoBackoff :: "ExponentialBackoffPolicy \<Rightarrow> world \<Rightarrow> ExpoBackoff \<times> world" where
  "new_ExpoBackoff p w = (case CreatePRNG w of (seed, w') \<Rightarrow>
     (\<lparr>bo_policy = p, gen_seed = seed, gen_drawn = 0, currentInterval = initialDelay p,
       jitter = DefaultJitter, attempt = 0\<rparr>, w'))"

text \<open>
  A normal distribution must be given a positive deviation. The last test caps what was drawn.
\<close>

definition next_interval :: "env \<Rightarrow> ExpoBackoff \<Rightarrow> dbl \<Rightarrow> (msecs \<times> nat) outcome" where
  "next_interval E b nextTime =
     (if jitter b < jitter_limit then
        (case toMs nextTime of Inl e \<Rightarrow> Inl e | Inr t \<Rightarrow> Inr (t, gen_drawn b))
      else
        (let sigma = dmul (jitter b) nextTime
         in if \<not> Dbl 0 0 < sigma then Inl (Undefined ''normal_distribution: deviation not positive'')
            else case toMs (e_normal E (gen_seed b) (gen_drawn b) nextTime sigma) of
                   Inl e \<Rightarrow> Inl e
                 | Inr t \<Rightarrow> Inr (t, Suc (gen_drawn b))))"

definition CalculateNext :: "env \<Rightarrow> ExpoBackoff \<Rightarrow> ExpoBackoff outcome" where
  "CalculateNext E b =
     (let nextTime = dmul (d_of_int (currentInterval b)) (scale (bo_policy b));
          limit = maxDelay (bo_policy b)
      in case toMs nextTime of
           Inl e \<Rightarrow> Inl e
         | Inr ms \<Rightarrow>
             (case next_interval E b (if limit < ms then d_of_int limit else nextTime) of
                Inl e \<Rightarrow> Inl e
              | Inr (interval, drawn) \<Rightarrow>
                  Inr (b\<lparr>currentInterval := (if limit < interval then limit else interval),
                         gen_drawn := drawn\<rparr>)))"

definition Delay :: "env \<Rightarrow> ExpoBackoff \<Rightarrow> (msecs \<times> ExpoBackoff) outcome" where
  "Delay E b =
     (let b1 = b\<lparr>attempt := attempt b + 1\<rparr>; ret = currentInterval b1
      in case CalculateNext E b1 of Inl e \<Rightarrow> Inl e | Inr b2 \<Rightarrow> Inr (ret, b2))"

definition RetryCount :: "ExpoBackoff \<Rightarrow> u32" where
  "RetryCount b = attempt b"

section \<open>What a delay is\<close>

lemma toMs_range: "toMs v = Inr t \<Longrightarrow> - (2 ^ 63) \<le> t \<and> t < 2 ^ 63"
proof -
  assume "toMs v = Inr t"
  then obtain u :: u64 where "t = sint u" by (auto simp: toMs_def split: sum.splits)
  with sint_ge [of u] sint_lt [of u] show ?thesis by simp
qed

lemma toMs_nonneg: "toMs v = Inr t \<Longrightarrow> dtrunc v < 2 ^ 63 \<Longrightarrow> t = dtrunc v \<and> 0 \<le> t"
  by (auto simp: toMs_def to_u64_def signed_of_int signed_take_bit_int_eq_self split: if_splits)

lemma CalculateNext_frame:
  assumes "CalculateNext E b = Inr b'"
  shows "bo_policy b' = bo_policy b" and "attempt b' = attempt b" and "jitter b' = jitter b"
    and "gen_seed b' = gen_seed b" and "currentInterval b' \<le> maxDelay (bo_policy b)"
  using assms by (auto simp: CalculateNext_def Let_def split: sum.splits prod.splits)

lemma CalculateNext_error: "CalculateNext E b = Inl e \<Longrightarrow> \<not> caught e"
  by (auto simp: CalculateNext_def next_interval_def toMs_def to_u64_def Let_def
      split: sum.splits prod.splits if_splits)

lemma Delay_frame:
  assumes "Delay E b = Inr (d, b')"
  shows "d = currentInterval b" and "attempt b' = attempt b + 1" and "bo_policy b' = bo_policy b"
    and "jitter b' = jitter b" and "currentInterval b' \<le> maxDelay (bo_policy b)"
proof -
  from assms obtain b2 where b2: "CalculateNext E (b\<lparr>attempt := attempt b + 1\<rparr>) = Inr b2"
    and eq: "d = currentInterval b" "b' = b2"
    by (auto simp: Delay_def Let_def split: sum.splits)
  from CalculateNext_frame [OF b2] eq
  show "d = currentInterval b" "attempt b' = attempt b + 1" "bo_policy b' = bo_policy b"
    "jitter b' = jitter b" "currentInterval b' \<le> maxDelay (bo_policy b)"
    by simp_all
qed

lemma Delay_error: "Delay E b = Inl e \<Longrightarrow> \<not> caught e"
  by (auto simp: Delay_def Let_def dest: CalculateNext_error split: sum.splits)

text \<open>The delays of consecutive failures.\<close>

fun delays :: "env \<Rightarrow> nat \<Rightarrow> ExpoBackoff \<Rightarrow> (msecs list \<times> ExpoBackoff) outcome" where
  "delays E 0 b = Inr ([], b)"
| "delays E (Suc n) b =
     (case Delay E b of
        Inl e \<Rightarrow> Inl e
      | Inr (d, b') \<Rightarrow> (case delays E n b' of Inl e \<Rightarrow> Inl e | Inr (ds, b'') \<Rightarrow> Inr (d # ds, b'')))"

lemma delays_step:
  assumes "delays E (Suc n) b = Inr (ds, b'')"
  obtains d b' ds' where "Delay E b = Inr (d, b')" and "delays E n b' = Inr (ds', b'')" and "ds = d # ds'"
  using assms by (auto split: sum.splits prod.splits)

lemma delays_bounded:
  assumes "delays E n b = Inr (ds, b')" and "currentInterval b \<le> maxDelay (bo_policy b)"
  shows "\<forall>d\<in>set ds. d \<le> maxDelay (bo_policy b)"
  using assms
proof (induction n arbitrary: b ds)
  case 0
  then show ?case by simp
next
  case (Suc n)
  from Suc.prems(1) obtain d b1 ds1 where step: "Delay E b = Inr (d, b1)"
    and rest: "delays E n b1 = Inr (ds1, b')" and ds: "ds = d # ds1"
    by (rule delays_step)
  have "\<forall>d\<in>set ds1. d \<le> maxDelay (bo_policy b1)"
    using rest Delay_frame(3,5) [OF step] by (intro Suc.IH) simp_all
  then show ?case
    using Delay_frame(1,3) [OF step] Suc.prems(2) by (simp add: ds)
qed

lemma delays_attempt: "delays E n b = Inr (ds, b') \<Longrightarrow> length ds = n \<and> attempt b' = attempt b + of_nat n"
proof (induction n arbitrary: b ds)
  case 0
  then show ?case by simp
next
  case (Suc n)
  from Suc.prems obtain d b1 ds1 where step: "Delay E b = Inr (d, b1)"
    and rest: "delays E n b1 = Inr (ds1, b')" and ds: "ds = d # ds1"
    by (rule delays_step)
  from Suc.IH [OF rest] show ?case
    using Delay_frame(2) [OF step] by (simp add: ds)
qed

section \<open>An example\<close>

definition demo_policy :: "msecs \<Rightarrow> msecs \<Rightarrow> ExponentialBackoffPolicy" where
  "demo_policy initial limit = \<lparr>initialDelay = initial, maxDelay = limit, scale = Dbl 1 0\<rparr>"

text \<open>The backoff after \<open>n\<close> delays, for a maximum of one millisecond.\<close>

definition demo_backoff :: "ExponentialBackoffPolicy \<Rightarrow> nat \<Rightarrow> ExpoBackoff" where
  "demo_backoff p n =
     \<lparr>bo_policy = p, gen_seed = 0, gen_drawn = n, currentInterval = (if n = 0 then initialDelay p else 1),
      jitter = DefaultJitter, attempt = of_nat n\<rparr>"

lemma demo_new: "new_ExpoBackoff p demo_world = (demo_backoff p 0, demo_world\<lparr>w_seeds := 1\<rparr>)"
  by (simp add: new_ExpoBackoff_def CreatePRNG_def demo_backoff_def demo_world_def)

lemma demo_Delay:
  "Delay (demo_env srv) (demo_backoff (demo_policy 1 1) n) = Inr (1, demo_backoff (demo_policy 1 1) (Suc n))"
  "Delay (demo_env srv) (demo_backoff (demo_policy 2 1) 0) = Inr (2, demo_backoff (demo_policy 2 1) 1)"
  by (simp_all add: Delay_def demo_backoff_def demo_policy_def Let_def CalculateNext_def
      toMs_def d_of_int_def dmul_def d_round_def round53_exact dtrunc_def to_u64_def next_interval_def)
    (simp_all add: DefaultJitter_def jitter_limit_def less_dbl_def dless_def round53_exact)

text \<open>
  The delays of the default scale up to a maximum \<open>M\<close> when every draw is the mean, and one step of them for
  a rounded product \<open>r\<close>.
\<close>

definition mean_backoff :: "msecs \<Rightarrow> nat \<Rightarrow> nat \<Rightarrow> msecs \<Rightarrow> ExpoBackoff" where
  "mean_backoff M seed n ms =
     \<lparr>bo_policy = default_ExponentialBackoffPolicy\<lparr>maxDelay := M\<rparr>, gen_seed = seed, gen_drawn = n,
      currentInterval = ms, jitter = DefaultJitter, attempt = of_nat n\<rparr>"

lemma new_mean_backoff: "new_ExpoBackoff (default_ExponentialBackoffPolicy\<lparr>maxDelay := M\<rparr>) w =
    (mean_backoff M (w_seeds w) 0 250, w\<lparr>w_seeds := Suc (w_seeds w)\<rparr>)"
  by (simp add: new_ExpoBackoff_def CreatePRNG_def mean_backoff_def default_ExponentialBackoffPolicy_def)

lemma round53_pos: "0 < n \<Longrightarrow> 0 < round53 n"
  using round53_error(2) [of n] by (cases "round53 n") simp_all

lemma jitter_positive:
  assumes "0 < m"
  shows "Dbl 0 0 < dmul DefaultJitter (Dbl m e)" and "\<not> DefaultJitter < jitter_limit"
proof -
  have "0 < round53 (nat (7961957116975328 * m))" using assms by (intro round53_pos) simp
  with assms show "Dbl 0 0 < dmul DefaultJitter (Dbl m e)"
    by (simp add: less_dbl_def dless_def DefaultJitter_def dmul_def d_round_def Let_def)
qed (simp add: DefaultJitter_def jitter_limit_def less_dbl_def dless_def)

lemma next_interval_mean:
  assumes "\<And>seed n m d. e_normal E seed n m d = m" and "0 < m" and "toMs (Dbl m e) = Inr t"
    and "jitter b = DefaultJitter"
  shows "next_interval E b (Dbl m e) = Inr (t, Suc (gen_drawn b))"
  using jitter_positive(1) [OF assms(2), of e] jitter_positive(2) [OF assms(2)] assms by (simp add: next_interval_def Let_def)

lemma toMs_Dbl: "0 \<le> i \<Longrightarrow> i < 2 ^ 63 \<Longrightarrow> dtrunc d = i \<Longrightarrow> toMs d = Inr i"
  by (simp add: toMs_def to_u64_def signed_of_int signed_take_bit_int_eq_self)

lemma mean_step:
  assumes mean: "\<And>seed n m d. e_normal E seed n m d = m"
    and ms: "0 < ms" "ms < 2 ^ 53" and r: "round53 (nat ms * 6121026450784001) = r" "r div 2 ^ 51 < 2 ^ 63"
  shows "int (r div 2 ^ 51) \<le> M \<Longrightarrow>
      Delay E (mean_backoff M seed n ms) = Inr (ms, mean_backoff M seed (Suc n) (int (r div 2 ^ 51)))"
    and "M < int (r div 2 ^ 51) \<Longrightarrow> 0 < M \<Longrightarrow> M < 2 ^ 53 \<Longrightarrow>
      Delay E (mean_backoff M seed n ms) = Inr (ms, mean_backoff M seed (Suc n) M)"
proof -
  have "0 < nat ms * 6121026450784001" using ms(1) by simp
  then have pos: "0 < int r" using round53_pos r(1) by (metis of_nat_0_less_iff)
  have whole: "d_of_int i = Dbl i 0" if "0 < i" "i < 2 ^ 53" for i
    using d_of_nat_small [of "nat i"] that by simp
  have product: "dmul (Dbl ms 0) (Dbl 6121026450784001 (- 51)) = Dbl (int r) (- 51)"
    using ms(1) r(1) by (simp add: dmul_def d_round_def nat_mult_distrib sgn_mult)
  have value_of: "toMs (Dbl (int r) (- 51)) = Inr (int (r div 2 ^ 51))"
    using r(2) pos by (intro toMs_Dbl) (simp_all add: dtrunc_def signed_divide_int_def zdiv_int)
  note step = Delay_def CalculateNext_def Let_def
  show "Delay E (mean_backoff M seed n ms) = Inr (ms, mean_backoff M seed (Suc n) (int (r div 2 ^ 51)))"
    if "int (r div 2 ^ 51) \<le> M"
    using next_interval_mean [OF mean pos value_of] that
    by (simp add: step mean_backoff_def default_ExponentialBackoffPolicy_def whole [OF ms] product value_of)
  show "Delay E (mean_backoff M seed n ms) = Inr (ms, mean_backoff M seed (Suc n) M)"
    if "M < int (r div 2 ^ 51)" "0 < M" "M < 2 ^ 53"
  proof -
    have "toMs (Dbl M 0) = Inr M" using that by (intro toMs_Dbl) (simp_all add: dtrunc_def)
    from next_interval_mean [OF mean that(2) this] that show ?thesis
      by (simp add: step mean_backoff_def default_ExponentialBackoffPolicy_def whole [OF ms] whole [OF that(2,3)] product
          value_of)
  qed
qed

lemmas round53_eval = round53_def rne_def bits.simps Let_def

lemma mean_Delay:
  assumes mean: "\<And>seed n m d. e_normal E seed n m d = m"
  shows "679 \<le> M \<Longrightarrow> Delay E (mean_backoff M seed n 250) = Inr (250, mean_backoff M seed (Suc n) 679)"
    "1845 \<le> M \<Longrightarrow> Delay E (mean_backoff M seed n 679) = Inr (679, mean_backoff M seed (Suc n) 1845)"
    "5015 \<le> M \<Longrightarrow> Delay E (mean_backoff M seed n 1845) = Inr (1845, mean_backoff M seed (Suc n) 5015)"
    "13632 \<le> M \<Longrightarrow> Delay E (mean_backoff M seed n 5015) = Inr (5015, mean_backoff M seed (Suc n) 13632)"
    "37055 \<le> M \<Longrightarrow> Delay E (mean_backoff M seed n 13632) = Inr (13632, mean_backoff M seed (Suc n) 37055)"
  using mean_step(1) [OF mean _ _ refl, of 250 M seed n] mean_step(1) [OF mean _ _ refl, of 679 M seed n]
    mean_step(1) [OF mean _ _ refl, of 1845 M seed n] mean_step(1) [OF mean _ _ refl, of 5015 M seed n]
    mean_step(1) [OF mean _ _ refl, of 13632 M seed n]
  by (simp_all add: round53_eval)

section \<open>Properties\<close>



text \<open>
  The first delay is the initial one of the policy as it is, even when it exceeds the maximum delay:
  the limit is applied to the computed intervals only.
\<close>

theorem first_delay_uncapped:
  assumes "Delay E (fst (new_ExpoBackoff p w)) = Inr (d, b)"
  shows "d = initialDelay p \<and> currentInterval b \<le> maxDelay p"
  using Delay_frame(1,5) [OF assms] by (simp add: new_ExpoBackoff_def CreatePRNG_def)

theorem first_delay_uncapped_witness:
  "2 = initialDelay (demo_policy 2 1) \<and> currentInterval (demo_backoff (demo_policy 2 1) 1) \<le> maxDelay (demo_policy 2 1)"
  by (rule first_delay_uncapped [of "demo_env ok_server" _ demo_world]) (simp add: demo_new demo_Delay)

end
