(* ===== verification/Retriable.thy ===== *)
theory Retriable
  imports Backoff
begin

text \<open>
  The retry loop of \<open>pubsuber/src/Retriable.h\<close>: \<open>make_call\<close> repeats a remote call while the server is
  unavailable or the deadline passes, with an exponential backoff, until the retry count or the time
  policy ends it. The loop may run for ever (a count of 0 means no limit), so it is a
  \<open>partial_function\<close> and not returning is \<open>None\<close>.

  The contract its callers rely on is the locale \<open>transport\<close>.
\<close>

section \<open>The loop\<close>

definition kDefaultRPCTimeout :: secs where
  "kDefaultRPCTimeout = 20"

definition retries_exahusted ::
  "env \<Rightarrow> nsecs \<Rightarrow> u32 \<Rightarrow> RetryCountPolicy \<Rightarrow> MaxRetryTimePolicy \<Rightarrow> world \<Rightarrow> bool \<times> world" where
  "retries_exahusted E start retryCount countPolicy timePolicy w =
     (if 0 < policy_count countPolicy \<and> policy_count countPolicy < retryCount then (True, w)
      else case steady_now E w of (t, w') \<Rightarrow> (ns_of_s (policy_interval timePolicy) < t - start, w'))"

text \<open>
  The deadline is a \<open>system_clock\<close> time point in 64-bit nanoseconds; the sum is undefined beyond them.
\<close>

definition set_deadline :: "env \<Rightarrow> secs \<Rightarrow> world \<Rightarrow> nsecs option" where
  "set_deadline E timeout w = (let d = e_system E (w_time w) + ns_of_s timeout
     in if - (2 ^ 63) \<le> d \<and> d < 2 ^ 63 then Some d else None)"

definition retryable :: "rpc_reply \<Rightarrow> bool" where
  "retryable r \<longleftrightarrow> rep_code r = DEADLINE_EXCEEDED \<or> rep_code r = UNAVAILABLE"

definition exhausted_text :: "env \<Rightarrow> rpc_request \<Rightarrow> RetryCountPolicy \<Rightarrow> MaxRetryTimePolicy \<Rightarrow> string" where
  "exhausted_text E req countPolicy timePolicy =
     ''Pubsuber: GRPC call '' @ [CHR 0x27] @ e_call_name E req @ [CHR 0x27] @ '' failed after '' @
     to_string (uint (policy_count countPolicy)) @ '' times or '' @
     to_string (policy_interval timePolicy) @ ''s with error''"

text \<open>The variables that live across iterations.\<close>

record call_state =
  cs_backoff :: ExpoBackoff
  cs_timeout :: secs
  cs_status :: grpc_code

type_synonym call_result = "(rpc_reply \<times> nsecs) outcome \<times> world"

text \<open>One round: either the loop is left with a result (\<open>Inl\<close>) or it continues (\<open>Inr\<close>).\<close>

definition make_call_body ::
  "env \<Rightarrow> rpc_request \<Rightarrow> RetryCountPolicy \<Rightarrow> MaxRetryTimePolicy \<Rightarrow> nsecs \<Rightarrow> call_state \<Rightarrow> world
    \<Rightarrow> call_result + (call_state \<times> world)" where
  "make_call_body E req countPolicy timePolicy start st w =
     (case retries_exahusted E start (RetryCount (cs_backoff st)) countPolicy timePolicy w of (stop, w1) \<Rightarrow>
      if stop then
        Inl (Inl (Exception_code (exhausted_text E req countPolicy timePolicy) (e_code_num E (cs_status st))), w1)
      else
        (case set_deadline E (cs_timeout st) w1 of
           None \<Rightarrow> Inl (Inl (Undefined ''deadline beyond the clock''), w1)
         | Some deadline \<Rightarrow>
            (case steady_now E w1 of (next_time, w2) \<Rightarrow>
             case rpc_call E req (cs_timeout st) w2 of (reply, w3) \<Rightarrow>
               if retryable reply then
                 (let timeout = (if rep_code reply = DEADLINE_EXCEEDED then 2 * cs_timeout st else cs_timeout st)
                  in case Delay E (cs_backoff st) of
                       Inl e \<Rightarrow> Inl (Inl e, w3)
                     | Inr (delay, backoff) \<Rightarrow>
                         Inr (\<lparr>cs_backoff = backoff, cs_timeout = timeout, cs_status = rep_code reply\<rparr>,
                              sleep_for E delay w3))
               else Inl (Inr (reply, next_time), w3))))"

partial_function (option) make_call_loop ::
  "env \<Rightarrow> rpc_request \<Rightarrow> RetryCountPolicy \<Rightarrow> MaxRetryTimePolicy \<Rightarrow> nsecs \<Rightarrow> call_state \<Rightarrow> world
    \<Rightarrow> call_result option" where
  "make_call_loop E req countPolicy timePolicy start st w =
     (case make_call_body E req countPolicy timePolicy start st w of
        Inl r \<Rightarrow> Some r
      | Inr p \<Rightarrow> make_call_loop E req countPolicy timePolicy start (fst p) (snd p))"

definition make_call ::
  "env \<Rightarrow> RetryCountPolicy \<Rightarrow> MaxRetryTimePolicy \<Rightarrow> ExponentialBackoffPolicy \<Rightarrow> secs
    \<Rightarrow> rpc_request \<Rightarrow> world \<Rightarrow> call_result option" where
  "make_call E countPolicy timePolicy backoffPolicy rpcTimeout req w =
     (case new_ExpoBackoff backoffPolicy w of (backoff, w1) \<Rightarrow>
      case steady_now E w1 of (start, w2) \<Rightarrow>
        make_call_loop E req countPolicy timePolicy start
          \<lparr>cs_backoff = backoff, cs_timeout = rpcTimeout, cs_status = OK\<rparr> w2)"

section \<open>What a finished call did\<close>

text \<open>
  \<open>timeouts_ok t evs\<close>: the calls, oldest first, start with timeout \<open>t\<close>, and each deadline that passed
  doubles the timeout of the rest.
\<close>

fun timeouts_ok :: "secs \<Rightarrow> rpc_event list \<Rightarrow> bool" where
  "timeouts_ok t [] \<longleftrightarrow> True"
| "timeouts_ok t (ev # evs) \<longleftrightarrow> ev_timeout ev = t \<and>
     timeouts_ok (if rep_code (ev_reply ev) = DEADLINE_EXCEEDED then 2 * t else t) evs"

text \<open>
  \<open>call_done req t w evs res w'\<close>: a finished call of \<open>req\<close> took the world from \<open>w\<close> to \<open>w'\<close>, made the
  calls \<open>evs\<close> (newest first) and ended with \<open>res\<close>. A reply is that of the last call, all earlier ones
  were retryable, and the time handed back lies between the start and the end.
\<close>

definition call_done ::
  "rpc_request \<Rightarrow> secs \<Rightarrow> world \<Rightarrow> rpc_event list \<Rightarrow> (rpc_reply \<times> nsecs) outcome \<Rightarrow> world \<Rightarrow> bool" where
  "call_done req t w evs res w' \<longleftrightarrow>
     w_log w' = evs @ w_log w \<and> w_time w \<le> w_time w' \<and>
     list_all (\<lambda>ev. ev_request ev = req) evs \<and> timeouts_ok t (rev evs) \<and>
     (case res of
        Inl e \<Rightarrow> list_all (\<lambda>ev. retryable (ev_reply ev)) evs
      | Inr (reply, now) \<Rightarrow> evs \<noteq> [] \<and> ev_reply (hd evs) = reply \<and> \<not> retryable reply \<and>
          list_all (\<lambda>ev. retryable (ev_reply ev)) (tl evs) \<and> w_time w \<le> now \<and> now \<le> w_time w')"

lemma call_done_Inl: "call_done req t w evs (Inl e) w' \<longleftrightarrow>
    w_log w' = evs @ w_log w \<and> w_time w \<le> w_time w' \<and> list_all (\<lambda>ev. ev_request ev = req) evs \<and>
    timeouts_ok t (rev evs) \<and> list_all (\<lambda>ev. retryable (ev_reply ev)) evs"
  by (auto simp: call_done_def)

lemma call_done_Inr: "call_done req t w evs (Inr (reply, now)) w' \<longleftrightarrow>
    w_log w' = evs @ w_log w \<and> w_time w \<le> w_time w' \<and> list_all (\<lambda>ev. ev_request ev = req) evs \<and>
    timeouts_ok t (rev evs) \<and> evs \<noteq> [] \<and> ev_reply (hd evs) = reply \<and> \<not> retryable reply \<and>
    list_all (\<lambda>ev. retryable (ev_reply ev)) (tl evs) \<and> w_time w \<le> now \<and> now \<le> w_time w'"
  by (auto simp: call_done_def)

lemmas call_done_simps = call_done_Inl call_done_Inr

text \<open>A retryable round in front of a finished call.\<close>

lemma call_done_retry:
  assumes "w_log w1 = (req, t, reply) # w_log w" and "w_time w \<le> w_time w1" and "retryable reply"
    and "call_done req (if rep_code reply = DEADLINE_EXCEEDED then 2 * t else t) w1 evs res w'"
  shows "call_done req t w (evs @ [(req, t, reply)]) res w'"
proof (cases res)
  case (Inl e)
  with assms show ?thesis by (simp add: call_done_simps)
next
  case (Inr p)
  obtain r now where p: "p = (r, now)" by (cases p)
  with assms Inr show ?thesis by (simp add: call_done_simps hd_append)
qed

subsection \<open>One round\<close>

lemma retries_exahusted_frame:
  assumes "retries_exahusted E start n cp tp w = (stop, w')"
  shows "w_log w' = w_log w" and "w_time w \<le> w_time w'"
  using assms by (auto simp: retries_exahusted_def dest: steady_now_frame split: if_splits prod.splits)

lemma retries_exahusted_stop:
  assumes "retries_exahusted E start n cp tp w = (True, w')"
  shows "(0 < policy_count cp \<and> policy_count cp < n) \<or> ns_of_s (policy_interval tp) < w_time w' - start"
  using assms by (auto simp: retries_exahusted_def dest: steady_now_frame split: if_splits prod.splits)

lemma retries_exahusted_go:
  assumes "retries_exahusted E start n cp tp w = (False, w')" and "0 < policy_count cp"
  shows "n \<le> policy_count cp"
  using assms by (auto simp: retries_exahusted_def split: if_splits)

text \<open>
  Why the loop gives up after the \<open>n\<close>-th failure at time \<open>t\<close>, and with which status.
\<close>

definition exhausted :: "RetryCountPolicy \<Rightarrow> MaxRetryTimePolicy \<Rightarrow> nsecs \<Rightarrow> u32 \<Rightarrow> nsecs \<Rightarrow> bool" where
  "exhausted cp tp start n t \<longleftrightarrow>
     (0 < policy_count cp \<and> policy_count cp < n) \<or> ns_of_s (policy_interval tp) < t - start"

definition last_status :: "grpc_code \<Rightarrow> rpc_event list \<Rightarrow> grpc_code" where
  "last_status c evs = (if evs = [] then c else rep_code (ev_reply (hd evs)))"

lemma last_status_append: "last_status c (evs @ [(q, t, r)]) = last_status (rep_code r) evs"
  by (simp add: last_status_def hd_append)

text \<open>How a round ends the loop.\<close>

lemma body_leaves:
  assumes "make_call_body E req cp tp start st w = Inl (res, w')"
  obtains evs where "call_done req (cs_timeout st) w evs res w'" and "length evs \<le> 1"
    and "\<And>e. res = Inl e \<Longrightarrow> caught e \<Longrightarrow> evs = [] \<and>
      e = Exception_code (exhausted_text E req cp tp) (e_code_num E (cs_status st)) \<and>
      exhausted cp tp start (attempt (cs_backoff st)) (w_time w')"
    and "evs \<noteq> [] \<Longrightarrow> 0 < policy_count cp \<Longrightarrow> attempt (cs_backoff st) \<le> policy_count cp"
proof -
  obtain stop w1 where exh: "retries_exahusted E start (RetryCount (cs_backoff st)) cp tp w = (stop, w1)"
    by (cases "retries_exahusted E start (RetryCount (cs_backoff st)) cp tp w")
  note f1 = retries_exahusted_frame [OF exh]
  obtain nx w2 where now: "steady_now E w1 = (nx, w2)" by (cases "steady_now E w1")
  note f2 = steady_now_frame [OF now]
  obtain reply w3 where call: "rpc_call E req (cs_timeout st) w2 = (reply, w3)"
    by (cases "rpc_call E req (cs_timeout st) w2")
  note f3 = rpc_call_frame [OF call]
  let ?evs = "[(req, cs_timeout st, reply)]"
  consider (stop) stop "w' = w1"
        "res = Inl (Exception_code (exhausted_text E req cp tp) (e_code_num E (cs_status st)))"
    | (no_deadline) "w' = w1" "res = Inl (Undefined ''deadline beyond the clock'')"
    | (error) e where "\<not> stop" "w' = w3" "retryable reply" "res = Inl e" "Delay E (cs_backoff st) = Inl e"
    | (reply) "\<not> stop" "w' = w3" "\<not> retryable reply" "res = Inr (reply, nx)"
    using assms exh now call
    by (auto simp: make_call_body_def Let_def split: if_splits option.splits sum.splits prod.splits)
  then show thesis
  proof cases
    case stop
    have "exhausted cp tp start (attempt (cs_backoff st)) (w_time w1)"
      using retries_exahusted_stop [of E start "RetryCount (cs_backoff st)" cp tp w w1] exh stop(1)
      by (simp add: exhausted_def RetryCount_def)
    with stop f1 show thesis by (intro that [of "[]"]) (auto simp: call_done_simps)
  next
    case no_deadline
    with f1 show thesis by (intro that [of "[]"]) (auto simp: call_done_simps)
  next
    case error
    then have "\<not> caught e" by (auto dest: Delay_error)
    moreover have "call_done req (cs_timeout st) w ?evs res w'"
      using f1 f2 f3 error by (auto simp: call_done_simps)
    moreover have "0 < policy_count cp \<Longrightarrow> attempt (cs_backoff st) \<le> policy_count cp"
      using retries_exahusted_go exh error(1) by (auto simp: RetryCount_def)
    ultimately show thesis using error by (intro that [of ?evs]) auto
  next
    case reply
    then have "call_done req (cs_timeout st) w ?evs res w'"
      using f1 f2 f3 by (auto simp: call_done_simps)
    moreover have "0 < policy_count cp \<Longrightarrow> attempt (cs_backoff st) \<le> policy_count cp"
      using retries_exahusted_go exh reply(1) by (auto simp: RetryCount_def)
    ultimately show thesis using reply by (intro that [of ?evs]) auto
  qed
qed

text \<open>How a round continues it.\<close>

lemma body_continues:
  assumes "make_call_body E req cp tp start st w = Inr (st', w')"
  obtains reply where "w_log w' = (req, cs_timeout st, reply) # w_log w" and "w_time w \<le> w_time w'"
    and "retryable reply"
    and "cs_timeout st' = (if rep_code reply = DEADLINE_EXCEEDED then 2 * cs_timeout st else cs_timeout st)"
    and "cs_status st' = rep_code reply"
    and "attempt (cs_backoff st') = attempt (cs_backoff st) + 1"
    and "0 < policy_count cp \<Longrightarrow> attempt (cs_backoff st) \<le> policy_count cp"
proof -
  obtain stop w1 where exh: "retries_exahusted E start (RetryCount (cs_backoff st)) cp tp w = (stop, w1)"
    by (cases "retries_exahusted E start (RetryCount (cs_backoff st)) cp tp w")
  obtain nx w2 where now: "steady_now E w1 = (nx, w2)" by (cases "steady_now E w1")
  obtain reply w3 where call: "rpc_call E req (cs_timeout st) w2 = (reply, w3)"
    by (cases "rpc_call E req (cs_timeout st) w2")
  obtain delay backoff where delay: "Delay E (cs_backoff st) = Inr (delay, backoff)"
    and run: "\<not> stop" "retryable reply" "w' = sleep_for E delay w3"
    and st': "st' = \<lparr>cs_backoff = backoff,
      cs_timeout = (if rep_code reply = DEADLINE_EXCEEDED then 2 * cs_timeout st else cs_timeout st),
      cs_status = rep_code reply\<rparr>"
    using assms exh now call
    by (auto simp: make_call_body_def Let_def split: if_splits option.splits sum.splits)
  have "w_log w' = (req, cs_timeout st, reply) # w_log w"
    using run retries_exahusted_frame(1) [OF exh] steady_now_frame(1) [OF now] rpc_call_frame(1) [OF call]
    by (simp add: frame_simps)
  moreover have "w_time w \<le> w_time w'"
    using run retries_exahusted_frame(2) [OF exh] steady_now_frame(2,3) [OF now] rpc_call_frame(2) [OF call]
      sleep_for_frame(2) [of w3 E delay] by simp
  moreover have "0 < policy_count cp \<Longrightarrow> attempt (cs_backoff st) \<le> policy_count cp"
    using exh run retries_exahusted_go by (auto simp: RetryCount_def)
  moreover note run(2) Delay_frame(2) [OF delay]
  ultimately show thesis by (intro that [of reply]) (simp_all add: st')
qed

section \<open>The whole loop\<close>

text \<open>What is known of every run of the loop that returns.\<close>

definition loop_done ::
  "env \<Rightarrow> rpc_request \<Rightarrow> RetryCountPolicy \<Rightarrow> MaxRetryTimePolicy \<Rightarrow> nsecs \<Rightarrow> call_state \<Rightarrow> world
    \<Rightarrow> rpc_event list \<Rightarrow> (rpc_reply \<times> nsecs) outcome \<Rightarrow> world \<Rightarrow> bool" where
  "loop_done E req cp tp start st w evs res w' \<longleftrightarrow>
     call_done req (cs_timeout st) w evs res w' \<and>
     (\<forall>e. res = Inl e \<longrightarrow> caught e \<longrightarrow>
        e = Exception_code (exhausted_text E req cp tp) (e_code_num E (last_status (cs_status st) evs)) \<and>
        exhausted cp tp start (attempt (cs_backoff st) + of_nat (length evs)) (w_time w')) \<and>
     (0 < policy_count cp \<longrightarrow> unat (policy_count cp) + 1 < 2 ^ 32 \<longrightarrow>
        unat (attempt (cs_backoff st)) \<le> unat (policy_count cp) + 1 \<longrightarrow>
        unat (attempt (cs_backoff st)) + length evs \<le> unat (policy_count cp) + 1)"

lemma loop_done_leave:
  assumes "make_call_body E req cp tp start st w = Inl (res, w')"
  shows "\<exists>evs. loop_done E req cp tp start st w evs res w'"
proof -
  obtain evs where d: "call_done req (cs_timeout st) w evs res w'" "length evs \<le> 1"
    and e: "\<And>e. res = Inl e \<Longrightarrow> caught e \<Longrightarrow> evs = [] \<and>
      e = Exception_code (exhausted_text E req cp tp) (e_code_num E (cs_status st)) \<and>
      exhausted cp tp start (attempt (cs_backoff st)) (w_time w')"
    and a: "evs \<noteq> [] \<Longrightarrow> 0 < policy_count cp \<Longrightarrow> attempt (cs_backoff st) \<le> policy_count cp"
    using assms by (rule body_leaves) (rule that)
  from d(2) a have "0 < policy_count cp \<Longrightarrow>
      unat (attempt (cs_backoff st)) \<le> unat (policy_count cp) + 1 \<Longrightarrow>
      unat (attempt (cs_backoff st)) + length evs \<le> unat (policy_count cp) + 1"
    by (cases evs) (auto simp: word_le_unat)
  with d(1) e show ?thesis
    by (intro exI [of _ evs]) (auto simp: loop_done_def last_status_def)
qed

lemma loop_done_continue:
  assumes "make_call_body E req cp tp start st w = Inr (st', w1)"
    and "loop_done E req cp tp start st' w1 evs res w'"
  shows "\<exists>evs'. loop_done E req cp tp start st w evs' res w'"
proof -
  obtain reply where f: "w_log w1 = (req, cs_timeout st, reply) # w_log w" "w_time w \<le> w_time w1"
    "retryable reply" "cs_status st' = rep_code reply"
    "cs_timeout st' = (if rep_code reply = DEADLINE_EXCEEDED then 2 * cs_timeout st else cs_timeout st)"
    and n: "attempt (cs_backoff st') = attempt (cs_backoff st) + 1"
    and a: "0 < policy_count cp \<Longrightarrow> attempt (cs_backoff st) \<le> policy_count cp"
    using assms(1) by (rule body_continues) (rule that)
  let ?evs = "evs @ [(req, cs_timeout st, reply)]"
  have done': "call_done req (cs_timeout st) w ?evs res w'"
    using assms(2) f by (intro call_done_retry) (auto simp: loop_done_def split: if_splits)
  have bound: "unat (attempt (cs_backoff st)) + length ?evs \<le> unat (policy_count cp) + 1"
    if "0 < policy_count cp" "unat (policy_count cp) + 1 < 2 ^ 32"
  proof -
    have "unat (attempt (cs_backoff st)) \<le> unat (policy_count cp)"
      using a that(1) by (simp add: word_le_unat)
    then have "unat (attempt (cs_backoff st')) = unat (attempt (cs_backoff st)) + 1"
      using that(2) by (simp add: n unat_add_small)
    with assms(2) that \<open>unat (attempt (cs_backoff st)) \<le> unat (policy_count cp)\<close>
    show ?thesis by (simp add: loop_done_def)
  qed
  have "attempt (cs_backoff st') + of_nat (length evs) = attempt (cs_backoff st) + of_nat (length ?evs)"
    by (simp add: n)
  with assms(2) done' bound f(4) show ?thesis
    by (intro exI [of _ ?evs]) (simp add: loop_done_def last_status_append)
qed

lemma make_call_loop_done:
  assumes "make_call_loop E req cp tp start st w = Some r"
  shows "\<exists>evs. loop_done E req cp tp start st w evs (fst r) (snd r)"
proof (rule make_call_loop.raw_induct
    [where P = "\<lambda>E req cp tp start st w r. \<exists>evs. loop_done E req cp tp start st w evs (fst r) (snd r)",
     OF _ assms])
  fix f E req cp tp start st w r
  assume IH: "\<And>E req cp tp start st w r. f E req cp tp start st w = Some r \<Longrightarrow>
      \<exists>evs. loop_done E req cp tp start st w evs (fst r) (snd r)"
    and eq: "(case make_call_body E req cp tp start st w of Inl r \<Rightarrow> Some r
        | Inr p \<Rightarrow> f E req cp tp start (fst p) (snd p)) = Some r"
  show "\<exists>evs. loop_done E req cp tp start st w evs (fst r) (snd r)"
  proof (cases "make_call_body E req cp tp start st w")
    case (Inl r')
    with eq have "r' = r" by simp
    with Inl show ?thesis using loop_done_leave [of E req cp tp start st w "fst r" "snd r"] by simp
  next
    case (Inr p)
    with eq IH obtain evs where "loop_done E req cp tp start (fst p) (snd p) evs (fst r) (snd r)"
      by fastforce
    with Inr show ?thesis by (intro loop_done_continue) auto
  qed
qed

text \<open>With a count to reach, the loop returns.\<close>

lemma make_call_loop_returns:
  assumes "0 < policy_count cp" and "unat (policy_count cp) + 1 < 2 ^ 32"
    and "unat (policy_count cp) + 1 - unat (attempt (cs_backoff st)) = n"
    and "unat (attempt (cs_backoff st)) \<le> unat (policy_count cp) + 1"
  shows "\<exists>r. make_call_loop E req cp tp start st w = Some r"
  using assms
proof (induction n arbitrary: st w rule: less_induct)
  case (less n)
  show ?case
  proof (cases "make_call_body E req cp tp start st w")
    case (Inl r)
    then show ?thesis by (simp add: make_call_loop.simps [of E req cp tp start st w])
  next
    case (Inr p)
    obtain st' w1 where p: "p = (st', w1)" by (cases p)
    obtain reply where n: "attempt (cs_backoff st') = attempt (cs_backoff st) + 1"
      and a: "0 < policy_count cp \<Longrightarrow> attempt (cs_backoff st) \<le> policy_count cp"
      using Inr p by (auto elim: body_continues)
    have le: "unat (attempt (cs_backoff st)) \<le> unat (policy_count cp)"
      using a less.prems(1) by (simp add: word_le_unat)
    then have "unat (attempt (cs_backoff st')) = unat (attempt (cs_backoff st)) + 1"
      using less.prems(2) by (simp add: n unat_add_small)
    with le less.prems have "\<exists>r. make_call_loop E req cp tp start st' w1 = Some r"
      by (intro less.IH [OF _ less.prems(1,2) refl]) simp_all
    with Inr p show ?thesis by (simp add: make_call_loop.simps [of E req cp tp start st w])
  qed
qed

section \<open>The contract of a call\<close>

text \<open>
  What the components that call the service rely on: whatever comes back, the log grew by calls of
  the given request, and the result is that of the last one.
\<close>

locale transport =
  fixes call :: "rpc_request \<Rightarrow> world \<Rightarrow> call_result option"
    and timeout :: secs
  assumes call_made: "call req w = Some (res, w') \<Longrightarrow> \<exists>evs. call_done req timeout w evs res w'"
begin

lemma call_log: "call req w = Some (res, w') \<Longrightarrow> \<exists>evs. w_log w' = evs @ w_log w"
  by (auto simp: call_done_def dest: call_made)

lemma call_time: "call req w = Some (res, w') \<Longrightarrow> w_time w \<le> w_time w'"
  by (auto simp: call_done_def dest: call_made)

lemma call_requests:
  "call req w = Some (res, w') \<Longrightarrow> w_log w' = evs @ w_log w \<Longrightarrow> list_all (\<lambda>ev. ev_request ev = req) evs"
  by (auto simp: call_done_def dest: call_made)

lemma call_reply:
  assumes "call req w = Some (Inr (reply, now), w')"
  shows "\<exists>t. (req, t, reply) \<in> set (w_log w')" and "w_time w \<le> now" and "now \<le> w_time w'"
    and "\<not> retryable reply"
proof -
  obtain evs where d: "call_done req timeout w evs (Inr (reply, now)) w'"
    using call_made [OF assms] by auto
  then obtain ev rest where evs: "evs = ev # rest" by (cases evs) (auto simp: call_done_simps)
  with d have "ev_request ev = req" "ev_reply ev = reply" "w_log w' = ev # rest @ w_log w"
    by (auto simp: call_done_simps)
  then show "\<exists>t. (req, t, reply) \<in> set (w_log w')" by (cases ev) auto
  from d show "w_time w \<le> now" "now \<le> w_time w'" "\<not> retryable reply"
    by (auto simp: call_done_simps)
qed

end

lemma make_call_loop_of:
  assumes "make_call E cp tp bp t req w = Some (res, w')"
  obtains backoff w1 start w2 where "new_ExpoBackoff bp w = (backoff, w1)" and "steady_now E w1 = (start, w2)"
    and "make_call_loop E req cp tp start \<lparr>cs_backoff = backoff, cs_timeout = t, cs_status = OK\<rparr> w2 = Some (res, w')"
    and "attempt backoff = 0" and "w_log w2 = w_log w" and "w_time w \<le> w_time w2" and "w_time w2 = start"
proof -
  obtain backoff w1 where b: "new_ExpoBackoff bp w = (backoff, w1)" by (cases "new_ExpoBackoff bp w")
  obtain start w2 where s: "steady_now E w1 = (start, w2)" by (cases "steady_now E w1")
  have b': "attempt backoff = 0" "w_log w1 = w_log w" "w_time w1 = w_time w"
    using b by (auto simp: new_ExpoBackoff_def CreatePRNG_def)
  show thesis
    using assms b b' s steady_now_frame [OF s] by (intro that [OF b s]) (simp_all add: make_call_def)
qed

lemma make_call_done:
  assumes "make_call E cp tp bp t req w = Some (res, w')"
  obtains evs start where "call_done req t w evs res w'" and "w_time w \<le> start"
    and "\<And>e. res = Inl e \<Longrightarrow> caught e \<Longrightarrow>
      e = Exception_code (exhausted_text E req cp tp) (e_code_num E (last_status OK evs)) \<and>
      exhausted cp tp start (of_nat (length evs)) (w_time w')"
    and "0 < policy_count cp \<Longrightarrow> unat (policy_count cp) + 1 < 2 ^ 32 \<Longrightarrow> length evs \<le> unat (policy_count cp) + 1"
proof -
  obtain backoff w1 start w2 where
    loop: "make_call_loop E req cp tp start \<lparr>cs_backoff = backoff, cs_timeout = t, cs_status = OK\<rparr> w2 = Some (res, w')"
    and f: "attempt backoff = 0" "w_log w2 = w_log w" "w_time w \<le> w_time w2" "w_time w2 = start"
    using assms by (rule make_call_loop_of) (rule that)
  obtain evs where ld: "loop_done E req cp tp start \<lparr>cs_backoff = backoff, cs_timeout = t, cs_status = OK\<rparr> w2 evs res w'"
    using make_call_loop_done [OF loop] by auto
  have "call_done req t w evs res w'"
    using ld f by (cases res) (auto simp: loop_done_def call_done_simps)
  then show thesis
    using ld f by (intro that [of evs start]) (auto simp: loop_done_def)
qed

interpretation stub: transport "make_call E cp tp bp t" t for E cp tp bp t
proof unfold_locales
  fix req w res w'
  assume "make_call E cp tp bp t req w = Some (res, w')"
  then show "\<exists>evs. call_done req t w evs res w'" by (rule make_call_done) blast
qed

lemma make_call_returns_Some:
  assumes "0 < policy_count cp" and "unat (policy_count cp) + 1 < 2 ^ 32"
  shows "\<exists>r. make_call E cp tp bp t req w = Some r"
proof -
  obtain backoff w1 where b: "new_ExpoBackoff bp w = (backoff, w1)" by (cases "new_ExpoBackoff bp w")
  obtain start w2 where s: "steady_now E w1 = (start, w2)" by (cases "steady_now E w1")
  have "attempt backoff = 0" using b by (auto simp: new_ExpoBackoff_def CreatePRNG_def)
  then have "\<exists>r. make_call_loop E req cp tp start \<lparr>cs_backoff = backoff, cs_timeout = t, cs_status = OK\<rparr> w2 = Some r"
    using assms by (intro make_call_loop_returns [OF _ _ refl]) simp_all
  then show ?thesis by (simp add: make_call_def b s)
qed

section \<open>Examples\<close>

text \<open>A call that is answered at once, and one that never is.\<close>

definition answered_world :: "rpc_request \<Rightarrow> secs \<Rightarrow> rpc_reply \<Rightarrow> world \<Rightarrow> world" where
  "answered_world req t r w = \<lparr>w_time = w_time w + 3000 + int (rep_took r), w_reads = w_reads w + 3,
     w_seeds = Suc (w_seeds w), w_log = (req, t, r) # w_log w\<rparr>"

lemma demo_answered_by:
  assumes "srv (w_log w) req 20 = r" and "\<not> retryable r" and "0 \<le> w_time w" and "w_time w < 2 ^ 62"
    and "0 < policy_interval tp"
  shows "make_call (demo_env srv) cp tp bp 20 req w = Some (Inr (r, w_time w + 3000), answered_world req 20 r w)"
  using assms
  by (simp add: make_call_def new_ExpoBackoff_def CreatePRNG_def steady_now_def Let_def
      make_call_loop.simps make_call_body_def retries_exahusted_def RetryCount_def
      ns_of_s_def set_deadline_def rpc_call_def answered_world_def)

lemma demo_answered:
  assumes "srv (w_log w) req 20 = r" and "\<not> retryable r" and "0 \<le> w_time w" and "w_time w < 2 ^ 62"
  shows "make_call (demo_env srv) default_RetryCountPolicy default_MaxRetryTimePolicy bp 20 req w =
    Some (Inr (r, w_time w + 3000), answered_world req 20 r w)"
  using assms by (intro demo_answered_by) (simp_all add: default_MaxRetryTimePolicy_def)

lemma not_retryable_OK [simp]: "\<not> retryable (demo_reply OK ids msgs)"
  by (simp add: retryable_def)

lemma answered_world_simps [simp]:
  "w_log (answered_world req t r w) = (req, t, r) # w_log w"
  "w_time (answered_world req t r w) = w_time w + 3000 + int (rep_took r)"
  by (simp_all add: answered_world_def)

lemma demo_world_simps [simp]: "w_log demo_world = []" "w_time demo_world = 0"
  by (simp_all add: demo_world_def)

lemma demo_ok:
  assumes "0 \<le> w_time w" and "w_time w < 2 ^ 62"
  shows "make_call (demo_env ok_server) default_RetryCountPolicy default_MaxRetryTimePolicy bp 20 req w =
    Some (Inr (demo_reply OK [''id''] [], w_time w + 3000), answered_world req 20 (demo_reply OK [''id''] []) w)"
  using assms by (intro demo_answered) (simp_all add: ok_server_def)

definition down_server :: "rpc_event list \<Rightarrow> rpc_request \<Rightarrow> secs \<Rightarrow> rpc_reply" where
  "down_server evs req t = demo_reply UNAVAILABLE [] []"

definition down_world :: "rpc_request \<Rightarrow> world" where
  "down_world req = \<lparr>w_time = 2007000, w_reads = 7, w_seeds = 1,
     w_log = [(req, 20, demo_reply UNAVAILABLE [] []), (req, 20, demo_reply UNAVAILABLE [] [])]\<rparr>"

lemma demo_down:
  "make_call (demo_env down_server) \<lparr>policy_count = 1\<rparr> default_MaxRetryTimePolicy (demo_policy 1 1) 20 req demo_world =
    Some (Inl (Exception_code (exhausted_text (demo_env down_server) req \<lparr>policy_count = 1\<rparr> default_MaxRetryTimePolicy) 14),
      down_world req)"
proof -
  have att: "attempt (demo_backoff p n) = of_nat n" for p n by (simp add: demo_backoff_def)
  show ?thesis
    unfolding make_call_def demo_new prod.case
    by (simp add: demo_world_def steady_now_def Let_def retryable_def
        make_call_loop.simps make_call_body_def retries_exahusted_def RetryCount_def att demo_Delay
        default_MaxRetryTimePolicy_def ns_of_s_def ns_of_ms_def set_deadline_def rpc_call_def down_server_def sleep_for_def
        down_world_def)
qed

text \<open>The timeouts of the calls in closed form.\<close>

definition deadlines_passed :: "rpc_event list \<Rightarrow> nat" where
  "deadlines_passed evs = length (filter (\<lambda>ev. rep_code (ev_reply ev) = DEADLINE_EXCEEDED) evs)"

lemma timeouts_ok_nth:
  "timeouts_ok t evs \<Longrightarrow> i < length evs \<Longrightarrow> ev_timeout (evs ! i) = t * 2 ^ deadlines_passed (take i evs)"
proof (induction evs arbitrary: t i)
  case Nil
  then show ?case by simp
next
  case (Cons ev evs)
  then show ?case by (cases i) (auto simp: deadlines_passed_def)
qed

section \<open>Properties\<close>



text \<open>
  C22. What \<open>make_call\<close> hands back is the reply to its last call. All calls are of the request, every
  earlier reply was retryable and this one is not, the time handed back is one between the start and the
  end, and each deadline that passed doubles the timeout of the calls after it.
\<close>

theorem make_call_reply:
  assumes "make_call E cp tp bp t req w = Some (Inr (reply, now), w')"
  shows "\<exists>evs. w_log w' = evs @ w_log w \<and> evs \<noteq> [] \<and> ev_reply (hd evs) = reply \<and> \<not> retryable reply \<and>
    list_all (\<lambda>ev. retryable (ev_reply ev)) (tl evs) \<and> list_all (\<lambda>ev. ev_request ev = req) evs \<and>
    w_time w \<le> now \<and> now \<le> w_time w' \<and>
    (\<forall>i<length evs. ev_timeout (rev evs ! i) = t * 2 ^ deadlines_passed (take i (rev evs)))"
proof -
  obtain evs where d: "call_done req t w evs (Inr (reply, now)) w'" using stub.call_made [OF assms] by blast
  then have "\<forall>i<length evs. ev_timeout (rev evs ! i) = t * 2 ^ deadlines_passed (take i (rev evs))"
    using timeouts_ok_nth [of t "rev evs"] by (simp add: call_done_simps)
  with d show ?thesis unfolding call_done_simps by blast
qed

theorem make_call_reply_witness:
  "\<exists>evs. w_log (answered_world (GetTopicRequest ''t'') 20 (demo_reply OK [''id''] []) demo_world) = evs @ w_log demo_world \<and> evs \<noteq> [] \<and>
    ev_reply (hd evs) = demo_reply OK [''id''] [] \<and> \<not> retryable (demo_reply OK [''id''] []) \<and>
    list_all (\<lambda>ev. retryable (ev_reply ev)) (tl evs) \<and> list_all (\<lambda>ev. ev_request ev = GetTopicRequest ''t'') evs \<and>
    w_time demo_world \<le> 3000 \<and> 3000 \<le> w_time (answered_world (GetTopicRequest ''t'') 20 (demo_reply OK [''id''] []) demo_world) \<and>
    (\<forall>i<length evs. ev_timeout (rev evs ! i) = 20 * 2 ^ deadlines_passed (take i (rev evs)))"
  by (rule make_call_reply [OF demo_ok [of demo_world, simplified]])

text \<open>
  C23. When the retry loop gives up, every call it made was answered with a retryable status, the exception
  carries the number of the last one, and the reason is one of two: exactly one call more than the retry
  count was made (the count limits the repetitions, not the tries), or the time of the policy is over.
\<close>

theorem make_call_gives_up:
  assumes run: "make_call E cp tp bp t req w = Some (Inl e, w')" and "caught e"
    and small: "unat (policy_count cp) + 1 < 2 ^ 32"
  shows "\<exists>evs. w_log w' = evs @ w_log w \<and> list_all (\<lambda>ev. ev_request ev = req \<and> retryable (ev_reply ev)) evs \<and>
    e = Exception_code (exhausted_text E req cp tp) (e_code_num E (last_status OK evs)) \<and>
    (0 < policy_count cp \<and> length evs = unat (policy_count cp) + 1 \<or>
     ns_of_s (policy_interval tp) < w_time w' - w_time w)"
proof -
  obtain evs start where d: "call_done req t w evs (Inl e) w'" and start: "w_time w \<le> start"
    and e: "e = Exception_code (exhausted_text E req cp tp) (e_code_num E (last_status OK evs))"
    and why: "exhausted cp tp start (of_nat (length evs)) (w_time w')"
    and le: "0 < policy_count cp \<Longrightarrow> length evs \<le> unat (policy_count cp) + 1"
    using run by (rule make_call_done) (use assms in blast)
  have "length evs = unat (policy_count cp) + 1"
    if "0 < policy_count cp" "policy_count cp < of_nat (length evs)"
  proof -
    have "length evs < 2 ^ LENGTH(32)" using le that(1) small by simp
    then have "unat (of_nat (length evs) :: u32) = length evs" by (simp add: unat_of_nat)
    with that le show ?thesis by (simp add: word_less_unat)
  qed
  with why start have "0 < policy_count cp \<and> length evs = unat (policy_count cp) + 1 \<or>
      ns_of_s (policy_interval tp) < w_time w' - w_time w"
    unfolding exhausted_def by linarith
  moreover have "w_log w' = evs @ w_log w" "list_all (\<lambda>ev. ev_request ev = req \<and> retryable (ev_reply ev)) evs"
    using d by (auto simp: call_done_simps list_all_iff)
  ultimately show ?thesis using e by blast
qed

theorem make_call_gives_up_witness:
  "\<exists>evs. w_log (down_world (GetTopicRequest ''t'')) = evs @ w_log demo_world \<and>
    list_all (\<lambda>ev. ev_request ev = GetTopicRequest ''t'' \<and> retryable (ev_reply ev)) evs \<and>
    Exception_code (exhausted_text (demo_env down_server) (GetTopicRequest ''t'') \<lparr>policy_count = 1\<rparr> default_MaxRetryTimePolicy) 14 =
      Exception_code (exhausted_text (demo_env down_server) (GetTopicRequest ''t'') \<lparr>policy_count = 1\<rparr> default_MaxRetryTimePolicy)
        (e_code_num (demo_env down_server) (last_status OK evs)) \<and>
    (0 < policy_count \<lparr>policy_count = 1\<rparr> \<and> length evs = unat (policy_count \<lparr>policy_count = 1\<rparr>) + 1 \<or>
     ns_of_s (policy_interval default_MaxRetryTimePolicy) < w_time (down_world (GetTopicRequest ''t'')) - w_time demo_world)"
  by (rule make_call_gives_up [OF demo_down]) simp_all

end
