(* ===== verification/Timeouts.thy ===== *)
theory Timeouts
  imports Retriable
begin

text \<open>
  How the two time limits of \<open>pubsuber/src/Retriable.h\<close> and the policies of \<open>Pubsuber.h\<close> work together: a call
  whose timeout is longer than the time policy is not repeated after its deadline passed, so the doubling of
  the timeout takes no effect. The defaults (20 and 15 seconds) are such a pair.
\<close>

text \<open>A reply says that the deadline passed only when it took as long as the timeout.\<close>

definition slow_timeouts :: "env \<Rightarrow> bool" where
  "slow_timeouts E \<longleftrightarrow> (\<forall>evs req t. rep_code (e_server E evs req t) = DEADLINE_EXCEEDED \<longrightarrow>
     ns_of_s t \<le> int (rep_took (e_server E evs req t)))"

text \<open>The calls \<open>evs\<close> (newest first) of a loop whose timeouts are all \<open>t\<close>: only the last can have run into it.\<close>

definition timed_out_last :: "secs \<Rightarrow> rpc_event list \<Rightarrow> (rpc_reply \<times> nsecs) outcome \<Rightarrow> bool" where
  "timed_out_last t evs res \<longleftrightarrow> (\<forall>ev\<in>set evs. ev_timeout ev = t) \<and>
     (\<forall>ev\<in>set (tl evs). rep_code (ev_reply ev) = UNAVAILABLE) \<and>
     (evs \<noteq> [] \<and> rep_code (ev_reply (hd evs)) = DEADLINE_EXCEEDED \<longrightarrow> isl res)"

lemma timed_out_last_Nil [simp]: "timed_out_last t [] res"
  by (simp add: timed_out_last_def)

lemma timed_out_last_one: "timed_out_last t [(req, t, reply)] res \<longleftrightarrow> (rep_code reply = DEADLINE_EXCEEDED \<longrightarrow> isl res)"
  by (simp add: timed_out_last_def)

lemma timed_out_last_retry:
  "timed_out_last t evs res \<Longrightarrow> rep_code reply = UNAVAILABLE \<Longrightarrow> timed_out_last t (evs @ [(req, t, reply)]) res"
  by (cases evs) (auto simp: timed_out_last_def)

text \<open>Once the time of the policy is over, the next round leaves the loop without a call.\<close>

lemma body_time_over:
  assumes "ns_of_s (policy_interval tp) < w_time w - start"
  obtains w' where "make_call_body E req cp tp start st w =
      Inl (Inl (Exception_code (exhausted_text E req cp tp) (e_code_num E (cs_status st))), w')"
    and "w_log w' = w_log w"
proof -
  obtain stop w' where exh: "retries_exahusted E start (RetryCount (cs_backoff st)) cp tp w = (stop, w')"
    by (cases "retries_exahusted E start (RetryCount (cs_backoff st)) cp tp w")
  then have stop using assms
    by (auto simp: retries_exahusted_def dest!: steady_now_frame(2,3) split: if_splits prod.splits)
  with exh retries_exahusted_frame(1) [OF exh] show thesis by (intro that [of w']) (simp_all add: make_call_body_def)
qed

text \<open>A round that goes on after the deadline passed ends later than the policy allows.\<close>

lemma body_timed_out:
  assumes "make_call_body E req cp tp start st w = Inr (st', w')" and "slow_timeouts E" and "start \<le> w_time w"
    and "policy_interval tp < cs_timeout st" and "cs_status st' = DEADLINE_EXCEEDED"
  shows "ns_of_s (policy_interval tp) < w_time w' - start"
proof -
  obtain stop w1 where exh: "retries_exahusted E start (RetryCount (cs_backoff st)) cp tp w = (stop, w1)"
    by (cases "retries_exahusted E start (RetryCount (cs_backoff st)) cp tp w")
  obtain nx w2 where now: "steady_now E w1 = (nx, w2)" by (cases "steady_now E w1")
  let ?r = "e_server E (w_log w2) req (cs_timeout st)"
  have late: "w_time w2 + int (rep_took ?r) \<le> w_time w'" and code: "rep_code ?r = DEADLINE_EXCEEDED"
    using assms(1,5) exh now sleep_for_frame(2) [of "snd (rpc_call E req (cs_timeout st) w2)" E]
    by (auto simp: make_call_body_def rpc_call_def Let_def split: if_splits option.splits sum.splits)
  have "ns_of_s (cs_timeout st) \<le> int (rep_took ?r)" using assms(2) code by (simp add: slow_timeouts_def)
  moreover have "start \<le> w_time w2"
    using assms(3) retries_exahusted_frame(2) [OF exh] steady_now_frame(2,3) [OF now] by simp
  ultimately show ?thesis using late assms(4) by (simp add: ns_of_s_def)
qed

text \<open>What a run of the loop does, started in time or too late.\<close>

definition timely :: "env \<Rightarrow> MaxRetryTimePolicy \<Rightarrow> nsecs \<Rightarrow> call_state \<Rightarrow> world \<Rightarrow> call_result \<Rightarrow> bool" where
  "timely E tp start st w r \<longleftrightarrow>
     (slow_timeouts E \<and> start \<le> w_time w \<and> policy_interval tp < cs_timeout st \<longrightarrow>
        (\<exists>evs. w_log (snd r) = evs @ w_log w \<and> timed_out_last (cs_timeout st) evs (fst r))) \<and>
     (ns_of_s (policy_interval tp) < w_time w - start \<longrightarrow> w_log (snd r) = w_log w \<and> isl (fst r))"

lemma timely_leave:
  assumes "make_call_body E req cp tp start st w = Inl r"
  shows "timely E tp start st w r"
proof -
  obtain res w' where r: "r = (res, w')" by (cases r)
  with assms have leave: "make_call_body E req cp tp start st w = Inl (res, w')" by simp
  then obtain evs where d: "call_done req (cs_timeout st) w evs res w'" "length evs \<le> 1"
    by (rule body_leaves) (rule that)
  have "timed_out_last (cs_timeout st) evs res"
  proof (cases evs)
    case (Cons ev rest)
    with d(2) have "evs = [ev]" by simp
    with d(1) show ?thesis
      by (cases res; cases ev) (auto simp: call_done_def timed_out_last_one retryable_def)
  qed simp
  moreover have "w_log w' = w_log w \<and> isl res" if late: "ns_of_s (policy_interval tp) < w_time w - start"
    using late by (rule body_time_over [where E = E and req = req and cp = cp and st = st]) (use leave in simp)
  ultimately show ?thesis using d(1) by (auto simp: timely_def r call_done_def)
qed

lemma timely_continue:
  assumes body: "make_call_body E req cp tp start st w = Inr (st', w1)" and rest: "timely E tp start st' w1 r"
  shows "timely E tp start st w r"
proof -
  obtain reply where f: "w_log w1 = (req, cs_timeout st, reply) # w_log w" "w_time w \<le> w_time w1"
    "retryable reply" "cs_timeout st' = (if rep_code reply = DEADLINE_EXCEEDED then 2 * cs_timeout st else cs_timeout st)"
    "cs_status st' = rep_code reply"
    using body by (rule body_continues)
  let ?ev = "(req, cs_timeout st, reply)"
  have "\<not> ns_of_s (policy_interval tp) < w_time w - start"
    using body by (metis body_time_over sum.distinct(1))
  moreover have "\<exists>evs. w_log (snd r) = evs @ w_log w \<and> timed_out_last (cs_timeout st) evs (fst r)"
    if slow: "slow_timeouts E" and begun: "start \<le> w_time w" and long: "policy_interval tp < cs_timeout st"
  proof (cases "rep_code reply = DEADLINE_EXCEEDED")
    case True
    have "ns_of_s (policy_interval tp) < w_time w1 - start"
      using body slow begun long by (rule body_timed_out) (simp add: f(5) True)
    with rest have "w_log (snd r) = w_log w1" "isl (fst r)" by (simp_all add: timely_def)
    with f(1) show ?thesis by (intro exI [of _ "[?ev]"]) (simp add: timed_out_last_one)
  next
    case False
    with f(3) have un: "rep_code reply = UNAVAILABLE" by (simp add: retryable_def)
    from rest slow begun long f(2,4) False
    obtain evs where "w_log (snd r) = evs @ w_log w1" "timed_out_last (cs_timeout st) evs (fst r)"
      by (auto simp: timely_def)
    with f(1) un show ?thesis by (intro exI [of _ "evs @ [?ev]"]) (simp add: timed_out_last_retry)
  qed
  ultimately show ?thesis by (simp add: timely_def)
qed

lemma make_call_loop_timely:
  assumes "make_call_loop E req cp tp start st w = Some r"
  shows "timely E tp start st w r"
proof (rule make_call_loop.raw_induct
    [where P = "\<lambda>E req cp tp start st w r. timely E tp start st w r", OF _ assms])
  fix f E req cp tp start st w r
  assume IH: "\<And>E req cp tp start st w r. f E req cp tp start st w = Some r \<Longrightarrow> timely E tp start st w r"
    and eq: "(case make_call_body E req cp tp start st w of Inl r \<Rightarrow> Some r
        | Inr p \<Rightarrow> f E req cp tp start (fst p) (snd p)) = Some r"
  show "timely E tp start st w r"
  proof (cases "make_call_body E req cp tp start st w")
    case (Inl r')
    with eq timely_leave [OF Inl] show ?thesis by simp
  next
    case (Inr p)
    obtain st' w1 where p: "p = (st', w1)" by (cases p)
    with Inr have body: "make_call_body E req cp tp start st w = Inr (st', w1)" by simp
    from eq Inr p have "f E req cp tp start st' w1 = Some r" by simp
    then have "timely E tp start st' w1 r" by (rule IH)
    with body show ?thesis by (rule timely_continue)
  qed
qed

section \<open>Properties\<close>

text \<open>
  C25. A timeout that is longer than the time of the policy is never waited for twice: when a deadline passes no
  earlier than its timeout says, every call before the last was answered with UNAVAILABLE, every call has the
  first timeout, and if the last ran into it there is no reply but an exception. The doubling of
  the timeout has no effect then, as with the defaults of 20 and 15 seconds.
\<close>

theorem timeouts_are_not_retried:
  assumes "make_call E cp tp bp t req w = Some (res, w')" and "policy_interval tp < t" and "slow_timeouts E"
  shows "\<exists>evs. w_log w' = evs @ w_log w \<and> (\<forall>i<length evs. ev_timeout (evs ! i) = t) \<and>
    (\<forall>i. 0 < i \<and> i < length evs \<longrightarrow> rep_code (ev_reply (evs ! i)) = UNAVAILABLE) \<and>
    (evs \<noteq> [] \<and> rep_code (ev_reply (evs ! 0)) = DEADLINE_EXCEEDED \<longrightarrow> (\<exists>e. res = Inl e))"
proof -
  obtain backoff start w2 where
    loop: "make_call_loop E req cp tp start \<lparr>cs_backoff = backoff, cs_timeout = t, cs_status = OK\<rparr> w2 = Some (res, w')"
    and f: "w_log w2 = w_log w" "w_time w2 = start"
    using assms(1) by (rule make_call_loop_of) (rule that)
  from make_call_loop_timely [OF loop] assms(2,3) f
  obtain evs where "w_log w' = evs @ w_log w" and late: "timed_out_last t evs res" by (auto simp: timely_def)
  moreover have "rep_code (ev_reply (evs ! i)) = UNAVAILABLE" if "0 < i" "i < length evs" for i
    using late that by (cases evs; cases i) (auto simp: timed_out_last_def)
  moreover have "(\<exists>e. res = Inl e) \<longleftrightarrow> isl res" by (simp add: isl_def)
  ultimately show ?thesis by (intro exI [of _ evs]) (auto simp: timed_out_last_def hd_conv_nth)
qed

text \<open>A service that never answers in time.\<close>

definition slow_server :: "rpc_event list \<Rightarrow> rpc_request \<Rightarrow> secs \<Rightarrow> rpc_reply" where
  "slow_server evs req t = (demo_reply DEADLINE_EXCEEDED [] [])\<lparr>rep_took := nat (ns_of_s t)\<rparr>"

definition slow_world :: "rpc_request \<Rightarrow> world" where
  "slow_world req = \<lparr>w_time = 20001004000, w_reads = 5, w_seeds = 1, w_log = [(req, 20, slow_server [] req 20)]\<rparr>"

lemma demo_slow:
  "make_call (demo_env slow_server) default_RetryCountPolicy default_MaxRetryTimePolicy (demo_policy 1 1) kDefaultRPCTimeout req demo_world =
    Some (Inl (Exception_code (exhausted_text (demo_env slow_server) req default_RetryCountPolicy default_MaxRetryTimePolicy) 4),
      slow_world req)"
proof -
  have att: "attempt (demo_backoff p n) = of_nat n" for p n by (simp add: demo_backoff_def)
  have num: "e_code_num (demo_env srv) DEADLINE_EXCEEDED = 4" for srv by (simp add: demo_env_def)
  show ?thesis
    unfolding make_call_def demo_new prod.case
    by (simp add: num demo_world_def steady_now_def Let_def retryable_def kDefaultRPCTimeout_def demo_reply_def
        make_call_loop.simps make_call_body_def retries_exahusted_def RetryCount_def att demo_Delay
        default_MaxRetryTimePolicy_def default_RetryCountPolicy_def ns_of_s_def ns_of_ms_def set_deadline_def rpc_call_def
        slow_server_def sleep_for_def slow_world_def)
qed

theorem timeouts_are_not_retried_witness:
  "\<exists>evs. w_log (slow_world (GetTopicRequest ''t'')) = evs @ w_log demo_world \<and>
    (\<forall>i<length evs. ev_timeout (evs ! i) = kDefaultRPCTimeout) \<and>
    (\<forall>i. 0 < i \<and> i < length evs \<longrightarrow> rep_code (ev_reply (evs ! i)) = UNAVAILABLE) \<and>
    (evs \<noteq> [] \<and> rep_code (ev_reply (evs ! 0)) = DEADLINE_EXCEEDED \<longrightarrow>
      (\<exists>e. (Inl (Exception_code (exhausted_text (demo_env slow_server) (GetTopicRequest ''t'') default_RetryCountPolicy
         default_MaxRetryTimePolicy) 4) :: (rpc_reply \<times> nsecs) outcome) = Inl e))"
  by (rule timeouts_are_not_retried [OF demo_slow])
    (simp_all add: default_MaxRetryTimePolicy_def kDefaultRPCTimeout_def slow_timeouts_def slow_server_def ns_of_s_def)

end
