(* ===== verification/Containers.thy ===== *)
theory Containers
  imports Prelude
begin

text \<open>
  The standard containers the library stores its state in (\<open>pubsuber/src/ContainerTypes.h\<close> and the
  maps of \<open>pubsuber/src/Executor.h\<close>).

  An \<open>unordered_set\<close> or \<open>unordered_map\<close> is the list of its elements in iteration order, with
  distinct keys. C++ leaves the position of a new element open and promises that the elements that
  stay keep their relative order; the model puts a new element at the front, which is where
  libstdc++ puts the first element of an empty bucket. Every statement of the library about
  contents is one about the set of keys or about lookups and holds for each iteration order.

  The contract of the maps is the locale \<open>unordered_assoc\<close>; the clients (\<open>ModAck\<close>, \<open>Threads\<close>)
  reason with it and never with the list.
\<close>

section \<open>Elements with a key\<close>

text \<open>
  \<open>key\<close> is what hashing and equality look at: the string itself for \<open>AckIDSet\<close>, the first component
  for \<open>AckIDPackSet\<close> (\<open>PackSetHelper\<close>).
\<close>

definition us_member :: "('a \<Rightarrow> 'k) \<Rightarrow> 'k \<Rightarrow> 'a list \<Rightarrow> bool" where
  "us_member key k s = list_ex (\<lambda>x. key x = k) s"

definition us_emplace :: "('a \<Rightarrow> 'k) \<Rightarrow> 'a \<Rightarrow> 'a list \<Rightarrow> 'a list" where
  "us_emplace key x s = (if us_member key (key x) s then s else x # s)"

definition us_erase :: "('a \<Rightarrow> 'k) \<Rightarrow> 'k \<Rightarrow> 'a list \<Rightarrow> 'a list" where
  "us_erase key k s = filter (\<lambda>x. key x \<noteq> k) s"

definition us_ok :: "('a \<Rightarrow> 'k) \<Rightarrow> 'a list \<Rightarrow> bool" where
  "us_ok key s = distinct (map key s)"

lemma us_member_iff [container_simps]: "us_member key k s \<longleftrightarrow> k \<in> key ` set s"
  by (auto simp: us_member_def list_ex_iff)

lemma keys_us_emplace [container_simps]: "key ` set (us_emplace key x s) = insert (key x) (key ` set s)"
  by (auto simp: us_emplace_def us_member_iff)

lemma set_us_emplace_fresh: "key x \<notin> key ` set s \<Longrightarrow> us_emplace key x s = x # s"
  by (simp add: us_emplace_def us_member_iff)

lemma keys_us_erase [container_simps]: "key ` set (us_erase key k s) = key ` set s - {k}"
  by (auto simp: us_erase_def)

lemma set_us_erase_subset: "set (us_erase key k s) \<subseteq> set s"
  by (auto simp: us_erase_def)

lemma us_ok_Nil [simp]: "us_ok key []"
  by (simp add: us_ok_def)

lemma us_ok_Cons [simp]: "us_ok key (x # s) \<longleftrightarrow> key x \<notin> key ` set s \<and> us_ok key s"
  by (simp add: us_ok_def)

lemma us_ok_emplace [intro, simp]: "us_ok key s \<Longrightarrow> us_ok key (us_emplace key x s)"
  by (simp add: us_emplace_def us_member_iff)

lemma us_ok_erase [intro, simp]: "us_ok key s \<Longrightarrow> us_ok key (us_erase key k s)"
  by (simp add: us_erase_def us_ok_def distinct_map_filter)

lemma set_us_emplace_id [container_simps]: "set (us_emplace id x s) = insert x (set s)"
  using keys_us_emplace [of id x s] by simp

lemma set_us_erase_id [container_simps]: "set (us_erase id x s) = set s - {x}"
  using keys_us_erase [of id x s] by simp

section \<open>Maps\<close>

type_synonym ('k, 'v) umap = "('k \<times> 'v) list"

definition um_erase :: "'k \<Rightarrow> ('k, 'v) umap \<Rightarrow> ('k, 'v) umap" where
  "um_erase k m = us_erase fst k m"

definition um_insert_or_assign :: "'k \<Rightarrow> 'v \<Rightarrow> ('k, 'v) umap \<Rightarrow> ('k, 'v) umap" where
  "um_insert_or_assign k v m =
     (if us_member fst k m then map (\<lambda>p. if fst p = k then (k, v) else p) m else (k, v) # m)"

text \<open>\<open>target.merge(source)\<close> moves the elements whose key the target lacks; the others stay behind.\<close>

definition um_merge_target :: "('k, 'v) umap \<Rightarrow> ('k, 'v) umap \<Rightarrow> ('k, 'v) umap" where
  "um_merge_target t s = filter (\<lambda>p. \<not> us_member fst (fst p) t) s @ t"

definition um_merge_source :: "('k, 'v) umap \<Rightarrow> ('k, 'v) umap \<Rightarrow> ('k, 'v) umap" where
  "um_merge_source t s = filter (\<lambda>p. us_member fst (fst p) t) s"

text \<open>Writing the value of a node through an iterator to it.\<close>

definition um_update :: "'k \<Rightarrow> ('v \<Rightarrow> 'v) \<Rightarrow> ('k, 'v) umap \<Rightarrow> ('k, 'v) umap" where
  "um_update k f m = map (\<lambda>p. if fst p = k then (fst p, f (snd p)) else p) m"

definition um_ok :: "('k, 'v) umap \<Rightarrow> bool" where
  "um_ok m = us_ok fst m"

definition um_keys :: "('k, 'v) umap \<Rightarrow> 'k list" where
  "um_keys m = map fst m"

lemma um_ok_keys: "um_ok m \<longleftrightarrow> distinct (um_keys m)"
  by (simp add: um_ok_def us_ok_def um_keys_def)

lemma set_um_keys: "set (um_keys m) = dom (map_of m)"
  by (simp add: um_keys_def dom_map_of_conv_image_fst)

subsection \<open>The contract of a map\<close>

locale unordered_assoc =
  fixes lookup :: "'m \<Rightarrow> 'k \<Rightarrow> 'v option"
    and assign :: "'k \<Rightarrow> 'v \<Rightarrow> 'm \<Rightarrow> 'm"
    and erase :: "'k \<Rightarrow> 'm \<Rightarrow> 'm"
    and merge :: "'m \<Rightarrow> 'm \<Rightarrow> 'm"
    and ok :: "'m \<Rightarrow> bool"
  assumes lookup_assign: "lookup (assign k v m) = (lookup m)(k \<mapsto> v)"
    and lookup_erase: "lookup (erase k m) = (lookup m)(k := None)"
    and lookup_merge: "ok m \<Longrightarrow> ok m' \<Longrightarrow> lookup (merge m m') = lookup m' ++ lookup m"
    and ok_assign: "ok m \<Longrightarrow> ok (assign k v m)"
    and ok_erase: "ok m \<Longrightarrow> ok (erase k m)"
    and ok_merge: "ok m \<Longrightarrow> ok m' \<Longrightarrow> ok (merge m m')"
begin

lemma lookup_fold_erase: "lookup (fold erase ks m) k = (if k \<in> set ks then None else lookup m k)"
  by (induction ks arbitrary: m) (auto simp: lookup_erase)

lemma dom_fold_erase: "dom (lookup (fold erase ks m)) = dom (lookup m) - set ks"
  by (auto simp: dom_def lookup_fold_erase)

lemma ok_fold_erase: "ok m \<Longrightarrow> ok (fold erase ks m)"
  by (induction ks arbitrary: m) (auto simp: ok_erase)

lemma dom_merge: "ok m \<Longrightarrow> ok m' \<Longrightarrow> dom (lookup (merge m m')) = dom (lookup m) \<union> dom (lookup m')"
  by (simp add: lookup_merge)

lemma merge_keeps: "ok m \<Longrightarrow> ok m' \<Longrightarrow> lookup m k = Some v \<Longrightarrow> lookup (merge m m') k = Some v"
  by (simp add: lookup_merge)

lemma merge_adds: "ok m \<Longrightarrow> ok m' \<Longrightarrow> lookup m k = None \<Longrightarrow> lookup (merge m m') k = lookup m' k"
  by (simp add: lookup_merge map_add_def)

lemma lookup_fold_assign_other: "k \<notin> set ks \<Longrightarrow> lookup (fold (\<lambda>x. assign x v) ks m) k = lookup m k"
  by (induction ks arbitrary: m) (auto simp: lookup_assign)

lemma lookup_fold_assign: "k \<in> set ks \<Longrightarrow> lookup (fold (\<lambda>x. assign x v) ks m) k = Some v"
proof (induction ks arbitrary: m)
  case Nil
  then show ?case by simp
next
  case (Cons x ks)
  then show ?case
    by (cases "k \<in> set ks") (auto simp: lookup_fold_assign_other lookup_assign)
qed

end

lemma fst_image_I: "(a, b) \<in> S \<Longrightarrow> a \<in> fst ` S"
  by force

lemma map_of_filter_fst: "map_of (filter (\<lambda>p. P (fst p)) m) k = (if P k then map_of m k else None)"
  by (induction m) auto

lemma map_of_map_assign:
  "map_of (map (\<lambda>p. if fst p = k then (k, v) else p) m) x =
     (if x = k then (if k \<in> fst ` set m then Some v else None) else map_of m x)"
proof (induction m)
  case Nil
  then show ?case by simp
next
  case (Cons p m)
  then show ?case by (cases p) (auto intro: fst_image_I)
qed

lemma map_of_um_assign: "map_of (um_insert_or_assign k v m) = (map_of m)(k \<mapsto> v)"
  by (rule ext) (auto simp: um_insert_or_assign_def us_member_iff map_of_map_assign)

lemma map_of_um_erase: "map_of (um_erase k m) = (map_of m)(k := None)"
  by (rule ext) (simp add: um_erase_def us_erase_def map_of_filter_fst [of "\<lambda>x. x \<noteq> k"])

lemma map_of_um_merge: "map_of (um_merge_target t s) = map_of s ++ map_of t"
proof
  fix k
  have "map_of (filter (\<lambda>p. \<not> us_member fst (fst p) t) s) k =
      (if k \<notin> fst ` set t then map_of s k else None)"
    by (simp add: us_member_iff map_of_filter_fst [of "\<lambda>x. x \<notin> fst ` set t"])
  moreover have "k \<notin> fst ` set t \<longleftrightarrow> map_of t k = None"
    by (simp add: map_of_eq_None_iff)
  ultimately show "map_of (um_merge_target t s) k = (map_of s ++ map_of t) k"
    by (auto simp: um_merge_target_def map_add_def split: option.splits)
qed

lemma um_ok_assign: "um_ok m \<Longrightarrow> um_ok (um_insert_or_assign k v m)"
proof -
  assume ok: "um_ok m"
  have "map fst (map (\<lambda>p. if fst p = k then (k, v) else p) m) = map fst m"
    by simp
  with ok show ?thesis
    by (simp add: um_insert_or_assign_def um_ok_def us_ok_def us_member_iff del: map_map)
qed

lemma um_ok_erase: "um_ok m \<Longrightarrow> um_ok (um_erase k m)"
  by (simp add: um_erase_def um_ok_def)

lemma um_ok_merge: "um_ok t \<Longrightarrow> um_ok s \<Longrightarrow> um_ok (um_merge_target t s)"
  by (auto simp: um_ok_def us_ok_def um_merge_target_def us_member_iff distinct_map_filter)

interpretation um: unordered_assoc map_of um_insert_or_assign um_erase um_merge_target um_ok
  by unfold_locales
    (simp_all add: map_of_um_assign map_of_um_erase map_of_um_merge um_ok_assign um_ok_erase um_ok_merge)

lemma um_ok_Nil [simp]: "um_ok []"
  by (simp add: um_ok_def)

lemma um_ok_map_of_set: "um_ok m \<Longrightarrow> map_of m k = Some v \<longleftrightarrow> (k, v) \<in> set m"
  by (simp add: um_ok_def us_ok_def)

lemma um_keys_merge: "set (um_keys (um_merge_target t s)) = set (um_keys t) \<union> set (um_keys s)"
  by (auto simp: set_um_keys map_of_um_merge)

lemma um_keys_erase: "set (um_keys (um_erase k m)) = set (um_keys m) - {k}"
  by (auto simp: set_um_keys map_of_um_erase)

lemma um_keys_assign: "set (um_keys (um_insert_or_assign k v m)) = insert k (set (um_keys m))"
  by (auto simp: set_um_keys map_of_um_assign)

lemma um_keys_fold_erase: "set (um_keys (fold um_erase ks m)) = set (um_keys m) - set ks"
  using um.dom_fold_erase [of ks m] by (simp add: set_um_keys)

lemmas um_keys_simps [container_simps] =
  um_keys_merge um_keys_erase um_keys_assign um_keys_fold_erase

lemma map_of_um_update: "map_of (um_update k f m) = (map_of m)(k := map_option f (map_of m k))"
proof
  fix x
  show "map_of (um_update k f m) x = ((map_of m)(k := map_option f (map_of m k))) x"
    by (induction m) (auto simp: um_update_def)
qed

lemma map_fst_um_update [simp]: "map fst (um_update k f m) = map fst m"
  by (simp add: um_update_def)

lemma um_ok_update [simp]: "um_ok (um_update k f m) \<longleftrightarrow> um_ok m"
  by (simp add: um_ok_def us_ok_def)

lemma um_keys_update [simp]: "um_keys (um_update k f m) = um_keys m"
  by (simp add: um_keys_def)

end
