(* ===== verification/Threads.thy ===== *)
theory Threads
  imports Containers
begin

text \<open>
  \<open>Executor::ThreadDataBlock\<close> of \<open>pubsuber/src/Executor.h\<close> and \<open>Executor.cpp\<close>: the iterators one
  background thread works on. Any thread adds to \<open>_inputIterators\<close> and \<open>_removedIterators\<close> under the
  mutex; the thread itself moves the changes into \<open>_activeIterators\<close>, which only it touches.

  One definition is one critical section. Notifications have no state: a \<open>wait_for\<close> may end at any
  time, so what a notification does is only to end it early.

  The contract between the clients of a block and its thread is the locale \<open>iterator_registry\<close>.
\<close>

section \<open>The block\<close>

record 'it ThreadDataBlock =
  needStop :: bool
  inputIterators :: "(string, 'it) umap"
  removedIterators :: "string list"
  activeIterators :: "(string, 'it) umap"

definition new_ThreadDataBlock :: "'it ThreadDataBlock" where
  "new_ThreadDataBlock = \<lparr>needStop = False, inputIterators = [], removedIterators = [], activeIterators = []\<rparr>"

text \<open>The block \<open>b\<close> of code runs with the mutex held; the notification after it changes nothing.\<close>

definition ExecuteUnderMutex :: "('s \<Rightarrow> 's) \<Rightarrow> bool \<Rightarrow> 's \<Rightarrow> 's" where
  "ExecuteUnderMutex b notify s = b s"

definition block_AddIterator :: "string \<Rightarrow> 'it \<Rightarrow> 'it ThreadDataBlock \<Rightarrow> 'it ThreadDataBlock" where
  "block_AddIterator subscription it b =
     b\<lparr>inputIterators := um_insert_or_assign subscription it (inputIterators b)\<rparr>"

definition block_RemoveIterator :: "string \<Rightarrow> 'it ThreadDataBlock \<Rightarrow> 'it ThreadDataBlock" where
  "block_RemoveIterator subscription b = b\<lparr>removedIterators := removedIterators b @ [subscription]\<rparr>"

definition MergeInputToActive :: "'it ThreadDataBlock \<Rightarrow> 'it ThreadDataBlock" where
  "MergeInputToActive b =
     b\<lparr>activeIterators := um_merge_target (activeIterators b) (inputIterators b), inputIterators := []\<rparr>"

definition ClearInput :: "'it ThreadDataBlock \<Rightarrow> 'it ThreadDataBlock" where
  "ClearInput = ExecuteUnderMutex (\<lambda>b. b\<lparr>inputIterators := []\<rparr>) False"

definition ClearRemoved :: "'it ThreadDataBlock \<Rightarrow> 'it ThreadDataBlock" where
  "ClearRemoved = ExecuteUnderMutex (\<lambda>b. b\<lparr>removedIterators := []\<rparr>) False"

definition RemoveFromActive :: "'it ThreadDataBlock \<Rightarrow> 'it ThreadDataBlock" where
  "RemoveFromActive = ExecuteUnderMutex
     (\<lambda>b. b\<lparr>activeIterators := fold um_erase (removedIterators b) (activeIterators b), removedIterators := []\<rparr>) False"

text \<open>
  The loop over the active iterators: \<open>f\<close> is its body, which may throw (and so end the loop) or block
  for ever (\<open>None\<close>).
\<close>

fun for_each :: "('a \<Rightarrow> 's \<Rightarrow> (unit outcome \<times> 's) option) \<Rightarrow> 'a list \<Rightarrow> 's \<Rightarrow> (unit outcome \<times> 's) option" where
  "for_each f [] s = Some (Inr (), s)"
| "for_each f (x # xs) s =
     (case f x s of
        None \<Rightarrow> None
      | Some (Inl e, s') \<Rightarrow> Some (Inl e, s')
      | Some (Inr u, s') \<Rightarrow> for_each f xs s')"

definition ForEachActive ::
  "(string \<times> 'it \<Rightarrow> 's \<Rightarrow> (unit outcome \<times> 's) option) \<Rightarrow> 'it ThreadDataBlock \<Rightarrow> 's \<Rightarrow> (unit outcome \<times> 's) option" where
  "ForEachActive f b s = for_each f (activeIterators b) s"

lemma for_each_total: "for_each (\<lambda>x s. Some (Inr (), f x s)) xs s = Some (Inr (), fold f xs s)"
  by (induction xs arbitrary: s) simp_all

definition set_needStop :: "'it ThreadDataBlock \<Rightarrow> 'it ThreadDataBlock" where
  "set_needStop b = b\<lparr>needStop := True\<rparr>"

text \<open>\<open>rest\<close> is what the thread does until it has seen the flag and ends.\<close>

definition Stop :: "('s \<Rightarrow> 's) \<Rightarrow> (('it ThreadDataBlock \<Rightarrow> 'it ThreadDataBlock) \<Rightarrow> 's \<Rightarrow> 's) \<Rightarrow> 's \<Rightarrow> 's" where
  "Stop rest upd s = rest (upd set_needStop s)"

definition block_ok :: "'it ThreadDataBlock \<Rightarrow> bool" where
  "block_ok b \<longleftrightarrow> um_ok (inputIterators b) \<and> um_ok (activeIterators b)"

lemma block_ok_new [simp]: "block_ok new_ThreadDataBlock"
  by (simp add: block_ok_def new_ThreadDataBlock_def)

lemma block_ok_ops [simp, intro]:
  assumes "block_ok b"
  shows "block_ok (block_AddIterator n it b)" "block_ok (block_RemoveIterator n b)"
    "block_ok (MergeInputToActive b)" "block_ok (RemoveFromActive b)" "block_ok (ClearInput b)"
    "block_ok (ClearRemoved b)"
  using assms
  by (simp_all add: block_ok_def block_AddIterator_def block_RemoveIterator_def MergeInputToActive_def
      RemoveFromActive_def ClearInput_def ClearRemoved_def ExecuteUnderMutex_def um.ok_assign um.ok_merge
      um.ok_fold_erase)

text \<open>A property of all iterators of a block, with the name they are filed under.\<close>

definition all_entries :: "(string \<Rightarrow> 'it \<Rightarrow> bool) \<Rightarrow> 'it ThreadDataBlock \<Rightarrow> bool" where
  "all_entries P b \<longleftrightarrow> (\<forall>(n, it)\<in>set (inputIterators b) \<union> set (activeIterators b). P n it)"

lemma set_fold_um_erase_subset: "set (fold um_erase ks m) \<subseteq> set m"
proof (induction ks arbitrary: m)
  case Nil
  then show ?case by simp
next
  case (Cons k ks)
  from Cons.IH [of "um_erase k m"] show ?case by (auto simp: um_erase_def us_erase_def)
qed

lemma all_entries_ops:
  assumes "all_entries P b"
  shows "P n it \<Longrightarrow> all_entries P (block_AddIterator n it b)" "all_entries P (block_RemoveIterator n b)"
    "all_entries P (MergeInputToActive b)" "all_entries P (RemoveFromActive b)"
    "all_entries P (ClearInput b)" "all_entries P (ClearRemoved b)"
  using assms set_fold_um_erase_subset [of "removedIterators b" "activeIterators b"]
  by (auto simp: all_entries_def block_AddIterator_def block_RemoveIterator_def MergeInputToActive_def
      RemoveFromActive_def ClearInput_def ClearRemoved_def ExecuteUnderMutex_def um_insert_or_assign_def
      um_merge_target_def split: if_splits)

lemma all_entries_mono: "all_entries P b \<Longrightarrow> (\<And>n it. P n it \<Longrightarrow> Q n it) \<Longrightarrow> all_entries Q b"
  by (fastforce simp: all_entries_def)

lemma all_entries_active: "all_entries P b \<Longrightarrow> map_of (activeIterators b) n = Some it \<Longrightarrow> P n it"
  by (auto simp: all_entries_def dest: map_of_SomeD)

lemma all_entries_new [simp]: "all_entries P new_ThreadDataBlock"
  by (simp add: all_entries_def new_ThreadDataBlock_def)

section \<open>The contract\<close>

text \<open>
  \<open>thread_round\<close> is what the thread does at the start of a round: removals first, then the new iterators. A
  name that is active and was not removed keeps its iterator; a new iterator takes effect only if the
  name is not active at that moment.
\<close>

locale iterator_registry =
  fixes ok :: "'s \<Rightarrow> bool"
    and active :: "'s \<Rightarrow> 'n \<Rightarrow> 'it option"
    and input :: "'s \<Rightarrow> 'n \<Rightarrow> 'it option"
    and removed :: "'s \<Rightarrow> 'n set"
    and add :: "'n \<Rightarrow> 'it \<Rightarrow> 's \<Rightarrow> 's"
    and remove :: "'n \<Rightarrow> 's \<Rightarrow> 's"
    and drop_removed :: "'s \<Rightarrow> 's"
    and take_input :: "'s \<Rightarrow> 's"
  assumes ok_add: "ok s \<Longrightarrow> ok (add n it s)"
    and ok_remove: "ok s \<Longrightarrow> ok (remove n s)"
    and ok_drop: "ok s \<Longrightarrow> ok (drop_removed s)"
    and ok_take: "ok s \<Longrightarrow> ok (take_input s)"
    and active_add: "active (add n it s) = active s"
    and input_add: "input (add n it s) = (input s)(n \<mapsto> it)"
    and removed_add: "removed (add n it s) = removed s"
    and active_remove: "active (remove n s) = active s"
    and input_remove: "input (remove n s) = input s"
    and removed_remove: "removed (remove n s) = insert n (removed s)"
    and active_drop: "active (drop_removed s) = (\<lambda>n. if n \<in> removed s then None else active s n)"
    and input_drop: "input (drop_removed s) = input s"
    and removed_drop: "removed (drop_removed s) = {}"
    and active_take: "ok s \<Longrightarrow> active (take_input s) = input s ++ active s"
    and input_take: "input (take_input s) = Map.empty"
    and removed_take: "removed (take_input s) = removed s"
begin

definition thread_round :: "'s \<Rightarrow> 's" where
  "thread_round s = take_input (drop_removed s)"

lemma active_thread_round:
  "ok s \<Longrightarrow> active (thread_round s) n = (if n \<in> removed s \<or> active s n = None then input s n else active s n)"
  by (auto simp: thread_round_def active_take active_drop input_drop ok_drop map_add_def split: option.splits)

lemma input_thread_round: "input (thread_round s) = Map.empty"
  by (simp add: thread_round_def input_take)

lemma removed_thread_round: "removed (thread_round s) = {}"
  by (simp add: thread_round_def removed_take removed_drop)

text \<open>A fresh iterator is active after the next round.\<close>

lemma add_takes_effect:
  assumes "ok s" and "active s n = None"
  shows "active (thread_round (add n it s)) n = Some it"
  using assms by (simp add: active_thread_round ok_add active_add removed_add input_add)

text \<open>A removal takes effect with the next round, unless the name was added again.\<close>

lemma remove_takes_effect:
  assumes "ok s" and "input s n = None"
  shows "active (thread_round (remove n s)) n = None"
  using assms by (simp add: active_thread_round ok_remove removed_remove input_remove)

text \<open>Removing and adding again replaces the iterator.\<close>

lemma replace_takes_effect:
  assumes "ok s"
  shows "active (thread_round (add n it (remove n s))) n = Some it"
  using assms by (simp add: active_thread_round ok_add ok_remove removed_add removed_remove input_add)

text \<open>An iterator that was not merged yet survives its removal.\<close>

lemma remove_before_merge:
  assumes "ok s" and "input s n = Some it"
  shows "active (thread_round (remove n s)) n = Some it"
  using assms by (simp add: active_thread_round ok_remove removed_remove input_remove)

text \<open>
  An iterator that is added between the removals and the merge of one round, under a name whose old
  iterator was removed too late for that round, is dropped: the old iterator stays for the round, and
  the name has none afterwards.
\<close>

lemma late_replacement_lost:
  assumes ok: "ok s" and act: "active s n = Some old" and none: "removed s = {}"
  shows "active (take_input (add n it (remove n (drop_removed s)))) n = Some old" (is "active ?s1 n = _")
    and "active (thread_round (take_input (add n it (remove n (drop_removed s))))) n = None"
proof -
  note simps = active_take active_add active_remove active_drop input_add input_remove input_drop input_take
    removed_add removed_remove removed_drop removed_take ok_add ok_remove ok_drop ok_take ok none act
  show "active ?s1 n = Some old" by (simp add: simps)
  have "ok ?s1" by (simp add: simps)
  moreover have "n \<in> removed ?s1" "input ?s1 n = None" by (simp_all add: simps)
  ultimately show "active (thread_round ?s1) n = None" by (simp add: active_thread_round)
qed

end

interpretation block: iterator_registry block_ok "\<lambda>b. map_of (activeIterators b)" "\<lambda>b. map_of (inputIterators b)"
    "\<lambda>b. set (removedIterators b)" block_AddIterator block_RemoveIterator RemoveFromActive MergeInputToActive
proof unfold_locales
  fix b :: "'it ThreadDataBlock"
  show "map_of (activeIterators (RemoveFromActive b)) =
      (\<lambda>n. if n \<in> set (removedIterators b) then None else map_of (activeIterators b) n)"
    by (rule ext) (simp add: RemoveFromActive_def ExecuteUnderMutex_def um.lookup_fold_erase)
  show "block_ok b \<Longrightarrow> map_of (activeIterators (MergeInputToActive b)) =
      map_of (inputIterators b) ++ map_of (activeIterators b)"
    by (simp add: MergeInputToActive_def block_ok_def um.lookup_merge)
qed (simp_all add: block_AddIterator_def block_RemoveIterator_def RemoveFromActive_def MergeInputToActive_def
    ExecuteUnderMutex_def um.lookup_assign block_ok_def um.ok_assign um.ok_fold_erase um.ok_merge)

end
