(* ===== verification/Algorithms.thy ===== *)
theory Algorithms
  imports Containers
begin

text \<open>
  The free functions of \<open>pubsuber/src/Algorithms.h\<close> and the record they work on
  (\<open>AckWatchDescriptior\<close> of \<open>pubsuber/src/ContainerTypes.h\<close>): removing acknowledged ids, picking the
  ids whose deadline is due, cutting a set of ids into requests of a bounded size, and copying ids
  into a request.

  An iterator into a \<open>WatchDescrContainer\<close> is the key of the node it points to. A node keeps its key
  for its whole life and iterators stay valid until their node is erased.
\<close>

section \<open>Watch descriptors\<close>

record AckWatchDescriptior =
  nextAck :: nsecs

definition ExtendIn :: "AckWatchDescriptior \<Rightarrow> nsecs \<Rightarrow> msecs" where
  "ExtendIn d now = ms_of_ns (nextAck d - now)"

definition UpdateNextAck :: "nsecs \<Rightarrow> AckWatchDescriptior \<Rightarrow> AckWatchDescriptior" where
  "UpdateNextAck t d = d\<lparr>nextAck := t\<rparr>"

type_synonym AckID = string
type_synonym WatchDescrContainer = "(AckID, AckWatchDescriptior) umap"
type_synonym AckIDSet = "AckID list"
type_synonym AckIDPack = "AckID \<times> AckID"
type_synonym AckIDPackSet = "AckIDPack list"

section \<open>erase_keys and give_me_the_keys\<close>

definition erase_keys :: "WatchDescrContainer \<Rightarrow> AckIDSet \<Rightarrow> WatchDescrContainer" where
  "erase_keys frm what = fold um_erase what frm"

text \<open>
  The predicate is a lambda that may write variables it captures by reference, so it takes and
  returns their state.
\<close>

fun give_me_the_keys ::
  "(AckID \<times> 'd) list \<Rightarrow> AckIDPackSet \<Rightarrow> ('d \<Rightarrow> 's \<Rightarrow> bool \<times> 's) \<Rightarrow> 's \<Rightarrow> AckIDPackSet \<times> 's" where
  "give_me_the_keys [] toModify pred s = (toModify, s)"
| "give_me_the_keys ((key, descr) # ids) toModify pred s =
     (case pred descr s of (take_it, s') \<Rightarrow>
        give_me_the_keys ids (if take_it then us_emplace fst (key, key) toModify else toModify) pred s')"

section \<open>split_request_ids\<close>

definition kReqFixedOverhead :: u32 where
  "kReqFixedOverhead = 100"

definition kOverheadPerID :: u32 where
  "kOverheadPerID = 3"

text \<open>
  \<open>size\<close> (here \<open>sz\<close>) is an \<open>int\<close>: the sum with the \<open>size_t\<close> length is cut to 32 bits, and the comparison with the
  \<open>uint32_t\<close> limit is unsigned. Both are the arithmetic of a 32-bit word. Once the next id does not
  fit, \<open>size\<close> has reached the limit and the loop ends.
\<close>

fun split_loop :: "('a \<Rightarrow> string) \<Rightarrow> 'a list \<Rightarrow> 'a list \<Rightarrow> u32 \<Rightarrow> u32 \<Rightarrow> 'a list \<times> 'a list" where
  "split_loop key [] toSend sz maxSize = ([], toSend)"
| "split_loop key (x # rest) toSend sz maxSize =
     (if sz < maxSize then
        (let sz' = sz + (kOverheadPerID + of_nat (length (key x)))
         in if sz' < maxSize then split_loop key rest (us_emplace key x toSend) sz' maxSize
            else (x # rest, toSend))
      else (x # rest, toSend))"

definition split_request_ids :: "('a \<Rightarrow> string) \<Rightarrow> 'a list \<Rightarrow> u32 \<Rightarrow> 'a list \<times> 'a list" where
  "split_request_ids key remainder maxSize = split_loop key remainder [] kReqFixedOverhead maxSize"

section \<open>populate_ack_ids\<close>

text \<open>The set variant empties its container, the pack variant only reads it.\<close>

fun populate_ack_ids_set :: "string list \<Rightarrow> AckIDSet \<Rightarrow> string list \<times> AckIDSet" where
  "populate_ack_ids_set to [] = (to, [])"
| "populate_ack_ids_set to (x # frm) = populate_ack_ids_set (to @ [x]) frm"

fun populate_ack_ids_pack :: "string list \<Rightarrow> AckIDPackSet \<Rightarrow> string list" where
  "populate_ack_ids_pack to [] = to"
| "populate_ack_ids_pack to (it # frm) = populate_ack_ids_pack (to @ [fst it]) frm"

section \<open>What the functions do\<close>

lemma lookup_erase_keys: "map_of (erase_keys frm what) k = (if k \<in> set what then None else map_of frm k)"
  by (simp add: erase_keys_def um.lookup_fold_erase)

lemma keys_erase_keys [container_simps]: "set (um_keys (erase_keys frm what)) = set (um_keys frm) - set what"
  by (simp add: erase_keys_def container_simps)

lemma um_ok_erase_keys [intro, simp]: "um_ok frm \<Longrightarrow> um_ok (erase_keys frm what)"
  by (simp add: erase_keys_def um.ok_fold_erase)

lemma populate_ack_ids_set_eq: "populate_ack_ids_set to frm = (to @ frm, [])"
  by (induction frm arbitrary: to) auto

lemma populate_ack_ids_pack_eq: "populate_ack_ids_pack to frm = to @ map fst frm"
  by (induction frm arbitrary: to) auto

lemma give_me_the_keys_ok: "us_ok fst toModify \<Longrightarrow> us_ok fst (fst (give_me_the_keys ids toModify pred s))"
  by (induction ids toModify pred s rule: give_me_the_keys.induct) (auto split: prod.splits)

lemma give_me_the_keys_iterators:
  "\<forall>p\<in>set toModify. snd p = fst p \<Longrightarrow> \<forall>p\<in>set (fst (give_me_the_keys ids toModify pred s)). snd p = fst p"
proof (induction ids toModify pred s rule: give_me_the_keys.induct)
  case (1 toModify pred s)
  then show ?case by simp
next
  case (2 key descr ids toModify pred s)
  obtain b s' where step: "pred descr s = (b, s')" by (cases "pred descr s")
  have "\<forall>p\<in>set (if b then us_emplace fst (key, key) toModify else toModify). snd p = fst p"
    using "2.prems" by (simp add: us_emplace_def)
  from "2.IH" [OF step [symmetric] this] show ?case by (simp add: step)
qed

lemma give_me_the_keys_keys:
  assumes "\<And>d s. fst (pred d s) = P d"
  shows "fst ` set (fst (give_me_the_keys ids toModify pred s)) =
    fst ` set toModify \<union> {k. \<exists>d. (k, d) \<in> set ids \<and> P d}"
  using assms
proof (induction ids toModify pred s rule: give_me_the_keys.induct)
  case (1 toModify pred s)
  then show ?case by simp
next
  case (2 key descr ids toModify pred s)
  obtain b s' where step: "pred descr s = (b, s')" by (cases "pred descr s")
  have "b = P descr" using "2.prems" [of descr s] step by simp
  with "2.IH" [OF step [symmetric] "2.prems"] step show ?case
    by (auto simp: keys_us_emplace)
qed

lemma give_me_the_keys_state:
  "snd (give_me_the_keys ids toModify pred s) = fold (\<lambda>d s. snd (pred d s)) (map snd ids) s"
  by (induction ids toModify pred s rule: give_me_the_keys.induct) (auto split: prod.splits)

subsection \<open>The size of a request\<close>

definition id_cost :: "('a \<Rightarrow> string) \<Rightarrow> 'a \<Rightarrow> nat" where
  "id_cost key x = 3 + length (key x)"

definition payload :: "('a \<Rightarrow> string) \<Rightarrow> 'a list \<Rightarrow> nat" where
  "payload key xs = 100 + (\<Sum>x\<leftarrow>xs. id_cost key x)"

text \<open>No id is so long that adding it to a request below the limit leaves 32 bits.\<close>

definition no_wrap :: "('a \<Rightarrow> string) \<Rightarrow> u32 \<Rightarrow> 'a list \<Rightarrow> bool" where
  "no_wrap key maxSize xs = (\<forall>x\<in>set xs. unat maxSize + id_cost key x \<le> 2 ^ 32)"

lemma payload_Cons: "payload key (x # xs) = id_cost key x + payload key xs"
  by (simp add: payload_def)

lemma payload_Nil [simp]: "payload key [] = 100"
  by (simp add: payload_def)

lemma payload_append: "payload key (xs @ ys) + 100 = payload key xs + payload key ys"
  by (simp add: payload_def)

lemma payload_rev [simp]: "payload key (rev xs) = payload key xs"
  by (simp add: payload_def rev_map [symmetric])

lemma no_wrap_Cons: "no_wrap key maxSize (x # xs) \<longleftrightarrow>
    unat maxSize + id_cost key x \<le> 2 ^ 32 \<and> no_wrap key maxSize xs"
  by (simp add: no_wrap_def)

lemma split_size_step:
  assumes "sz < maxSize" and "unat maxSize + id_cost key x \<le> 2 ^ 32"
  shows "unat (sz + (kOverheadPerID + of_nat (length (key x)))) = unat sz + id_cost key x"
proof -
  have lt: "unat sz < unat maxSize" using assms(1) by (simp add: word_less_unat)
  have len: "3 + length (key x) < 2 ^ 32"
    using assms lt by (simp add: id_cost_def)
  have "kOverheadPerID + of_nat (length (key x)) = (of_nat (3 + length (key x)) :: u32)"
    by (simp add: kOverheadPerID_def)
  moreover have "unat (of_nat (3 + length (key x)) :: u32) = id_cost key x"
    using len by (simp add: unat_of_nat id_cost_def del: of_nat_add)
  ultimately show ?thesis
    using lt assms(2) by (simp add: unat_add_small)
qed

lemma split_loop_partition:
  assumes "us_ok key (rev toSend @ remainder)"
    and "split_loop key remainder toSend sz maxSize = (remainder', toSend')"
  shows "\<exists>pre. remainder = pre @ remainder' \<and> toSend' = rev pre @ toSend"
  using assms
proof (induction key remainder toSend sz maxSize rule: split_loop.induct)
  case (1 key toSend sz maxSize)
  then show ?case by simp
next
  case (2 key x rest toSend sz maxSize)
  show ?case
  proof (cases "split_loop key (x # rest) toSend sz maxSize = (x # rest, toSend)")
    case True
    then show ?thesis using "2.prems"(2) by simp
  next
    case False
    let ?sz' = "sz + (kOverheadPerID + of_nat (length (key x)))"
    from False have lt: "sz < maxSize" and lt': "?sz' < maxSize"
      by (auto simp: Let_def split: if_splits)
    have fresh: "key x \<notin> key ` set toSend"
      using "2.prems"(1) by (auto simp: us_ok_def)
    have "us_ok key (rev (x # toSend) @ rest)"
      using "2.prems"(1) by simp
    moreover have "split_loop key rest (x # toSend) ?sz' maxSize = (remainder', toSend')"
      using "2.prems"(2) lt lt' by (simp add: Let_def set_us_emplace_fresh [OF fresh])
    ultimately obtain pre where "rest = pre @ remainder'" "toSend' = rev pre @ x # toSend"
      using "2.IH" [OF lt refl lt'] by (auto simp: set_us_emplace_fresh [OF fresh])
    then show ?thesis by (intro exI [of _ "x # pre"]) simp
  qed
qed

lemma split_loop_sizes:
  assumes "no_wrap key maxSize remainder" and "us_ok key (rev toSend @ remainder)"
    and "unat sz = payload key toSend" and "toSend = [] \<or> unat sz < unat maxSize"
    and "split_loop key remainder toSend sz maxSize = (remainder', toSend')"
  shows "(toSend' = [] \<or> payload key toSend' < unat maxSize) \<and>
    (remainder' \<noteq> [] \<longrightarrow> unat maxSize \<le> payload key (hd remainder' # toSend'))"
  using assms
proof (induction key remainder toSend sz maxSize rule: split_loop.induct)
  case (1 key toSend sz maxSize)
  then show ?case by auto
next
  case (2 key x rest toSend sz maxSize)
  let ?sz' = "sz + (kOverheadPerID + of_nat (length (key x)))"
  have fresh: "key x \<notin> key ` set toSend"
    using "2.prems"(2) by (auto simp: us_ok_def)
  show ?case
  proof (cases "sz < maxSize")
    case False
    then show ?thesis
      using "2.prems" by (auto simp: payload_Cons word_less_unat not_less)
  next
    case lt: True
    have sz': "unat ?sz' = payload key (x # toSend)"
      using split_size_step [OF lt, of key x] "2.prems"(1,3) by (simp add: no_wrap_Cons payload_Cons)
    show ?thesis
    proof (cases "?sz' < maxSize")
      case False
      then have "remainder' = x # rest" "toSend' = toSend"
        using "2.prems"(5) lt by (auto simp: Let_def)
      then show ?thesis
        using False sz' "2.prems"(3,4) by (auto simp: word_less_unat not_less)
    next
      case lt': True
      have "split_loop key rest (x # toSend) ?sz' maxSize = (remainder', toSend')"
        using "2.prems"(5) lt lt' by (simp add: Let_def set_us_emplace_fresh [OF fresh])
      moreover have "no_wrap key maxSize rest" "us_ok key (rev (x # toSend) @ rest)"
        using "2.prems"(1,2) by (simp_all add: no_wrap_Cons)
      ultimately show ?thesis
        using "2.IH" [OF lt refl lt'] sz' lt' by (simp add: set_us_emplace_fresh [OF fresh] word_less_unat)
    qed
  qed
qed

end
