(* ===== verification/Distribution.thy ===== *)
theory Distribution
  imports Doubles
begin

text \<open>
  The latency histogram of \<open>pubsuber/src/Distribution.h\<close>: an array of \<open>HighLimit\<close> 64-bit counters.
  \<open>Record\<close> counts a value, values beyond the array go to the last counter; \<open>Percentile\<close> builds the
  prefix sums and looks the target rank up with \<open>std::lower_bound\<close>, modelled as the binary search of
  the standard library.

  The constructor leaves the atomic counters uninitialised under C++17, so no statement here that is
  not about a freshly zeroed array assumes anything about their contents.
\<close>

type_synonym hist = "u64 list"

text \<open>\<open>ModAckIterator\<close> instantiates the template with \<open>kMaxAckDeadline.count() + 1\<close>.\<close>

definition HighLimit :: nat where
  "HighLimit = 601"

definition Record :: "u64 \<Rightarrow> hist \<Rightarrow> hist outcome" where
  "Record v h =
     (if v < 0 then Inl (RuntimeError (''Pubsuber: Record: value out of range: '' @ to_string (uint v)))
      else let b = (if of_nat (length h) \<le> v then of_nat (length h) - 1 else v)
           in Inr (h[unat b := h ! unat b + 1]))"

fun prefix_sums :: "u64 \<Rightarrow> hist \<Rightarrow> u64 list" where
  "prefix_sums acc [] = []"
| "prefix_sums acc (x # h) = (acc + x) # prefix_sums (acc + x) h"

fun lower_bound :: "u64 list \<Rightarrow> u64 \<Rightarrow> nat \<Rightarrow> nat \<Rightarrow> nat" where
  "lower_bound xs v first len =
     (if len = 0 then first
      else let half = len div 2; middle = first + half
           in if xs ! middle < v then lower_bound xs v (Suc middle) (len - half - 1)
              else lower_bound xs v first half)"

declare lower_bound.simps [simp del]

definition Percentile :: "dbl \<Rightarrow> hist \<Rightarrow> u64 outcome" where
  "Percentile p h =
     (if p < Dbl 0 0 \<or> Dbl 1 0 < p then Inl (RuntimeError (''Pubsuber: Percentile: percentile out of range: '' @ to_string_double p))
      else let psums = prefix_sums 0 h; total = sum_list h
           in case to_u64 (dceil (dmul (d_of_int (uint total)) p)) of
                Inl e \<Rightarrow> Inl e
              | Inr target \<Rightarrow>
                  (let it = lower_bound psums target 0 (length psums)
                   in if it = length psums
                      then Inl (RuntimeError (''Pubsuber: target not found in sums: '' @ to_string (uint target)))
                      else Inr (of_nat it)))"

text \<open>The \<open>double\<close> closest to 0.99, the only rank the library asks for.\<close>

definition d099 :: dbl where
  "d099 = Dbl 8917127262193582 (-53)"

section \<open>Prefix sums and the binary search\<close>

lemma length_prefix_sums [simp]: "length (prefix_sums s h) = length h"
  by (induction h arbitrary: s) auto

lemma prefix_sums_nth: "i < length h \<Longrightarrow> prefix_sums s h ! i = s + sum_list (take (Suc i) h)"
proof (induction h arbitrary: s i)
  case Nil
  then show ?case by simp
next
  case (Cons x h)
  then show ?case by (cases i) (simp_all add: add.assoc)
qed

text \<open>
  What the search guarantees without any order of the list: the element it stops at is not below
  the target and the one before it is.
\<close>

lemma lower_bound_brackets:
  assumes "first + len \<le> length xs" and "first = 0 \<or> xs ! (first - 1) < v"
    and "first + len = length xs \<or> v \<le> xs ! (first + len)"
  shows "lower_bound xs v first len \<le> length xs \<and>
    (lower_bound xs v first len = 0 \<or> xs ! (lower_bound xs v first len - 1) < v) \<and>
    (lower_bound xs v first len = length xs \<or> v \<le> xs ! lower_bound xs v first len)"
  using assms
proof (induction xs v first len rule: lower_bound.induct)
  case (1 xs v first len)
  show ?case
  proof (cases "len = 0")
    case True
    with "1.prems" show ?thesis by (simp add: lower_bound.simps [of xs v first 0])
  next
    case False
    let ?half = "len div 2" let ?middle = "first + ?half"
    show ?thesis
    proof (cases "xs ! ?middle < v")
      case True
      from False have "Suc ?middle + (len - ?half - 1) = first + len" by simp
      with "1.prems" True
      have "lower_bound xs v (Suc ?middle) (len - ?half - 1) \<le> length xs \<and>
        (lower_bound xs v (Suc ?middle) (len - ?half - 1) = 0 \<or>
          xs ! (lower_bound xs v (Suc ?middle) (len - ?half - 1) - 1) < v) \<and>
        (lower_bound xs v (Suc ?middle) (len - ?half - 1) = length xs \<or>
          v \<le> xs ! lower_bound xs v (Suc ?middle) (len - ?half - 1))"
        by (intro "1.IH"(1) [OF False refl refl True]) simp_all
      then show ?thesis
        using False True by (simp add: lower_bound.simps [of xs v first len] Let_def)
    next
      case nlt: False
      with "1.prems" False
      have "lower_bound xs v first ?half \<le> length xs \<and>
        (lower_bound xs v first ?half = 0 \<or> xs ! (lower_bound xs v first ?half - 1) < v) \<and>
        (lower_bound xs v first ?half = length xs \<or> v \<le> xs ! lower_bound xs v first ?half)"
        by (intro "1.IH"(2) [OF False refl refl nlt]) (simp_all add: not_less)
      then show ?thesis
        using False nlt by (simp add: lower_bound.simps [of xs v first len] Let_def)
    qed
  qed
qed

lemma lower_bound_whole:
  "lower_bound xs v 0 (length xs) \<le> length xs"
  "lower_bound xs v 0 (length xs) = 0 \<or> xs ! (lower_bound xs v 0 (length xs) - 1) < v"
  "lower_bound xs v 0 (length xs) = length xs \<or> v \<le> xs ! lower_bound xs v 0 (length xs)"
  using lower_bound_brackets [of 0 "length xs" xs v] by simp_all

section \<open>The rank of the 99th percentile\<close>

lemma d099_range [simp]: "\<not> d099 < Dbl 0 0" "\<not> Dbl 1 0 < d099"
  by (simp_all add: less_dbl_def dless_def d099_def Let_def)

definition rank99 :: "nat \<Rightarrow> nat" where
  "rank99 n = nat (dceil (dmul (d_of_int (int n)) d099))"

lemma dceil_rank99: "dceil (dmul (d_of_int (int n)) d099) = int (rank99 n)"
  "int (rank99 n) = - ((- int (round53 (round53 n * 8917127262193582))) div 2 ^ 53)"
proof -
  have "d_of_int (int n) = Dbl (int (round53 n)) 0"
    by (cases "n = 0") (simp_all add: d_of_int_def d_round_def round53_exact)
  moreover have "d_round (int (round53 n) * 8917127262193582) (-53) =
      Dbl (int (round53 (round53 n * 8917127262193582))) (-53)"
  proof (cases "round53 n = 0")
    case True
    then show ?thesis by (simp add: d_round_def round53_exact)
  next
    case False
    then have "sgn (int (round53 n) * 8917127262193582) = 1" by (simp add: sgn_mult)
    moreover have "nat \<bar>int (round53 n) * 8917127262193582\<bar> = round53 n * 8917127262193582"
      by (simp add: nat_mult_distrib)
    ultimately show ?thesis by (simp add: d_round_def)
  qed
  ultimately have eq: "dceil (dmul (d_of_int (int n)) d099) =
      - ((- int (round53 (round53 n * 8917127262193582))) div 2 ^ 53)"
    by (simp add: dmul_def d099_def dceil_def)
  have "(- int (round53 (round53 n * 8917127262193582))) div 2 ^ 53 \<le> 0"
    by (rule div_nonpos_pos_le0) simp_all
  then show "dceil (dmul (d_of_int (int n)) d099) = int (rank99 n)"
    by (simp add: rank99_def eq)
  with eq show "int (rank99 n) = - ((- int (round53 (round53 n * 8917127262193582))) div 2 ^ 53)"
    by simp
qed

lemma neg_div_le_iff:
  fixes a b c :: int
  assumes "0 < b"
  shows "- ((- a) div b) \<le> c \<longleftrightarrow> a \<le> c * b"
proof -
  define q m where "q = - ((- a) div b)" and "m = (- a) mod b"
  have a: "a = q * b - m" unfolding q_def m_def using div_mult_mod_eq [of "- a" b] by linarith
  have m: "0 \<le> m" "m < b" using assms by (simp_all add: m_def)
  have "q \<le> c \<longleftrightarrow> a \<le> c * b"
  proof
    assume "q \<le> c"
    then have "q * b \<le> c * b" using assms by (intro mult_right_mono) simp_all
    then show "a \<le> c * b" using a m by linarith
  next
    assume le: "a \<le> c * b"
    show "q \<le> c"
    proof (rule ccontr)
      assume "\<not> q \<le> c"
      then have "(c + 1) * b \<le> q * b" using assms by (intro mult_right_mono) simp_all
      then show False using a m le by (simp add: distrib_right)
    qed
  qed
  then show ?thesis by (simp add: q_def)
qed

lemma rank99_le_iff: "rank99 n \<le> t \<longleftrightarrow> round53 (round53 n * 8917127262193582) \<le> t * 2 ^ 53"
proof -
  let ?y = "round53 (round53 n * 8917127262193582)"
  have "rank99 n \<le> t \<longleftrightarrow> int (rank99 n) \<le> int t" by simp
  also have "\<dots> \<longleftrightarrow> int ?y \<le> int t * 2 ^ 53"
    unfolding dceil_rank99(2) by (rule neg_div_le_iff) simp
  also have "int t * 2 ^ 53 = int (t * 2 ^ 53)" by simp
  finally show ?thesis by (simp only: of_nat_le_iff)
qed

text \<open>Rounding twice never lifts the rank above the number of records.\<close>

lemma rank99_le: "rank99 n \<le> n"
proof -
  let ?r = "round53 n" let ?y = "round53 (?r * 8917127262193582)"
  have r: "?r * 2 ^ 53 \<le> n * (2 ^ 53 + 1)" by (rule round53_error)
  have "?y * 2 ^ 53 \<le> ?r * 8917127262193582 * (2 ^ 53 + 1)" by (rule round53_error)
  then have "?y * 2 ^ 53 * 2 ^ 53 \<le> (?r * 2 ^ 53) * (8917127262193582 * (2 ^ 53 + 1))"
    by (simp add: mult.assoc mult.commute mult.left_commute)
  also have "\<dots> \<le> n * (2 ^ 53 + 1) * (8917127262193582 * (2 ^ 53 + 1))"
    using r by (rule mult_le_mono1)
  also have "\<dots> = n * ((2 ^ 53 + 1) * (8917127262193582 * (2 ^ 53 + 1)))"
    by (simp only: mult.assoc)
  also have "\<dots> \<le> n * (2 ^ 53 * 2 ^ 53 * 2 ^ 53)"
    by (intro mult_le_mono2) simp
  finally have "?y \<le> n * 2 ^ 53" by simp
  then show ?thesis by (simp only: rank99_le_iff)
qed

text \<open>Below \<open>2 ^ 46\<close> records the floating point rank is the exact one.\<close>

lemma rank99_exact: "n < 2 ^ 46 \<Longrightarrow> rank99 n \<le> t \<longleftrightarrow> 99 * n \<le> 100 * t"
proof -
  assume n: "n < 2 ^ 46"
  then have "n < 2 ^ 53" by simp
  then have r: "round53 n = n" by (rule round53_exact)
  let ?x = "n * 8917127262193582"
  have x106: "?x < 2 ^ 106" using n by simp
  show ?thesis
  proof
    assume le: "99 * n \<le> 100 * t"
    then have "?x \<le> t * 2 ^ 53" by simp
    then have "round53 ?x \<le> t * 2 ^ 53" using x106 by (rule round53_mono_grid)
    then show "rank99 n \<le> t" by (simp only: rank99_le_iff r)
  next
    assume "rank99 n \<le> t"
    then have y: "round53 ?x \<le> t * 2 ^ 53" by (simp only: rank99_le_iff r)
    have "?x * (2 ^ 53 - 1) \<le> round53 ?x * 2 ^ 53" by (rule round53_error)
    with y have "?x * (2 ^ 53 - 1) \<le> t * 2 ^ 53 * 2 ^ 53" by simp
    with n show "99 * n \<le> 100 * t" by simp
  qed
qed

section \<open>The 99th percentile of any histogram\<close>

definition percentile_index :: "hist \<Rightarrow> nat" where
  "percentile_index h = lower_bound (prefix_sums 0 h) (of_nat (rank99 (unat (sum_list h)))) 0 (length h)"

lemma prefix_sums_last: "h \<noteq> [] \<Longrightarrow> prefix_sums 0 h ! (length h - 1) = sum_list h"
  by (simp add: prefix_sums_nth)

lemma rank99_small: "rank99 (unat t) < 2 ^ 64" for t :: u64
proof -
  have "unat t < 2 ^ LENGTH(64)" by (rule unsigned_less)
  then have "unat t < 2 ^ 64" by simp
  with rank99_le [of "unat t"] show ?thesis by linarith
qed

lemma rank99_word: "unat (of_nat (rank99 (unat t)) :: u64) = rank99 (unat t)" for t :: u64
  using rank99_small [of t] by (simp add: unat_of_nat)

lemma rank99_word_le: "(of_nat (rank99 (unat t)) :: u64) \<le> t" for t :: u64
  by (simp add: word_le_unat rank99_word rank99_le)

text \<open>The search always stops inside the array, whatever the counters hold.\<close>

lemma percentile_index_less: "h \<noteq> [] \<Longrightarrow> percentile_index h < length h"
proof (rule ccontr)
  assume ne: "h \<noteq> []" and "\<not> percentile_index h < length h"
  moreover have "percentile_index h \<le> length h"
    using lower_bound_whole(1) [of "prefix_sums 0 h"] by (simp add: percentile_index_def)
  ultimately have "percentile_index h = length h" by simp
  then have "sum_list h < (of_nat (rank99 (unat (sum_list h))) :: u64)"
    using lower_bound_whole(2) [of "prefix_sums 0 h" "of_nat (rank99 (unat (sum_list h)))"] ne
    by (simp add: percentile_index_def prefix_sums_last [simplified])
  with rank99_word_le [of "sum_list h"] show False by simp
qed

lemma Percentile_d099:
  assumes "h \<noteq> []"
  shows "Percentile d099 h = Inr (of_nat (percentile_index h))"
proof -
  have "int (rank99 (unat (sum_list h))) < 2 ^ 64"
    using rank99_small [of "sum_list h"] by simp
  then have "to_u64 (int (rank99 (unat (sum_list h)))) = Inr (of_nat (rank99 (unat (sum_list h))))"
    by (simp add: to_u64_def)
  then have "to_u64 (dceil (dmul (d_of_int (uint (sum_list h))) d099)) =
      Inr (of_nat (rank99 (unat (sum_list h))))"
    by (simp only: uint_nat dceil_rank99(1))
  moreover have "percentile_index h \<noteq> length h"
    using percentile_index_less [OF assms] by simp
  ultimately show ?thesis
    by (simp add: Percentile_def Let_def percentile_index_def)
qed

section \<open>Counting\<close>

text \<open>How many recorded values are at most \<open>i\<close>.\<close>

definition count_upto :: "hist \<Rightarrow> nat \<Rightarrow> nat" where
  "count_upto h i = (\<Sum>x\<leftarrow>take (Suc i) h. unat x)"

definition total_count :: "hist \<Rightarrow> nat" where
  "total_count h = (\<Sum>x\<leftarrow>h. unat x)"

lemma count_upto_le_total: "count_upto h i \<le> total_count h"
proof -
  have "total_count h = count_upto h i + (\<Sum>x\<leftarrow>drop (Suc i) h. unat x)"
    unfolding total_count_def count_upto_def
    by (metis append_take_drop_id map_append sum_list_append)
  then show ?thesis by simp
qed

lemma count_upto_mono: "i \<le> j \<Longrightarrow> count_upto h i \<le> count_upto h j"
proof -
  assume "i \<le> j"
  then have "take (Suc j) h = take (Suc i) h @ take (j - i) (drop (Suc i) h)"
    by (metis Suc_le_mono diff_Suc_Suc le_add_diff_inverse take_add)
  then show ?thesis by (simp add: count_upto_def)
qed

lemma unat_sum_list:
  fixes xs :: "u64 list"
  assumes "(\<Sum>x\<leftarrow>xs. unat x) < 2 ^ 64"
  shows "unat (sum_list xs) = (\<Sum>x\<leftarrow>xs. unat x)"
  using assms by (induction xs) (simp_all add: unat_add_small)

lemma unat_prefix_sums:
  assumes "total_count h < 2 ^ 64" and "i < length h"
  shows "unat (prefix_sums 0 h ! i) = count_upto h i"
  using assms count_upto_le_total [of h i]
  by (simp add: prefix_sums_nth unat_sum_list count_upto_def)

lemma percentile_index_count:
  assumes "h \<noteq> []" and "total_count h < 2 ^ 64"
  shows "rank99 (total_count h) \<le> count_upto h (percentile_index h)"
    and "j < percentile_index h \<Longrightarrow> count_upto h j < rank99 (total_count h)"
proof -
  let ?i = "percentile_index h" and ?t = "of_nat (rank99 (unat (sum_list h))) :: u64"
  have tot: "unat (sum_list h) = total_count h"
    using assms(2) by (simp add: unat_sum_list total_count_def)
  have t: "unat ?t = rank99 (total_count h)" using rank99_word [of "sum_list h"] tot by simp
  have less: "?i < length h" using assms(1) by (rule percentile_index_less)
  have "?t \<le> prefix_sums 0 h ! ?i"
    using lower_bound_whole(3) [of "prefix_sums 0 h" ?t] less by (auto simp: percentile_index_def)
  then show "rank99 (total_count h) \<le> count_upto h ?i"
    using less assms(2) by (simp add: word_le_unat t unat_prefix_sums)
  assume j: "j < ?i"
  then have "prefix_sums 0 h ! (?i - 1) < ?t"
    using lower_bound_whole(2) [of "prefix_sums 0 h" ?t] by (auto simp: percentile_index_def)
  then have "count_upto h (?i - 1) < rank99 (total_count h)"
    using less assms(2) by (simp add: word_less_unat t unat_prefix_sums)
  moreover have "count_upto h j \<le> count_upto h (?i - 1)"
    using j by (intro count_upto_mono) simp
  ultimately show "count_upto h j < rank99 (total_count h)" by simp
qed

section \<open>Recording\<close>

definition bucket :: "hist \<Rightarrow> u64 \<Rightarrow> nat" where
  "bucket h v = min (unat v) (length h - 1)"

lemma Record_bucket:
  assumes "h \<noteq> []" and "length h < 2 ^ 64"
  shows "Record v h = Inr (h[bucket h v := h ! bucket h v + 1])"
proof -
  have len: "unat (of_nat (length h) :: u64) = length h" using assms(2) by (simp add: unat_of_nat)
  have "unat (of_nat (length h) - 1 :: u64) = length h - 1"
  proof -
    have "(1 :: u64) \<le> of_nat (length h)"
      using assms(1) len by (simp add: word_le_unat Suc_le_eq)
    then show ?thesis by (simp add: unat_sub len)
  qed
  then have "unat (if of_nat (length h) \<le> v then of_nat (length h) - 1 else v) = bucket h v"
    by (auto simp: bucket_def word_le_unat len min_def)
  then show ?thesis by (simp add: Record_def Let_def)
qed

lemma bucket_less: "h \<noteq> [] \<Longrightarrow> bucket h v < length h"
  by (cases h) (auto simp: bucket_def)

lemma count_upto_bump:
  assumes "b < length h" and "unat (h ! b) < 2 ^ 64 - 1"
  shows "count_upto (h[b := h ! b + 1]) i = count_upto h i + (if b \<le> i then 1 else 0)"
proof -
  have bump: "unat (h ! b + 1) = unat (h ! b) + 1" using assms(2) by (simp add: unat_add_small)
  show ?thesis
  proof (cases "b \<le> i")
    case True
    have b: "b < length (take (Suc i) h)" using True assms(1) by simp
    have "map unat (take (Suc i) (h[b := h ! b + 1])) =
        (map unat (take (Suc i) h))[b := unat (h ! b) + 1]"
      by (simp add: take_update_swap map_update bump)
    moreover have "map unat (take (Suc i) h) ! b = unat (h ! b)" using b by simp
    ultimately show ?thesis
      using True b member_le_sum_list [of "unat (h ! b)" "map unat (take (Suc i) h)"]
      by (simp add: count_upto_def sum_list_update)
  next
    case False
    then show ?thesis by (simp add: count_upto_def)
  qed
qed

fun record_all :: "u64 list \<Rightarrow> hist \<Rightarrow> hist outcome" where
  "record_all [] h = Inr h"
| "record_all (v # vs) h = (case Record v h of Inl e \<Rightarrow> Inl e | Inr h' \<Rightarrow> record_all vs h')"

lemma nth_le_total: "b < length h \<Longrightarrow> unat (h ! b) \<le> total_count h"
  by (simp add: total_count_def member_le_sum_list)

lemma total_count_upto: "h \<noteq> [] \<Longrightarrow> total_count h = count_upto h (length h - 1)"
  by (simp add: total_count_def count_upto_def)

lemma record_all_counts:
  assumes "h \<noteq> []" and "length h < 2 ^ 64" and "total_count h + length vs < 2 ^ 64"
  shows "\<exists>h'. record_all vs h = Inr h' \<and> length h' = length h \<and>
    (\<forall>i. count_upto h' i = count_upto h i + length (filter (\<lambda>v. min (unat v) (length h - 1) \<le> i) vs))"
  using assms
proof (induction vs arbitrary: h)
  case Nil
  then show ?case by simp
next
  case (Cons v vs)
  let ?b = "bucket h v"
  let ?h = "h[?b := h ! ?b + 1]"
  have b: "?b < length h" using Cons.prems(1) by (rule bucket_less)
  have small: "unat (h ! ?b) < 2 ^ 64 - 1"
    using nth_le_total [OF b] Cons.prems(3) by simp
  have upto: "count_upto ?h i = count_upto h i + (if ?b \<le> i then 1 else 0)" for i
    using b small by (rule count_upto_bump)
  have "total_count ?h = total_count h + 1"
    using Cons.prems(1) b upto [of "length h - 1"] by (simp add: total_count_upto)
  then obtain h' where h': "record_all vs ?h = Inr h'" "length h' = length h"
    "\<forall>i. count_upto h' i = count_upto ?h i + length (filter (\<lambda>v. min (unat v) (length h - 1) \<le> i) vs)"
    using Cons.IH [of ?h] Cons.prems by auto
  then show ?case
    using Record_bucket [OF Cons.prems(1,2), of v] upto by (auto simp: bucket_def)
qed

lemma count_upto_zeros [simp]: "count_upto (replicate n 0) i = 0"
  by (simp add: count_upto_def sum_list_replicate)

lemma total_count_zeros [simp]: "total_count (replicate n 0) = 0"
  by (simp add: total_count_def sum_list_replicate)

lemma percentile_99th:
  assumes "length vs < 2 ^ 46"
  shows "\<exists>h i. record_all vs (replicate HighLimit 0) = Inr h \<and> Percentile d099 h = Inr (of_nat i) \<and> i < HighLimit \<and>
    99 * length vs \<le> 100 * length (filter (\<lambda>v. min (unat v) 600 \<le> i) vs) \<and>
    (\<forall>j<i. 100 * length (filter (\<lambda>v. min (unat v) 600 \<le> j) vs) < 99 * length vs)"
proof -
  let ?h0 = "replicate HighLimit (0 :: u64)"
  let ?cnt = "\<lambda>i. length (filter (\<lambda>v. min (unat v) 600 \<le> i) vs)"
  have h0: "?h0 \<noteq> []" "length ?h0 < 2 ^ 64" "total_count ?h0 + length vs < 2 ^ 64" "length ?h0 - 1 = 600"
    using assms by (simp_all add: HighLimit_def)
  then obtain h where h: "record_all vs ?h0 = Inr h" "length h = HighLimit"
    and cnt: "\<And>i. count_upto h i = ?cnt i"
    using record_all_counts [OF h0(1-3)] by (auto simp: HighLimit_def)
  have ne: "h \<noteq> []" using h(2) by (auto simp: HighLimit_def)
  have tot: "total_count h = length vs"
    using total_count_upto [OF ne] cnt [of 600] h(2) by (simp add: HighLimit_def)
  let ?i = "percentile_index h"
  have idx: "rank99 (length vs) \<le> ?cnt ?i" "j < ?i \<Longrightarrow> ?cnt j < rank99 (length vs)" for j
    using percentile_index_count [OF ne] tot cnt assms by simp_all
  have "99 * length vs \<le> 100 * ?cnt ?i" using idx(1) rank99_exact [OF assms] by simp
  moreover have "100 * ?cnt j < 99 * length vs" if "j < ?i" for j
    using idx(2) [OF that] rank99_exact [OF assms, of "?cnt j"] by simp
  ultimately show ?thesis
    using h percentile_index_less [OF ne] Percentile_d099 [OF ne] by (intro exI [of _ h] exI [of _ ?i]) simp
qed

section \<open>Properties\<close>

text \<open>
  The 0.99 percentile never fails and is a bucket of the array, whatever the counters hold: the
  uninitialised memory they start with, or sums that wrap around. The binary search stops inside the
  array, so \<open>AckDeadline\<close>, which is \<open>noexcept\<close>, does not end the process.
\<close>

lemma Percentile_never_fails:
  assumes "h \<noteq> []"
  shows "\<exists>i<length h. Percentile d099 h = Inr (of_nat i)"
  using percentile_index_less [OF assms] Percentile_d099 [OF assms] by blast

lemma Percentile_never_fails_witness:
  "\<exists>i<length [2 ^ 63, 2 ^ 63, 7 :: u64]. Percentile d099 [2 ^ 63, 2 ^ 63, 7] = Inr (of_nat i)"
  by (rule Percentile_never_fails) simp

text \<open>
  After any values were recorded in a zeroed histogram, \<open>Percentile(0.99)\<close> is the 99th percentile of
  them in exact arithmetic: the smallest bucket such that at least 99% of the values are in it or below,
  values beyond the array counted in its last bucket. The rounding of the product with the \<open>double\<close> 0.99
  never shifts the rank.
\<close>

lemma Percentile_is_99th:
  assumes "length vs < 2 ^ 46"
  shows "\<exists>h i. record_all vs (replicate HighLimit 0) = Inr h \<and> Percentile d099 h = Inr (of_nat i) \<and> i < HighLimit \<and>
    99 * length vs \<le> 100 * length (filter (\<lambda>v. min (unat v) 600 \<le> i) vs) \<and>
    (\<forall>j<i. 100 * length (filter (\<lambda>v. min (unat v) 600 \<le> j) vs) < 99 * length vs)"
  by (rule percentile_99th [OF assms])

lemma Percentile_is_99th_witness:
  "\<exists>h i. record_all [3, 700, 3 :: u64] (replicate HighLimit 0) = Inr h \<and> Percentile d099 h = Inr (of_nat i) \<and> i < HighLimit \<and>
    99 * length [3, 700, 3 :: u64] \<le> 100 * length (filter (\<lambda>v. min (unat v) 600 \<le> i) [3, 700, 3 :: u64]) \<and>
    (\<forall>j<i. 100 * length (filter (\<lambda>v. min (unat v) 600 \<le> j) [3, 700, 3 :: u64]) < 99 * length [3, 700, 3 :: u64])"
  by (rule Percentile_is_99th) simp

end
