(* ===== verification/ModAck.thy ===== *)
theory ModAck
  imports Algorithms Distribution Retriable
begin

text \<open>
  The acknowledgement iterator of one subscription, \<open>pubsuber/src/ModAckIterator.h\<close> and
  \<open>ModAckIterator.cpp\<close>: it remembers which messages are out with the user, extends their deadlines and
  sends the acks and nacks of the user to the service.

  A stub call with the iterator's policies is the argument \<open>call\<close> of the operations (the contract
  \<open>transport\<close>); \<open>ProcessModAcks\<close> passes \<open>make_call\<close>. An operation that may block for ever returns
  \<open>None\<close>; otherwise it returns its outcome, the state it changed up to then, and the world.
\<close>

section \<open>State\<close>

definition kMaxPayload :: u32 where
  "kMaxPayload = 512 * 1024"

definition kSoManyMilliseconds :: msecs where
  "kSoManyMilliseconds = 1000000000"

record ModAckIterator =
  subscriptionName :: string
  gracePeriod :: secs
  ackDist :: hist
  executorAlive :: bool
  countPolicy :: RetryCountPolicy
  timePolicy :: MaxRetryTimePolicy
  ackBackoffPolicy :: ExponentialBackoffPolicy
  inputAckIDs :: WatchDescrContainer
  pendingAckIDs :: AckIDSet
  pendingNackIDs :: AckIDSet
  keepAliveAckIDs :: WatchDescrContainer

datatype DoneAction = Ack | Nack

text \<open>The counters of the histogram hold whatever was in memory.\<close>

definition new_ModAckIterator ::
  "string \<Rightarrow> hist \<Rightarrow> RetryCountPolicy \<Rightarrow> MaxRetryTimePolicy \<Rightarrow> ExponentialBackoffPolicy \<Rightarrow> ModAckIterator" where
  "new_ModAckIterator name memory cp tp bp =
     \<lparr>subscriptionName = name, gracePeriod = kMinAckDeadline sdiv 2, ackDist = memory, executorAlive = True,
      countPolicy = cp, timePolicy = tp, ackBackoffPolicy = bp,
      inputAckIDs = [], pendingAckIDs = [], pendingNackIDs = [], keepAliveAckIDs = []\<rparr>"

section \<open>Operations under the lock\<close>

text \<open>Without the executor the operations only log an error.\<close>

definition AddDeadlineWatcher :: "AckID \<Rightarrow> nsecs \<Rightarrow> ModAckIterator \<Rightarrow> ModAckIterator" where
  "AddDeadlineWatcher ackID next_ack it =
     (if executorAlive it
      then it\<lparr>inputAckIDs := um_insert_or_assign ackID \<lparr>nextAck = next_ack\<rparr> (inputAckIDs it)\<rparr>
      else it)"

definition mark_done :: "AckID \<Rightarrow> DoneAction \<Rightarrow> ModAckIterator \<Rightarrow> ModAckIterator" where
  "mark_done ackID action it =
     (case action of
        Ack \<Rightarrow> it\<lparr>pendingNackIDs := us_erase id ackID (pendingNackIDs it),
                  pendingAckIDs := us_emplace id ackID (pendingAckIDs it)\<rparr>
      | Nack \<Rightarrow> it\<lparr>pendingAckIDs := us_erase id ackID (pendingAckIDs it),
                  pendingNackIDs := us_emplace id ackID (pendingNackIDs it)\<rparr>)"

definition Done ::
  "env \<Rightarrow> AckID \<Rightarrow> nsecs \<Rightarrow> DoneAction \<Rightarrow> ModAckIterator \<Rightarrow> world \<Rightarrow> ModAckIterator outcome \<times> world" where
  "Done E ackID rt action it w =
     (case steady_now E w of (now, w') \<Rightarrow>
        (case Record (word_of_int (s_of_ns (now - rt))) (ackDist it) of
           Inl e \<Rightarrow> (Inl e, w')
         | Inr d \<Rightarrow>
             (let it' = it\<lparr>ackDist := d\<rparr>
              in (Inr (if executorAlive it' then mark_done ackID action it' else it'), w'))))"

definition KeepAliveCount :: "ModAckIterator \<Rightarrow> nat" where
  "KeepAliveCount it = length (keepAliveAckIDs it)"

definition InputCount :: "ModAckIterator \<Rightarrow> nat" where
  "InputCount it = length (inputAckIDs it)"

definition MergeInput :: "ModAckIterator \<Rightarrow> ModAckIterator" where
  "MergeInput it = it\<lparr>keepAliveAckIDs := um_merge_target (keepAliveAckIDs it) (inputAckIDs it),
                      inputAckIDs := []\<rparr>"

section \<open>Requests\<close>

definition ack_status :: "env \<Rightarrow> rpc_reply \<Rightarrow> unit outcome" where
  "ack_status E reply =
     (case rep_code reply of
        OK \<Rightarrow> Inr ()
      | c \<Rightarrow> Inl (Exception_code (''Pubsuber: ModifyAckDeadline failed with error '' @
               to_string (e_code_num E c) @ '': '' @ rep_text reply) (e_code_num E c)))"

type_synonym stub_call = "rpc_request \<Rightarrow> world \<Rightarrow> call_result option"

definition AckMessages :: "env \<Rightarrow> stub_call \<Rightarrow> string \<Rightarrow> AckIDSet \<Rightarrow> world \<Rightarrow> (unit outcome \<times> world) option" where
  "AckMessages E call sub ids w =
     (case call (AcknowledgeRequest sub (fst (populate_ack_ids_set [] ids))) w of
        None \<Rightarrow> None
      | Some (Inl e, w') \<Rightarrow> Some (Inl e, w')
      | Some (Inr (reply, _), w') \<Rightarrow> Some (ack_status E reply, w'))"

text \<open>
  The callback gets the new deadline and runs only after the service accepted it. \<open>populate\<close> is the
  variant of \<open>populate_ack_ids\<close> for the container.
\<close>

definition ExtendAckDeadlines ::
  "env \<Rightarrow> stub_call \<Rightarrow> string \<Rightarrow> ('a list \<Rightarrow> string list) \<Rightarrow> 'a list \<Rightarrow> secs \<Rightarrow> (nsecs \<Rightarrow> 's \<Rightarrow> 's)
    \<Rightarrow> 's \<Rightarrow> world \<Rightarrow> (unit outcome \<times> 's \<times> world) option" where
  "ExtendAckDeadlines E call sub populate ids newDeadline Callback s w =
     (case call (ModifyAckDeadlineRequest sub (populate ids) newDeadline) w of
        None \<Rightarrow> None
      | Some (Inl e, w') \<Rightarrow> Some (Inl e, s, w')
      | Some (Inr (reply, now), w') \<Rightarrow>
          (case ack_status E reply of
             Inl e \<Rightarrow> Some (Inl e, s, w')
           | Inr _ \<Rightarrow> Some (Inr (), Callback (now + ns_of_s newDeadline) s, w')))"

text \<open>
  The loop \<open>while (!ids.empty()) { split_request_ids(ids, toSend, kMaxPayload); act(toSend); }\<close> that
  \<open>SendAcks\<close>, \<open>SendNacks\<close> and \<open>ModifyAckDeadlines\<close> share.
\<close>

partial_function (option) batch_loop ::
  "('a \<Rightarrow> string) \<Rightarrow> ('a list \<Rightarrow> 's \<Rightarrow> (unit outcome \<times> 's) option) \<Rightarrow> 'a list \<Rightarrow> 's
    \<Rightarrow> (unit outcome \<times> 's) option" where
  "batch_loop key act ids s =
     (if ids = [] then Some (Inr (), s)
      else Option.bind (act (snd (split_request_ids key ids kMaxPayload)) s)
        (\<lambda>p. case fst p of
               Inl e \<Rightarrow> Some (Inl e, snd p)
             | Inr u \<Rightarrow> batch_loop key act (fst (split_request_ids key ids kMaxPayload)) (snd p)))"

definition SendAcks :: "env \<Rightarrow> stub_call \<Rightarrow> string \<Rightarrow> AckIDSet \<Rightarrow> world \<Rightarrow> (unit outcome \<times> world) option" where
  "SendAcks E call sub ids w =
     (if ids = [] then Some (Inr (), w) else batch_loop id (AckMessages E call sub) ids w)"

definition nack_batch :: "env \<Rightarrow> stub_call \<Rightarrow> string \<Rightarrow> AckIDSet \<Rightarrow> world \<Rightarrow> (unit outcome \<times> world) option" where
  "nack_batch E call sub toSend w =
     (case ExtendAckDeadlines E call sub (\<lambda>ids. fst (populate_ack_ids_set [] ids)) toSend 0 (\<lambda>r s. s) () w of
        None \<Rightarrow> None
      | Some (r, _, w') \<Rightarrow> Some (r, w'))"

definition SendNacks :: "env \<Rightarrow> stub_call \<Rightarrow> string \<Rightarrow> AckIDSet \<Rightarrow> world \<Rightarrow> (unit outcome \<times> world) option" where
  "SendNacks E call sub ids w =
     (if ids = [] then Some (Inr (), w) else batch_loop id (nack_batch E call sub) ids w)"

section \<open>Extending deadlines\<close>

text \<open>The lambda that decides which deadlines are due and collects the shortest of the others.\<close>

definition due :: "nsecs \<Rightarrow> secs \<Rightarrow> AckWatchDescriptior \<Rightarrow> msecs \<Rightarrow> bool \<times> msecs" where
  "due pseudoNow grace descr sleepTime =
     (let ms = ExtendIn descr pseudoNow
      in if ms_of_s grace < ms then (False, min sleepTime ms) else (True, sleepTime))"

definition update_all :: "AckIDPackSet \<Rightarrow> nsecs \<Rightarrow> WatchDescrContainer \<Rightarrow> WatchDescrContainer" where
  "update_all toSend next_ack m = fold (\<lambda>it. um_update (snd it) (UpdateNextAck next_ack)) toSend m"

definition extend_batch ::
  "env \<Rightarrow> stub_call \<Rightarrow> string \<Rightarrow> secs \<Rightarrow> AckIDPackSet \<Rightarrow> WatchDescrContainer \<times> world
    \<Rightarrow> (unit outcome \<times> WatchDescrContainer \<times> world) option" where
  "extend_batch E call sub dl toSend s =
     ExtendAckDeadlines E call sub (populate_ack_ids_pack []) toSend dl (update_all toSend) (fst s) (snd s)"

definition ModifyAckDeadlines ::
  "env \<Rightarrow> stub_call \<Rightarrow> string \<Rightarrow> WatchDescrContainer \<Rightarrow> secs \<Rightarrow> secs \<Rightarrow> world
    \<Rightarrow> (msecs outcome \<times> WatchDescrContainer \<times> world) option" where
  "ModifyAckDeadlines E call sub ids dl grace w =
     (if ids = [] then Some (Inr kSoManyMilliseconds, ids, w)
      else case steady_now E w of (pseudoNow, w1) \<Rightarrow>
        (case give_me_the_keys ids [] (due pseudoNow grace) kSoManyMilliseconds of (toModify, sleepTime) \<Rightarrow>
           if toModify = [] then Some (Inr (sleepTime sdiv 2), ids, w1)
           else (case batch_loop fst (extend_batch E call sub dl) toModify (ids, w1) of
                   None \<Rightarrow> None
                 | Some (Inl e, ids', w2) \<Rightarrow> Some (Inl e, ids', w2)
                 | Some (Inr _, ids', w2) \<Rightarrow> Some (Inr kSoManyMilliseconds, ids', w2))))"

definition AckDeadline :: "ModAckIterator \<Rightarrow> secs outcome" where
  "AckDeadline it =
     (case Percentile d099 (ackDist it) of
        Inl e \<Rightarrow> Inl e
      | Inr v \<Rightarrow> Inr (min (max (uint v) kMinAckDeadline) kMaxAckDeadline))"

section \<open>One round\<close>

text \<open>
  \<open>ProcessModAcks\<close> takes the pending sets in one critical section and works on its copies after that.
  The rest of the function changes \<open>keepAliveAckIDs\<close> only, which no other thread touches.
\<close>

definition swap_pending :: "ModAckIterator \<Rightarrow> AckIDSet \<times> AckIDSet \<times> ModAckIterator" where
  "swap_pending it =
     (if executorAlive it
      then (pendingAckIDs it, pendingNackIDs it, it\<lparr>pendingAckIDs := [], pendingNackIDs := []\<rparr>)
      else ([], [], it))"

type_synonym round_result = "msecs outcome \<times> ModAckIterator \<times> world"

definition process_swapped ::
  "env \<Rightarrow> stub_call \<Rightarrow> AckIDSet \<Rightarrow> AckIDSet \<Rightarrow> ModAckIterator \<Rightarrow> world \<Rightarrow> round_result option" where
  "process_swapped E call acks nacks it w =
     (let it1 = it\<lparr>keepAliveAckIDs := erase_keys (keepAliveAckIDs it) acks\<rparr>
      in case SendAcks E call (subscriptionName it) acks w of
           None \<Rightarrow> None
         | Some (Inl e, w1) \<Rightarrow> Some (Inl e, it1, w1)
         | Some (Inr _, w1) \<Rightarrow>
             (let it2 = it1\<lparr>keepAliveAckIDs := erase_keys (keepAliveAckIDs it1) nacks\<rparr>
              in case SendNacks E call (subscriptionName it) nacks w1 of
                   None \<Rightarrow> None
                 | Some (Inl e, w2) \<Rightarrow> Some (Inl e, it2, w2)
                 | Some (Inr _, w2) \<Rightarrow>
                     (case AckDeadline it2 of
                        Inl e \<Rightarrow> Some (Inl e, it2, w2)
                      | Inr dl \<Rightarrow>
                          (case ModifyAckDeadlines E call (subscriptionName it) (keepAliveAckIDs it2) dl
                                  (gracePeriod it) w2 of
                             None \<Rightarrow> None
                           | Some (r, ids, w3) \<Rightarrow> Some (r, it2\<lparr>keepAliveAckIDs := ids\<rparr>, w3)))))"

definition iterator_call :: "env \<Rightarrow> ModAckIterator \<Rightarrow> stub_call" where
  "iterator_call E it = make_call E (countPolicy it) (timePolicy it) (ackBackoffPolicy it) kDefaultRPCTimeout"

definition ProcessModAcks :: "env \<Rightarrow> ModAckIterator \<Rightarrow> world \<Rightarrow> round_result option" where
  "ProcessModAcks E it w =
     (case swap_pending it of (acks, nacks, it') \<Rightarrow> process_swapped E (iterator_call E it) acks nacks it' w)"

end
