(* ===== verification/Logging.thy ===== *)
theory Logging
  imports Prelude
begin

text \<open>
  The logger of the library, \<open>pubsuber/src/PSLog.h\<close>. All output goes through one logger in the registry of
  spdlog, which is a parameter: a record of the operations the library calls, over the states \<open>'r\<close> of the
  registry. \<open>spdlog_laws\<close> states what spdlog documents of them. The text of the messages is not modelled.
\<close>

section \<open>The registry\<close>

datatype level_enum = trace | debug | info | warn | err | critical | off

type_synonym sink_ref = nat

record logger =
  lg_name :: string
  lg_sink :: sink_ref
  lg_level :: level_enum

text \<open>
  \<open>sp_stdout\<close> makes a sink that writes to the standard output with a pattern and a level;
  \<open>sp_register\<close> is \<open>register_logger\<close>, \<open>sp_get\<close> is \<open>spdlog::get\<close>, and \<open>sp_set_level\<close> sets the level of
  a logger of the registry.
\<close>

record 'r spdlog =
  sp_stdout :: "string \<Rightarrow> level_enum \<Rightarrow> sink_ref"
  sp_register :: "logger \<Rightarrow> 'r \<Rightarrow> 'r outcome"
  sp_get :: "string \<Rightarrow> 'r \<Rightarrow> logger option"
  sp_set_level :: "string \<Rightarrow> level_enum \<Rightarrow> 'r \<Rightarrow> 'r"

text \<open>A name can be registered once; \<open>register_logger\<close> throws \<open>spdlog_ex\<close> for a name that is taken.\<close>

definition spdlog_laws :: "'r spdlog \<Rightarrow> bool" where
  "spdlog_laws lib \<longleftrightarrow>
     (\<forall>lg r. sp_get lib (lg_name lg) r = None \<longrightarrow>
        (\<exists>r'. sp_register lib lg r = Inr r' \<and> sp_get lib (lg_name lg) r' = Some lg)) \<and>
     (\<forall>lg r. sp_get lib (lg_name lg) r \<noteq> None \<longrightarrow> (\<exists>what. sp_register lib lg r = Inl (RuntimeError what))) \<and>
     (\<forall>n level r. sp_get lib n (sp_set_level lib n level r) =
        map_option (\<lambda>lg. lg\<lparr>lg_level := level\<rparr>) (sp_get lib n r))"

lemma spdlog_lawsD:
  assumes "spdlog_laws lib"
  shows "sp_get lib (lg_name lg) r = None \<Longrightarrow> \<exists>r'. sp_register lib lg r = Inr r' \<and> sp_get lib (lg_name lg) r' = Some lg"
    and "sp_get lib (lg_name lg) r \<noteq> None \<Longrightarrow> \<exists>what. sp_register lib lg r = Inl (RuntimeError what)"
    and "sp_get lib n (sp_set_level lib n level r) = map_option (\<lambda>lg. lg\<lparr>lg_level := level\<rparr>) (sp_get lib n r)"
  using assms by (simp_all add: spdlog_laws_def)

section \<open>Operations\<close>

definition logger_name :: string where
  "logger_name = ''pubsuber''"

text \<open>\<open>get\<close> returns a null pointer for a name that is not registered, and it is dereferenced.\<close>

definition ChangeLevel :: "'r spdlog \<Rightarrow> level_enum \<Rightarrow> 'r \<Rightarrow> 'r outcome" where
  "ChangeLevel lib level r =
     (case sp_get lib logger_name r of
        None \<Rightarrow> Inl (Undefined ''null logger'')
      | Some lg \<Rightarrow> Inr (sp_set_level lib logger_name level r))"

definition Setup :: "'r spdlog \<Rightarrow> sink_ref option \<Rightarrow> level_enum \<Rightarrow> 'r \<Rightarrow> 'r outcome" where
  "Setup lib sink level r =
     (let sink' = (case sink of None \<Rightarrow> sp_stdout lib ''%D-%T.%f [%t] [%L]: %v'' trace | Some s \<Rightarrow> s)
      in case sp_register lib \<lparr>lg_name = logger_name, lg_sink = sink', lg_level = info\<rparr> r of
           Inl e \<Rightarrow> Inl e
         | Inr r1 \<Rightarrow> ChangeLevel lib level r1)"

fun severity :: "level_enum \<Rightarrow> nat" where
  "severity trace = 0"
| "severity debug = 1"
| "severity info = 2"
| "severity warn = 3"
| "severity err = 4"
| "severity critical = 5"
| "severity off = 6"

text \<open>
  The functions \<open>trace\<close>, \<open>debug\<close>, \<open>info\<close> and \<open>error\<close> of the namespace: whether a message of the level
  is passed on to the sink.
\<close>

definition log_at :: "'r spdlog \<Rightarrow> level_enum \<Rightarrow> 'r \<Rightarrow> bool outcome" where
  "log_at lib level r =
     (case sp_get lib logger_name r of
        None \<Rightarrow> Inl (Undefined ''null logger'')
      | Some lg \<Rightarrow> Inr (severity (lg_level lg) \<le> severity level))"

section \<open>Lemmas\<close>

lemma Setup_once:
  assumes "spdlog_laws lib" and "sp_get lib logger_name r = None"
  obtains r' lg where "Setup lib sink level r = Inr r'" and "sp_get lib logger_name r' = Some lg"
    and "lg_level lg = level" and "sink = Some s \<longrightarrow> lg_sink lg = s"
proof -
  let ?lg = "\<lparr>lg_name = logger_name, lg_sink = (case sink of None \<Rightarrow> sp_stdout lib ''%D-%T.%f [%t] [%L]: %v'' trace
    | Some s \<Rightarrow> s), lg_level = info\<rparr>"
  obtain r1 where r1: "sp_register lib ?lg r = Inr r1" "sp_get lib logger_name r1 = Some ?lg"
    using spdlog_lawsD(1) [OF assms(1), of ?lg r] assms(2) by auto
  then show thesis
    by (intro that [of "sp_set_level lib logger_name level r1" "?lg\<lparr>lg_level := level\<rparr>"])
      (simp_all add: Setup_def ChangeLevel_def Let_def spdlog_lawsD(3) [OF assms(1)])
qed

lemma Setup_twice:
  assumes "spdlog_laws lib" and "sp_get lib logger_name r \<noteq> None"
  obtains what where "Setup lib sink level r = Inl (RuntimeError what)"
proof -
  let ?lg = "\<lparr>lg_name = logger_name, lg_sink = (case sink of None \<Rightarrow> sp_stdout lib ''%D-%T.%f [%t] [%L]: %v'' trace
    | Some s \<Rightarrow> s), lg_level = info\<rparr>"
  obtain what where "sp_register lib ?lg r = Inl (RuntimeError what)"
    using spdlog_lawsD(2) [OF assms(1), of ?lg r] assms(2) by auto
  then show thesis by (intro that) (simp add: Setup_def Let_def)
qed

text \<open>Every message at or above the level is logged; \<open>off\<close> silences the four functions of the library.\<close>

lemma Setup_filters:
  assumes "spdlog_laws lib" and "Setup lib sink level r = Inr r'"
  shows "log_at lib l r' = Inr (severity level \<le> severity l)"
proof -
  have "sp_get lib logger_name r = None"
    using assms Setup_twice [OF assms(1), of r sink level] by fastforce
  from Setup_once [OF assms(1) this, of sink level] obtain lg where
    "sp_get lib logger_name r' = Some lg" "lg_level lg = level"
    using assms(2) by (metis Inr_inject)
  then show ?thesis by (simp add: log_at_def)
qed

section \<open>An example\<close>

definition demo_spdlog :: "(string \<rightharpoonup> logger) spdlog" where
  "demo_spdlog = \<lparr>sp_stdout = (\<lambda>pattern level. 0),
     sp_register = (\<lambda>lg r. if r (lg_name lg) = None then Inr (r(lg_name lg \<mapsto> lg))
       else Inl (RuntimeError (''logger with name '' @ lg_name lg @ '' already exists''))),
     sp_get = (\<lambda>n r. r n),
     sp_set_level = (\<lambda>n level r. r(n := map_option (\<lambda>lg. lg\<lparr>lg_level := level\<rparr>) (r n)))\<rparr>"

lemma demo_spdlog_laws: "spdlog_laws demo_spdlog"
  by (simp add: spdlog_laws_def demo_spdlog_def)

end
