(* ===== verification/Executors.thy ===== *)
theory Executors
  imports Threads ModAck Logging
begin

text \<open>
  The state and the thread-safe operations of \<open>Executor\<close> (\<open>pubsuber/src/Executor.h\<close>,
  \<open>Executor.cpp\<close>), with the options of the client (\<open>ClientOptions\<close> of
  \<open>pubsuber/include/pubsuber/Pubsuber.h\<close>, \<open>Pubsuber.cpp\<close>), the transport \<open>Trimpl\<close> and the data of
  a \<open>SubscriptionPullIterator\<close>. The loops of its two threads are in \<open>Loops\<close>.

  A \<open>ModAckIterator\<close> is shared, so it lives in the heap \<open>ack_heap\<close> and a pointer to it is its index
  there. A weak pointer can be locked as long as one of the four iterator maps owns the object.
\<close>

section \<open>Options and transport\<close>

record ClientOptions =
  opt_project :: string
  pubsubHost :: string
  secureChannel :: bool
  opt_maxMessagePrefetch :: int
  logSink :: "sink_ref option"
  metricSink :: "sink_ref option"
  logLevel :: level_enum

definition DefaultPubsubHost :: string where
  "DefaultPubsubHost = ''pubsub.googleapis.com''"

definition new_ClientOptions :: "string \<Rightarrow> string \<Rightarrow> bool \<Rightarrow> int \<Rightarrow> ClientOptions" where
  "new_ClientOptions project host secure prefetch =
     \<lparr>opt_project = project, pubsubHost = host, secureChannel = secure, opt_maxMessagePrefetch = prefetch,
      logSink = None, metricSink = None, logLevel = info\<rparr>"

definition CreateDefault :: "string \<Rightarrow> ClientOptions" where
  "CreateDefault project = new_ClientOptions project DefaultPubsubHost True 4"

definition SetHost :: "string \<Rightarrow> ClientOptions \<Rightarrow> ClientOptions" where
  "SetHost host opts = opts\<lparr>pubsubHost := host\<rparr>"

definition SetSecureChannel :: "bool \<Rightarrow> ClientOptions \<Rightarrow> ClientOptions" where
  "SetSecureChannel secure opts = opts\<lparr>secureChannel := secure\<rparr>"

definition SetMaxPrefetch :: "int \<Rightarrow> ClientOptions \<Rightarrow> ClientOptions" where
  "SetMaxPrefetch n opts = opts\<lparr>opt_maxMessagePrefetch := n\<rparr>"

definition SetLogSink :: "sink_ref option \<Rightarrow> ClientOptions \<Rightarrow> ClientOptions" where
  "SetLogSink sink opts = opts\<lparr>logSink := sink\<rparr>"

definition SetMetricSink :: "sink_ref option \<Rightarrow> ClientOptions \<Rightarrow> ClientOptions" where
  "SetMetricSink sink opts = opts\<lparr>metricSink := sink\<rparr>"

definition SetLogLevel :: "level_enum \<Rightarrow> ClientOptions \<Rightarrow> ClientOptions" where
  "SetLogLevel level opts = opts\<lparr>logLevel := level\<rparr>"

datatype credentials = GoogleDefaultCredentials | InsecureChannelCredentials

record channel =
  ch_host :: string
  ch_creds :: credentials
  ch_max_receive :: nat
  ch_max_send :: nat

record Trimpl =
  tr_creds :: credentials
  tr_channel :: "channel option"

definition new_Trimpl :: Trimpl where
  "new_Trimpl = \<lparr>tr_creds = GoogleDefaultCredentials, tr_channel = None\<rparr>"

definition kMaxSendRecvBytes :: nat where
  "kMaxSendRecvBytes = 20 * 1024 * 1024"

section \<open>State\<close>

type_synonym iterator_ref = nat
type_synonym callback_ref = nat

record SubscriptionPullIterator =
  pi_subscriptionName :: string
  pi_maxMessagePrefetch :: int
  pi_callback :: callback_ref
  pi_ackIterator :: iterator_ref

definition new_SubscriptionPullIterator ::
  "string \<Rightarrow> int \<Rightarrow> callback_ref \<Rightarrow> iterator_ref \<Rightarrow> SubscriptionPullIterator" where
  "new_SubscriptionPullIterator name prefetch cb it =
     \<lparr>pi_subscriptionName = name, pi_maxMessagePrefetch = prefetch, pi_callback = cb, pi_ackIterator = it\<rparr>"

record Executor =
  exec_options :: ClientOptions
  exec_tr :: Trimpl
  exec_countPolicy :: RetryCountPolicy
  exec_timePolicy :: MaxRetryTimePolicy
  exec_backoffPolicy :: ExponentialBackoffPolicy
  ackThread :: "iterator_ref ThreadDataBlock"
  pullThread :: "SubscriptionPullIterator ThreadDataBlock"
  metricsSinks :: "sink_ref option"
  metrics_reported :: "(sink_ref \<times> nat) list"
  ack_heap :: "ModAckIterator list"

definition new_Executor :: "ClientOptions \<Rightarrow> Executor" where
  "new_Executor opts =
     (let creds = (if secureChannel opts then tr_creds new_Trimpl else InsecureChannelCredentials)
      in \<lparr>exec_options = opts,
          exec_tr = \<lparr>tr_creds = creds,
            tr_channel = Some \<lparr>ch_host = pubsubHost opts, ch_creds = creds,
              ch_max_receive = kMaxSendRecvBytes, ch_max_send = kMaxSendRecvBytes\<rparr>\<rparr>,
          exec_countPolicy = default_RetryCountPolicy,
          exec_timePolicy = default_MaxRetryTimePolicy,
          exec_backoffPolicy = default_ExponentialBackoffPolicy,
          ackThread = new_ThreadDataBlock, pullThread = new_ThreadDataBlock,
          metricsSinks = metricSink opts, metrics_reported = [], ack_heap = []\<rparr>)"

text \<open>The constructor sets the logger up first; nothing was started when that throws.\<close>

definition SetupLogger :: "'r spdlog \<Rightarrow> ClientOptions \<Rightarrow> 'r \<Rightarrow> 'r outcome" where
  "SetupLogger lib opts r = Setup lib (logSink opts) (logLevel opts) r"

definition construct_Executor :: "'r spdlog \<Rightarrow> ClientOptions \<Rightarrow> 'r \<Rightarrow> (Executor \<times> 'r) outcome" where
  "construct_Executor lib opts r =
     (case SetupLogger lib opts r of
        Inl e \<Rightarrow> Inl e
      | Inr r' \<Rightarrow> Inr (new_Executor opts, r'))"

definition upd_ackThread ::
  "(iterator_ref ThreadDataBlock \<Rightarrow> iterator_ref ThreadDataBlock) \<Rightarrow> Executor \<Rightarrow> Executor" where
  "upd_ackThread f ex = ex\<lparr>ackThread := f (ackThread ex)\<rparr>"

definition upd_pullThread ::
  "(SubscriptionPullIterator ThreadDataBlock \<Rightarrow> SubscriptionPullIterator ThreadDataBlock) \<Rightarrow> Executor \<Rightarrow> Executor" where
  "upd_pullThread f ex = ex\<lparr>pullThread := f (pullThread ex)\<rparr>"

definition iterator_at :: "Executor \<Rightarrow> iterator_ref \<Rightarrow> ModAckIterator" where
  "iterator_at ex p = ack_heap ex ! p"

definition upd_iterator :: "iterator_ref \<Rightarrow> (ModAckIterator \<Rightarrow> ModAckIterator) \<Rightarrow> Executor \<Rightarrow> Executor" where
  "upd_iterator p f ex = ex\<lparr>ack_heap := (ack_heap ex)[p := f (ack_heap ex ! p)]\<rparr>"

definition ack_refs :: "iterator_ref ThreadDataBlock \<Rightarrow> iterator_ref list" where
  "ack_refs b = map snd (inputIterators b) @ map snd (activeIterators b)"

definition pull_refs :: "SubscriptionPullIterator ThreadDataBlock \<Rightarrow> iterator_ref list" where
  "pull_refs b = map (pi_ackIterator \<circ> snd) (inputIterators b) @ map (pi_ackIterator \<circ> snd) (activeIterators b)"

definition owned :: "Executor \<Rightarrow> iterator_ref \<Rightarrow> bool" where
  "owned ex p \<longleftrightarrow> p \<in> set (ack_refs (ackThread ex)) \<or> p \<in> set (pull_refs (pullThread ex))"

section \<open>Operations\<close>

definition ApplyPolicies ::
  "RetryCountPolicy \<Rightarrow> MaxRetryTimePolicy \<Rightarrow> ExponentialBackoffPolicy \<Rightarrow> Executor \<Rightarrow> Executor" where
  "ApplyPolicies cp tp bp ex =
     ex\<lparr>exec_countPolicy := cp, exec_timePolicy := tp, exec_backoffPolicy := bp\<rparr>"

text \<open>
  \<open>AddIterator\<close> is two critical sections: the pull thread gets its iterator before the ack thread does.
  \<open>memory\<close> is what the histogram of the new iterator finds in its counters.
\<close>

definition AddIterator_pull ::
  "hist \<Rightarrow> string \<Rightarrow> callback_ref option \<Rightarrow> Executor \<Rightarrow> (iterator_ref \<times> Executor) outcome" where
  "AddIterator_pull memory fullSubscriptionName callback ex =
     (case callback of
        None \<Rightarrow> Inl (Exception ''Pubsuber: callback must be set'')
      | Some cb \<Rightarrow>
          if fullSubscriptionName = [] then Inl (Exception ''Pubsuber: subscription name must be set'')
          else
            (let ackIterator = length (ack_heap ex);
                 ex1 = ex\<lparr>ack_heap := ack_heap ex @ [new_ModAckIterator fullSubscriptionName memory
                            (exec_countPolicy ex) (exec_timePolicy ex) (exec_backoffPolicy ex)]\<rparr>;
                 pullIterator = new_SubscriptionPullIterator fullSubscriptionName
                            (opt_maxMessagePrefetch (exec_options ex)) cb ackIterator
             in Inr (ackIterator, upd_pullThread (block_AddIterator fullSubscriptionName pullIterator) ex1)))"

definition AddIterator_ack :: "string \<Rightarrow> iterator_ref \<Rightarrow> Executor \<Rightarrow> Executor" where
  "AddIterator_ack fullSubscriptionName ackIterator ex =
     upd_ackThread (block_AddIterator fullSubscriptionName ackIterator) ex"

definition AddIterator ::
  "hist \<Rightarrow> string \<Rightarrow> callback_ref option \<Rightarrow> Executor \<Rightarrow> unit outcome \<times> Executor" where
  "AddIterator memory fullSubscriptionName callback ex =
     (case AddIterator_pull memory fullSubscriptionName callback ex of
        Inl e \<Rightarrow> (Inl e, ex)
      | Inr (ackIterator, ex1) \<Rightarrow> (Inr (), AddIterator_ack fullSubscriptionName ackIterator ex1))"

definition RemoveIterator :: "string \<Rightarrow> Executor \<Rightarrow> Executor" where
  "RemoveIterator fullSubscriptionName ex =
     upd_ackThread (block_RemoveIterator fullSubscriptionName)
       (upd_pullThread (block_RemoveIterator fullSubscriptionName) ex)"

definition ReportKeepAliveMetric :: "nat \<Rightarrow> Executor \<Rightarrow> Executor" where
  "ReportKeepAliveMetric count ex =
     (case metricsSinks ex of
        None \<Rightarrow> ex
      | Some sink \<Rightarrow> ex\<lparr>metrics_reported := (sink, count) # metrics_reported ex\<rparr>)"

definition clear_active :: "'it ThreadDataBlock \<Rightarrow> 'it ThreadDataBlock" where
  "clear_active b = b\<lparr>activeIterators := []\<rparr>"

text \<open>\<open>pull_rest\<close> and \<open>ack_rest\<close> are what the threads do until they end.\<close>

definition StopThreads :: "(Executor \<Rightarrow> Executor) \<Rightarrow> (Executor \<Rightarrow> Executor) \<Rightarrow> Executor \<Rightarrow> Executor" where
  "StopThreads pull_rest ack_rest ex =
     (let ex1 = Stop pull_rest upd_pullThread ex;
          ex2 = Stop ack_rest upd_ackThread ex1;
          ex3 = upd_pullThread ClearRemoved (upd_pullThread clear_active (upd_pullThread ClearInput ex2))
      in upd_ackThread ClearRemoved (upd_ackThread clear_active (upd_ackThread ClearInput ex3)))"

section \<open>Well-formed executors\<close>

text \<open>
  Every pointer is one into the heap, and the iterators of a subscription carry its name.
\<close>

definition ack_entry_ok :: "ModAckIterator list \<Rightarrow> string \<Rightarrow> iterator_ref \<Rightarrow> bool" where
  "ack_entry_ok hp n p \<longleftrightarrow> p < length hp \<and> subscriptionName (hp ! p) = n"

definition pull_entry_ok :: "ModAckIterator list \<Rightarrow> string \<Rightarrow> SubscriptionPullIterator \<Rightarrow> bool" where
  "pull_entry_ok hp n it \<longleftrightarrow> pi_subscriptionName it = n \<and> ack_entry_ok hp n (pi_ackIterator it)"

definition exec_ok :: "Executor \<Rightarrow> bool" where
  "exec_ok ex \<longleftrightarrow> block_ok (ackThread ex) \<and> block_ok (pullThread ex) \<and>
     all_entries (ack_entry_ok (ack_heap ex)) (ackThread ex) \<and>
     all_entries (pull_entry_ok (ack_heap ex)) (pullThread ex)"

lemma entry_ok_append:
  "ack_entry_ok hp n p \<Longrightarrow> ack_entry_ok (hp @ [it]) n p"
  "pull_entry_ok hp n pit \<Longrightarrow> pull_entry_ok (hp @ [it]) n pit"
  by (auto simp: ack_entry_ok_def pull_entry_ok_def nth_append)

lemma exec_ok_new: "exec_ok (new_Executor opts)"
  by (simp add: exec_ok_def new_Executor_def Let_def)

lemma AddIterator_pull_result:
  assumes "AddIterator_pull memory name cb ex = Inr (p, ex')"
  obtains c where "cb = Some c" and "name \<noteq> []" and "p = length (ack_heap ex)"
    and "ack_heap ex' = ack_heap ex @
      [new_ModAckIterator name memory (exec_countPolicy ex) (exec_timePolicy ex) (exec_backoffPolicy ex)]"
    and "ackThread ex' = ackThread ex"
    and "pullThread ex' = block_AddIterator name
      (new_SubscriptionPullIterator name (opt_maxMessagePrefetch (exec_options ex)) c p) (pullThread ex)"
  using assms by (auto simp: AddIterator_pull_def Let_def upd_pullThread_def split: option.splits if_splits)

lemma exec_ok_AddIterator_pull:
  assumes "exec_ok ex" and "AddIterator_pull memory name cb ex = Inr (p, ex')"
  shows "exec_ok ex'" and "ack_entry_ok (ack_heap ex') name p"
proof -
  obtain c where r: "p = length (ack_heap ex)"
    "ack_heap ex' = ack_heap ex @
      [new_ModAckIterator name memory (exec_countPolicy ex) (exec_timePolicy ex) (exec_backoffPolicy ex)]"
    "ackThread ex' = ackThread ex" "pullThread ex' = block_AddIterator name
      (new_SubscriptionPullIterator name (opt_maxMessagePrefetch (exec_options ex)) c p) (pullThread ex)"
    using assms(2) by (rule AddIterator_pull_result) (rule that)
  have old: "all_entries (ack_entry_ok (ack_heap ex')) (ackThread ex)"
    "all_entries (pull_entry_ok (ack_heap ex')) (pullThread ex)"
    using assms(1) by (auto simp: exec_ok_def r elim!: all_entries_mono intro: entry_ok_append)
  show p: "ack_entry_ok (ack_heap ex') name p"
    by (simp add: ack_entry_ok_def r new_ModAckIterator_def)
  have "pull_entry_ok (ack_heap ex') name
      (new_SubscriptionPullIterator name (opt_maxMessagePrefetch (exec_options ex)) c p)"
    using p by (simp add: pull_entry_ok_def new_SubscriptionPullIterator_def)
  with old assms(1) show "exec_ok ex'"
    by (simp add: exec_ok_def r(3,4) all_entries_ops(1))
qed

lemma exec_ok_AddIterator_ack:
  "exec_ok ex \<Longrightarrow> ack_entry_ok (ack_heap ex) name p \<Longrightarrow> exec_ok (AddIterator_ack name p ex)"
  by (simp add: AddIterator_ack_def exec_ok_def upd_ackThread_def all_entries_ops(1))

lemma exec_ok_AddIterator:
  assumes "exec_ok ex" and "AddIterator memory name cb ex = (r, ex')"
  shows "exec_ok ex'"
  using assms
  by (auto simp: AddIterator_def intro: exec_ok_AddIterator_ack exec_ok_AddIterator_pull split: sum.splits)

lemma exec_ok_threads [simp, intro]:
  assumes "exec_ok ex"
  shows "exec_ok (upd_ackThread (block_RemoveIterator n) ex)" "exec_ok (upd_pullThread (block_RemoveIterator n) ex)"
    "exec_ok (upd_ackThread MergeInputToActive ex)" "exec_ok (upd_pullThread MergeInputToActive ex)"
    "exec_ok (upd_ackThread RemoveFromActive ex)" "exec_ok (upd_pullThread RemoveFromActive ex)"
  using assms by (simp_all add: exec_ok_def upd_ackThread_def upd_pullThread_def all_entries_ops)

text \<open>Both threads start a round: removals first, then the new iterators.\<close>

definition both_rounds :: "Executor \<Rightarrow> Executor" where
  "both_rounds ex = upd_ackThread MergeInputToActive (upd_ackThread RemoveFromActive
     (upd_pullThread MergeInputToActive (upd_pullThread RemoveFromActive ex)))"

lemma both_rounds_simps [simp]:
  "pullThread (both_rounds ex) = MergeInputToActive (RemoveFromActive (pullThread ex))"
  "ackThread (both_rounds ex) = MergeInputToActive (RemoveFromActive (ackThread ex))"
  "ack_heap (both_rounds ex) = ack_heap ex"
  by (simp_all add: both_rounds_def upd_ackThread_def upd_pullThread_def)

lemma exec_ok_both_rounds: "exec_ok ex \<Longrightarrow> exec_ok (both_rounds ex)"
  by (simp add: both_rounds_def)

lemma RemoveIterator_simps [simp]:
  "pullThread (RemoveIterator n ex) = block_RemoveIterator n (pullThread ex)"
  "ackThread (RemoveIterator n ex) = block_RemoveIterator n (ackThread ex)"
  "ack_heap (RemoveIterator n ex) = ack_heap ex"
  by (simp_all add: RemoveIterator_def upd_ackThread_def upd_pullThread_def)

text \<open>An iterator is filed under its own name only, so it has no owner when its name is not in use.\<close>

lemma owned_iff: "owned ex p \<longleftrightarrow>
    (\<exists>n. (n, p) \<in> set (inputIterators (ackThread ex)) \<union> set (activeIterators (ackThread ex))) \<or>
    (\<exists>n it. (n, it) \<in> set (inputIterators (pullThread ex)) \<union> set (activeIterators (pullThread ex)) \<and>
      pi_ackIterator it = p)"
  by (force simp: owned_def ack_refs_def pull_refs_def image_iff)

lemma not_owned:
  assumes ok: "exec_ok ex" and name: "subscriptionName (ack_heap ex ! p) = name"
    and pull: "name \<notin> fst ` set (inputIterators (pullThread ex)) \<union> fst ` set (activeIterators (pullThread ex))"
    and ack: "name \<notin> fst ` set (inputIterators (ackThread ex)) \<union> fst ` set (activeIterators (ackThread ex))"
  shows "\<not> owned ex p"
proof
  assume "owned ex p"
  then consider n where "(n, p) \<in> set (inputIterators (ackThread ex)) \<union> set (activeIterators (ackThread ex))"
    | n it where "(n, it) \<in> set (inputIterators (pullThread ex)) \<union> set (activeIterators (pullThread ex))"
      "pi_ackIterator it = p"
    unfolding owned_iff by blast
  then show False
  proof cases
    case 1
    then have "ack_entry_ok (ack_heap ex) n p" using ok unfolding exec_ok_def all_entries_def by blast
    with 1 name ack show False by (auto simp: ack_entry_ok_def image_iff)
  next
    case 2
    then have "pull_entry_ok (ack_heap ex) n it" using ok unfolding exec_ok_def all_entries_def by blast
    with 2 name pull show False by (auto simp: ack_entry_ok_def pull_entry_ok_def image_iff)
  qed
qed

lemma exec_ok_ApplyPolicies [simp]: "exec_ok (ApplyPolicies cp tp bp ex) = exec_ok ex"
  by (simp add: exec_ok_def ApplyPolicies_def)

lemma exec_ok_RemoveIterator: "exec_ok ex \<Longrightarrow> exec_ok (RemoveIterator n ex)"
  by (simp add: RemoveIterator_def)

lemma name_list_update:
  "subscriptionName (f (hp ! p)) = subscriptionName (hp ! p) \<Longrightarrow> q < length hp \<Longrightarrow>
    subscriptionName (hp[p := f (hp ! p)] ! q) = subscriptionName (hp ! q)"
  by (cases "q = p") simp_all

lemma entry_ok_update:
  assumes "subscriptionName (f (hp ! p)) = subscriptionName (hp ! p)"
  shows "ack_entry_ok (hp[p := f (hp ! p)]) = ack_entry_ok hp"
    and "pull_entry_ok (hp[p := f (hp ! p)]) = pull_entry_ok hp"
proof -
  note names = name_list_update [of f hp p, OF assms]
  from names show 1: "ack_entry_ok (hp[p := f (hp ! p)]) = ack_entry_ok hp"
    by (auto simp: fun_eq_iff ack_entry_ok_def)
  show "pull_entry_ok (hp[p := f (hp ! p)]) = pull_entry_ok hp"
    by (simp add: fun_eq_iff pull_entry_ok_def 1)
qed

lemma exec_ok_upd_iterator:
  assumes "exec_ok ex" and "subscriptionName (f (iterator_at ex p)) = subscriptionName (iterator_at ex p)"
  shows "exec_ok (upd_iterator p f ex)"
  using assms by (simp add: exec_ok_def upd_iterator_def iterator_at_def entry_ok_update)

text \<open>A stopped executor owns no iterator.\<close>

lemma StopThreads_owns_nothing: "\<not> owned (StopThreads pull_rest ack_rest ex) p"
  by (simp add: StopThreads_def Let_def owned_def ack_refs_def pull_refs_def upd_ackThread_def upd_pullThread_def
      ClearInput_def ClearRemoved_def clear_active_def ExecuteUnderMutex_def)

text \<open>
  A receiver that was added under a free name is active in both threads after their next round, and
  both have the same acknowledgement iterator.
\<close>

lemma AddIterator_takes_effect:
  assumes ok: "exec_ok ex" and name: "name \<noteq> []"
    and free: "map_of (activeIterators (pullThread ex)) name = None" "map_of (activeIterators (ackThread ex)) name = None"
    and add: "AddIterator memory name (Some cb) ex = (r, ex')"
  obtains it where "r = Inr ()" and "pi_callback it = cb" and "pi_subscriptionName it = name"
    and "map_of (activeIterators (MergeInputToActive (RemoveFromActive (pullThread ex')))) name = Some it"
    and "map_of (activeIterators (MergeInputToActive (RemoveFromActive (ackThread ex')))) name = Some (pi_ackIterator it)"
    and "iterator_at ex' (pi_ackIterator it) =
      new_ModAckIterator name memory (exec_countPolicy ex) (exec_timePolicy ex) (exec_backoffPolicy ex)"
proof -
  let ?it = "new_SubscriptionPullIterator name (opt_maxMessagePrefetch (exec_options ex)) cb (length (ack_heap ex))"
  have blocks: "pullThread ex' = block_AddIterator name ?it (pullThread ex)"
    "ackThread ex' = block_AddIterator name (length (ack_heap ex)) (ackThread ex)" "r = Inr ()"
    using add name
    by (auto simp: AddIterator_def AddIterator_pull_def AddIterator_ack_def Let_def upd_ackThread_def upd_pullThread_def)
  have "iterator_at ex' (length (ack_heap ex)) =
      new_ModAckIterator name memory (exec_countPolicy ex) (exec_timePolicy ex) (exec_backoffPolicy ex)"
    using add name
    by (auto simp: AddIterator_def AddIterator_pull_def AddIterator_ack_def Let_def upd_ackThread_def
        upd_pullThread_def iterator_at_def)
  moreover have "block_ok (pullThread ex)" "block_ok (ackThread ex)" using ok by (simp_all add: exec_ok_def)
  ultimately show thesis
    using blocks block.add_takes_effect [OF _ free(1), of ?it]
      block.add_takes_effect [OF _ free(2), of "length (ack_heap ex)"]
    by (intro that [of ?it]) (simp_all add: block.thread_round_def new_SubscriptionPullIterator_def)
qed

text \<open>
  A removal takes effect in both threads with their next round, if no new iterator is waiting under the
  name; all other active receivers stay.
\<close>

lemma removal_takes_effect:
  assumes "exec_ok ex" and "map_of (inputIterators (pullThread ex)) name = None"
    and "map_of (inputIterators (ackThread ex)) name = None"
  shows "map_of (activeIterators (MergeInputToActive (RemoveFromActive (pullThread (RemoveIterator name ex))))) name = None \<and>
    map_of (activeIterators (MergeInputToActive (RemoveFromActive (ackThread (RemoveIterator name ex))))) name = None \<and>
    (\<forall>n it. n \<noteq> name \<longrightarrow> n \<notin> set (removedIterators (pullThread ex)) \<longrightarrow>
       map_of (activeIterators (pullThread ex)) n = Some it \<longrightarrow>
       map_of (activeIterators (MergeInputToActive (RemoveFromActive (pullThread (RemoveIterator name ex))))) n = Some it)"
proof -
  have ok: "block_ok (pullThread ex)" "block_ok (ackThread ex)" using assms(1) by (simp_all add: exec_ok_def)
  have ex': "pullThread (RemoveIterator name ex) = block_RemoveIterator name (pullThread ex)"
    "ackThread (RemoveIterator name ex) = block_RemoveIterator name (ackThread ex)"
    by (simp_all add: RemoveIterator_def upd_ackThread_def upd_pullThread_def)
  have "map_of (activeIterators (MergeInputToActive (RemoveFromActive (pullThread (RemoveIterator name ex))))) n = Some it"
    if "n \<noteq> name" "n \<notin> set (removedIterators (pullThread ex))" "map_of (activeIterators (pullThread ex)) n = Some it" for n it
    using block.active_thread_round [of "block_RemoveIterator name (pullThread ex)" n] ok(1) that
    by (simp add: ex' block.thread_round_def block.active_remove block.removed_remove)
  with block.remove_takes_effect [OF ok(1) assms(2)] block.remove_takes_effect [OF ok(2) assms(3)] show ?thesis
    by (simp add: ex' block.thread_round_def)
qed

lemma removed_not_owned:
  assumes "exec_ok ex" and name: "subscriptionName (ack_heap ex ! p) = name"
    and "map_of (inputIterators (pullThread ex)) name = None" and "map_of (inputIterators (ackThread ex)) name = None"
  shows "\<not> owned (both_rounds (RemoveIterator name ex)) p"
proof (rule not_owned)
  show "exec_ok (both_rounds (RemoveIterator name ex))"
    using assms(1) by (intro exec_ok_both_rounds exec_ok_RemoveIterator)
  have merged: "inputIterators (MergeInputToActive b) = []" for b :: "'it ThreadDataBlock"
    by (simp add: MergeInputToActive_def)
  let ?ex = "both_rounds (RemoveIterator name ex)"
  show "name \<notin> fst ` set (inputIterators (pullThread ?ex)) \<union> fst ` set (activeIterators (pullThread ?ex))"
    "name \<notin> fst ` set (inputIterators (ackThread ?ex)) \<union> fst ` set (activeIterators (ackThread ?ex))"
    using removal_takes_effect [OF assms(1,3,4)] by (simp_all add: merged map_of_eq_None_iff)
qed (simp add: name)

section \<open>Properties\<close>

text \<open>
  A receiver added under a name that is free becomes active in both threads with their next round: the
  pull thread has the user's callback, and the ack thread has the very iterator the pulled messages report
  to, with the policies of the executor.
\<close>

lemma receiver_becomes_active:
  assumes "exec_ok ex" and "name \<noteq> []"
    and "map_of (activeIterators (pullThread ex)) name = None" and "map_of (activeIterators (ackThread ex)) name = None"
  shows "\<exists>ex' it. AddIterator memory name (Some cb) ex = (Inr (), ex') \<and> exec_ok ex' \<and>
    map_of (activeIterators (MergeInputToActive (RemoveFromActive (pullThread ex')))) name = Some it \<and>
    map_of (activeIterators (MergeInputToActive (RemoveFromActive (ackThread ex')))) name = Some (pi_ackIterator it) \<and>
    pi_callback it = cb \<and> pi_subscriptionName it = name \<and>
    iterator_at ex' (pi_ackIterator it) =
      new_ModAckIterator name memory (exec_countPolicy ex) (exec_timePolicy ex) (exec_backoffPolicy ex)"
proof -
  obtain r ex' where add: "AddIterator memory name (Some cb) ex = (r, ex')"
    by (cases "AddIterator memory name (Some cb) ex")
  have "exec_ok ex'" using assms(1) add by (rule exec_ok_AddIterator)
  obtain it where "r = Inr ()" "pi_callback it = cb" "pi_subscriptionName it = name"
    "map_of (activeIterators (MergeInputToActive (RemoveFromActive (pullThread ex')))) name = Some it"
    "map_of (activeIterators (MergeInputToActive (RemoveFromActive (ackThread ex')))) name = Some (pi_ackIterator it)"
    "iterator_at ex' (pi_ackIterator it) =
      new_ModAckIterator name memory (exec_countPolicy ex) (exec_timePolicy ex) (exec_backoffPolicy ex)"
    using assms add by (rule AddIterator_takes_effect) (rule that)
  with add \<open>exec_ok ex'\<close> show ?thesis by (intro exI [of _ ex'] exI [of _ it]) simp
qed

lemma new_Executor_free:
  "map_of (activeIterators (pullThread (new_Executor opts))) n = None"
  "map_of (activeIterators (ackThread (new_Executor opts))) n = None"
  by (simp_all add: new_Executor_def Let_def new_ThreadDataBlock_def)

lemma receiver_becomes_active_witness:
  "\<exists>ex' it. AddIterator (replicate HighLimit 0) ''sub'' (Some 0) (new_Executor (CreateDefault ''p'')) = (Inr (), ex') \<and> exec_ok ex' \<and>
    map_of (activeIterators (MergeInputToActive (RemoveFromActive (pullThread ex')))) ''sub'' = Some it \<and>
    map_of (activeIterators (MergeInputToActive (RemoveFromActive (ackThread ex')))) ''sub'' = Some (pi_ackIterator it) \<and>
    pi_callback it = 0 \<and> pi_subscriptionName it = ''sub'' \<and>
    iterator_at ex' (pi_ackIterator it) = new_ModAckIterator ''sub'' (replicate HighLimit 0) (exec_countPolicy (new_Executor (CreateDefault ''p'')))
      (exec_timePolicy (new_Executor (CreateDefault ''p''))) (exec_backoffPolicy (new_Executor (CreateDefault ''p'')))"
  by (rule receiver_becomes_active) (simp_all add: exec_ok_new new_Executor_free)

text \<open>
  C32. A receiver that is stopped before the threads merged it is not stopped: \<open>RemoveIterator\<close> only names
  active iterators, so the next round drops the name from the active ones first and then merges the new
  iterator, which keeps pulling.
\<close>

theorem stop_before_merge_is_lost:
  assumes "exec_ok ex" and "name \<noteq> []" and "AddIterator memory name (Some cb) ex = (r, ex1)"
  shows "\<exists>it. map_of (activeIterators (MergeInputToActive (RemoveFromActive (pullThread (RemoveIterator name ex1))))) name
    = Some it \<and> pi_callback it = cb"
proof -
  obtain it where it: "pullThread ex1 = block_AddIterator name it (pullThread ex)" "pi_callback it = cb"
    using assms(2,3)
    by (auto simp: AddIterator_def AddIterator_pull_def AddIterator_ack_def Let_def upd_ackThread_def
        upd_pullThread_def new_SubscriptionPullIterator_def)
  have "block_ok (pullThread ex)" using assms(1) by (simp add: exec_ok_def)
  then have "block_ok (pullThread ex1)" "map_of (inputIterators (pullThread ex1)) name = Some it"
    by (simp_all add: it(1) block.input_add)
  from block.remove_before_merge [OF this] it(2) show ?thesis
    by (simp add: block.thread_round_def RemoveIterator_def upd_ackThread_def upd_pullThread_def)
qed

theorem stop_before_merge_is_lost_witness:
  "\<exists>it. map_of (activeIterators (MergeInputToActive (RemoveFromActive (pullThread
      (RemoveIterator ''sub'' (snd (AddIterator (replicate HighLimit 0) ''sub'' (Some 0) (new_Executor (CreateDefault ''p''))))))))) ''sub''
    = Some it \<and> pi_callback it = 0"
  by (rule stop_before_merge_is_lost [where r = "fst (AddIterator (replicate HighLimit 0) ''sub'' (Some 0) (new_Executor (CreateDefault ''p'')))"])
    (simp_all add: exec_ok_new)

text \<open>
  C33. A receiver that is replaced (stopped and started again) between the two critical sections of a round
  is lost: the merge keeps the old iterator and drops the new one, and the next round removes the old one.
\<close>

theorem replacement_between_sections_is_lost:
  assumes "block_ok b" and "map_of (activeIterators b) name = Some old" and "removedIterators b = []"
  shows "map_of (activeIterators (MergeInputToActive (block_AddIterator name it (block_RemoveIterator name
      (RemoveFromActive b))))) name = Some old \<and>
    map_of (activeIterators (MergeInputToActive (RemoveFromActive (MergeInputToActive (block_AddIterator name it
      (block_RemoveIterator name (RemoveFromActive b))))))) name = None"
  using block.late_replacement_lost [OF assms(1,2)] assms(3) unfolding block.thread_round_def by simp

theorem replacement_between_sections_is_lost_witness:
  "map_of (activeIterators (MergeInputToActive (block_AddIterator ''sub'' (2 :: nat) (block_RemoveIterator ''sub''
      (RemoveFromActive \<lparr>needStop = False, inputIterators = [], removedIterators = [], activeIterators = [(''sub'', 1)]\<rparr>)))))
      ''sub'' = Some 1 \<and>
    map_of (activeIterators (MergeInputToActive (RemoveFromActive (MergeInputToActive (block_AddIterator ''sub'' (2 :: nat)
      (block_RemoveIterator ''sub'' (RemoveFromActive
        \<lparr>needStop = False, inputIterators = [], removedIterators = [], activeIterators = [(''sub'', 1)]\<rparr>))))))) ''sub'' = None"
  by (rule replacement_between_sections_is_lost) (simp_all add: block_ok_def um_ok_def us_ok_def)

text \<open>
  A stopped executor owns no iterator any more, whatever its threads did until they ended, so no message
  that is still out can reach one. \<open>Shutdown\<close> shows the same step by step.
\<close>

theorem StopThreads_releases_everything:
  "\<not> owned (StopThreads pull_rest ack_rest ex) p \<and>
    inputIterators (pullThread (StopThreads pull_rest ack_rest ex)) = [] \<and>
    activeIterators (pullThread (StopThreads pull_rest ack_rest ex)) = [] \<and>
    inputIterators (ackThread (StopThreads pull_rest ack_rest ex)) = [] \<and>
    activeIterators (ackThread (StopThreads pull_rest ack_rest ex)) = []"
  using StopThreads_owns_nothing [of pull_rest ack_rest ex p]
  by (simp add: StopThreads_def Let_def upd_ackThread_def upd_pullThread_def
      ClearInput_def ClearRemoved_def clear_active_def ExecuteUnderMutex_def)

end
