(* ===== verification/Batches.thy ===== *)
theory Batches
  imports ModAck "HOL-Library.Multiset"
begin

text \<open>
  The batch loop of \<open>ModAckIterator.cpp\<close> and what its three users send: no id is lost, none is sent in
  two accepted requests, every request stays below the payload limit. The loop ends for ids that fit
  into a request and never ends once an id does not.

  \<open>batch_sender\<close> is the contract of one batch; the three actions of the iterator are its
  instances inside \<open>transport\<close>.
\<close>

section \<open>Splitting off a batch\<close>

definition fits :: "('a \<Rightarrow> string) \<Rightarrow> 'a list \<Rightarrow> bool" where
  "fits key ids = (\<forall>x\<in>set ids. 100 + id_cost key x < unat kMaxPayload)"

lemma unat_kMaxPayload [simp]: "unat kMaxPayload = 524288"
  by (simp add: kMaxPayload_def)

lemma fits_no_wrap: "fits key ids \<Longrightarrow> no_wrap key kMaxPayload ids"
  by (auto simp: fits_def no_wrap_def)

lemma split_partition:
  assumes "us_ok key ids" and "split_request_ids key ids maxSize = (rem, toSend)"
  shows "ids = rev toSend @ rem"
  using split_loop_partition [of key "[]" ids kReqFixedOverhead maxSize rem toSend] assms
  by (auto simp: split_request_ids_def)

lemma split_partition_mset:
  assumes "us_ok key ids" and "split_request_ids key ids maxSize = (rem, toSend)"
  shows "us_ok key rem" and "us_ok key toSend" and "set toSend \<subseteq> set ids" and "set rem \<subseteq> set ids"
    and "distinct (map key toSend @ map key rem)" and "set ids = set toSend \<union> set rem"
    and "length rem + length toSend = length ids"
  using split_partition [OF assms] assms(1) by (auto simp: us_ok_def rev_map [symmetric])

lemma split_sizes:
  assumes "us_ok key ids" and "no_wrap key maxSize ids" and "split_request_ids key ids maxSize = (rem, toSend)"
  shows "toSend = [] \<or> payload key toSend < unat maxSize"
    and "rem \<noteq> [] \<Longrightarrow> unat maxSize \<le> payload key (hd rem # toSend)"
  using split_loop_sizes [of key maxSize ids "[]" kReqFixedOverhead rem toSend] assms
  by (auto simp: split_request_ids_def kReqFixedOverhead_def)

lemma split_progress:
  assumes "us_ok key ids" and "fits key ids" and "ids \<noteq> []"
    and "split_request_ids key ids kMaxPayload = (rem, toSend)"
  shows "toSend \<noteq> []"
proof
  assume none: "toSend = []"
  have rem: "rem = ids" using split_partition [OF assms(1,4)] none by simp
  then have "unat kMaxPayload \<le> payload key [hd ids]"
    using split_sizes(2) [OF assms(1) fits_no_wrap [OF assms(2)] assms(4)] none assms(3) by simp
  moreover have "100 + id_cost key (hd ids) < unat kMaxPayload"
    using assms(2) hd_in_set [OF assms(3)] unfolding fits_def by blast
  ultimately show False by (simp add: payload_Cons)
qed

lemma split_oversized:
  assumes "unat kMaxPayload + id_cost key x \<le> 2 ^ 32" and "unat kMaxPayload \<le> 100 + id_cost key x"
  shows "split_request_ids key (x # rest) kMaxPayload = (x # rest, [])"
proof -
  have lt: "kReqFixedOverhead < kMaxPayload" by (simp add: kReqFixedOverhead_def kMaxPayload_def)
  have "unat (kReqFixedOverhead + (kOverheadPerID + of_nat (length (key x)))) = 100 + id_cost key x"
    using split_size_step [OF lt assms(1)] by (simp add: kReqFixedOverhead_def)
  with assms(2) show ?thesis
    by (simp add: split_request_ids_def Let_def word_less_unat del: unat_kMaxPayload)
qed

section \<open>The loop\<close>

text \<open>Partial correctness: \<open>I\<close> holds for what is left before each batch.\<close>

lemma batch_loop_rule:
  assumes "batch_loop key act ids s = Some (r, s')" and "I ids s"
    and step: "\<And>ids s rem toSend r s'. I ids s \<Longrightarrow> ids \<noteq> [] \<Longrightarrow>
      split_request_ids key ids kMaxPayload = (rem, toSend) \<Longrightarrow> act toSend s = Some (r, s') \<Longrightarrow>
      (case r of Inl e \<Rightarrow> Q e s' | Inr u \<Rightarrow> I rem s')"
  shows "case r of Inl e \<Rightarrow> Q e s' | Inr u \<Rightarrow> I [] s'"
proof -
  have "(\<forall>toSend s r s' ids rem. I ids s \<longrightarrow> ids \<noteq> [] \<longrightarrow> split_request_ids key ids kMaxPayload = (rem, toSend) \<longrightarrow>
        act toSend s = Some (r, s') \<longrightarrow> (case r of Inl e \<Rightarrow> Q e s' | Inr u \<Rightarrow> I rem s')) \<longrightarrow>
      I ids s \<longrightarrow> (case fst (r, s') of Inl e \<Rightarrow> Q e (snd (r, s')) | Inr u \<Rightarrow> I [] (snd (r, s')))"
  proof (rule batch_loop.raw_induct [where P = "\<lambda>key act ids s q.
        (\<forall>toSend s r s' ids rem. I ids s \<longrightarrow> ids \<noteq> [] \<longrightarrow> split_request_ids key ids kMaxPayload = (rem, toSend) \<longrightarrow>
          act toSend s = Some (r, s') \<longrightarrow> (case r of Inl e \<Rightarrow> Q e s' | Inr u \<Rightarrow> I rem s')) \<longrightarrow>
        I ids s \<longrightarrow> (case fst q of Inl e \<Rightarrow> Q e (snd q) | Inr u \<Rightarrow> I [] (snd q))", OF _ assms(1)],
      intro impI)
    fix loop key act ids s q
    assume IH: "\<And>key act ids s q. loop key act ids s = Some q \<Longrightarrow>
        (\<forall>toSend s r s' ids rem. I ids s \<longrightarrow> ids \<noteq> [] \<longrightarrow> split_request_ids key ids kMaxPayload = (rem, toSend) \<longrightarrow>
          act toSend s = Some (r, s') \<longrightarrow> (case r of Inl e \<Rightarrow> Q e s' | Inr u \<Rightarrow> I rem s')) \<longrightarrow>
        I ids s \<longrightarrow> (case fst q of Inl e \<Rightarrow> Q e (snd q) | Inr u \<Rightarrow> I [] (snd q))"
      and eq: "(if ids = [] then Some (Inr (), s)
        else Option.bind (act (snd (split_request_ids key ids kMaxPayload)) s)
          (\<lambda>p. case fst p of Inl e \<Rightarrow> Some (Inl e, snd p)
             | Inr u \<Rightarrow> loop key act (fst (split_request_ids key ids kMaxPayload)) (snd p))) = Some q"
      and step: "\<forall>toSend s r s' ids rem. I ids s \<longrightarrow> ids \<noteq> [] \<longrightarrow>
        split_request_ids key ids kMaxPayload = (rem, toSend) \<longrightarrow> act toSend s = Some (r, s') \<longrightarrow>
        (case r of Inl e \<Rightarrow> Q e s' | Inr u \<Rightarrow> I rem s')"
      and I: "I ids s"
    show "case fst q of Inl e \<Rightarrow> Q e (snd q) | Inr u \<Rightarrow> I [] (snd q)"
    proof (cases "ids = []")
      case True
      with eq I show ?thesis by auto
    next
      case False
      obtain rem toSend where split: "split_request_ids key ids kMaxPayload = (rem, toSend)"
        by (cases "split_request_ids key ids kMaxPayload")
      with eq [unfolded split fst_conv snd_conv] False obtain p where p: "act toSend s = Some p"
        and rest': "(case fst p of Inl e \<Rightarrow> Some (Inl e, snd p) | Inr u \<Rightarrow> loop key act rem (snd p)) = Some q"
        by (auto simp: Option.bind_eq_Some_conv)
      obtain r1 s1 where r1: "p = (r1, s1)" by (cases p)
      note act = p [unfolded r1] and rest = rest' [unfolded r1 fst_conv snd_conv]
      have one: "case r1 of Inl e \<Rightarrow> Q e s1 | Inr u \<Rightarrow> I rem s1"
        using step I False split act by blast
      show ?thesis
      proof (cases r1)
        case (Inl e)
        with rest one show ?thesis by auto
      next
        case (Inr u)
        with rest one have "loop key act rem s1 = Some q" "I rem s1" by simp_all
        with IH [of key act rem s1 q] step show ?thesis by blast
      qed
    qed
  qed
  then show ?thesis unfolding fst_conv snd_conv using step assms(2) by blast
qed

lemma batch_loop_returns:
  assumes "us_ok key ids" and "fits key ids" and "\<And>toSend s. \<exists>p. act toSend s = Some p"
  shows "\<exists>p. batch_loop key act ids s = Some p"
  using assms(1,2)
proof (induction "length ids" arbitrary: ids s rule: less_induct)
  case less
  show ?case
  proof (cases "ids = []")
    case True
    then show ?thesis by (simp add: batch_loop.simps [of key act "[]" s])
  next
    case False
    obtain rem toSend where split: "split_request_ids key ids kMaxPayload = (rem, toSend)"
      by (cases "split_request_ids key ids kMaxPayload")
    note part = split_partition_mset [OF less.prems(1) split]
    have "toSend \<noteq> []" using split_progress [OF less.prems False split] .
    then have "length rem < length ids" using part(7) by (cases toSend) simp_all
    moreover have "fits key rem" using part(4) less.prems(2) by (auto simp: fits_def)
    ultimately have rec: "\<exists>p. batch_loop key act rem s = Some p" for s
      using less.hyps part(1) by blast
    obtain r1 s1 where "act toSend s = Some (r1, s1)" using assms(3) [of toSend s] by auto
    with rec [of s1] False split show ?thesis
      by (cases r1) (simp_all add: batch_loop.simps [of key act ids s])
  qed
qed

text \<open>An id that does not fit is offered again and again, in an empty request.\<close>

lemma batch_loop_stuck:
  assumes "unat kMaxPayload + id_cost key x \<le> 2 ^ 32" and "unat kMaxPayload \<le> 100 + id_cost key x"
    and "\<And>s. \<exists>s'. act [] s = Some (Inr (), s')"
  shows "batch_loop key act (x # rest) s = None"
proof (rule ccontr)
  assume "batch_loop key act (x # rest) s \<noteq> None"
  then obtain r s' where run: "batch_loop key act (x # rest) s = Some (r, s')" by auto
  have "case r of Inl e \<Rightarrow> False | Inr u \<Rightarrow> [] = x # rest"
  proof (rule batch_loop_rule [OF run, where I = "\<lambda>ids s. ids = x # rest" and Q = "\<lambda>e s. False"])
    fix ids s rem toSend r s'
    assume ids: "ids = x # rest" and split: "split_request_ids key ids kMaxPayload = (rem, toSend)"
      and act: "act toSend s = Some (r, s')"
    have "rem = x # rest" "toSend = []"
      using split_oversized [OF assms(1,2), of rest] split ids by simp_all
    with act assms(3) [of s] show "case r of Inl e \<Rightarrow> False | Inr u \<Rightarrow> rem = x # rest" by auto
  qed simp
  then show False by (cases r) simp_all
qed

section \<open>What was accepted\<close>

text \<open>The ids, picked from the request by \<open>sel\<close>, of all calls that were answered with \<open>OK\<close>.\<close>

definition ok_ids :: "(rpc_request \<Rightarrow> string list) \<Rightarrow> rpc_event list \<Rightarrow> string list" where
  "ok_ids sel evs = concat (map (\<lambda>ev. if rep_code (ev_reply ev) = OK then sel (ev_request ev) else []) evs)"

fun ack_ids_of :: "string \<Rightarrow> rpc_request \<Rightarrow> string list" where
  "ack_ids_of sub (AcknowledgeRequest s ids) = (if s = sub then ids else [])"
| "ack_ids_of sub q = []"

fun modack_ids_of :: "string \<Rightarrow> secs \<Rightarrow> rpc_request \<Rightarrow> string list" where
  "modack_ids_of sub dl (ModifyAckDeadlineRequest s ids d) = (if s = sub \<and> d = dl then ids else [])"
| "modack_ids_of sub dl q = []"

lemma ok_ids_Nil [simp]: "ok_ids sel [] = []"
  by (simp add: ok_ids_def)

lemma ok_ids_append [simp]: "ok_ids sel (evs @ evs') = ok_ids sel evs @ ok_ids sel evs'"
  by (simp add: ok_ids_def)

lemma ok_ids_retryable: "list_all (\<lambda>ev. retryable (ev_reply ev)) evs \<Longrightarrow> ok_ids sel evs = []"
  by (induction evs) (auto simp: ok_ids_def retryable_def)

lemma ok_ids_other: "list_all (\<lambda>ev. sel (ev_request ev) = []) evs \<Longrightarrow> ok_ids sel evs = []"
  by (induction evs) (auto simp: ok_ids_def)

lemma ok_ids_call_done:
  assumes "call_done req t w evs res w'"
  shows "ok_ids sel evs = (case res of Inl e \<Rightarrow> []
    | Inr (reply, now) \<Rightarrow> if rep_code reply = OK then sel req else [])"
proof (cases res)
  case (Inl e)
  with assms show ?thesis by (simp add: call_done_simps ok_ids_retryable)
next
  case (Inr p)
  obtain reply now where p: "p = (reply, now)" by (cases p)
  with assms Inr obtain ev rest where evs: "evs = ev # rest"
    by (cases evs) (auto simp: call_done_simps)
  with assms Inr p have "ok_ids sel rest = []" "ev_reply ev = reply" "ev_request ev = req"
    by (auto simp: call_done_simps ok_ids_retryable)
  with evs Inr p show ?thesis by (simp add: ok_ids_def)
qed

lemma ack_status_Inr: "ack_status E reply = Inr u \<longleftrightarrow> rep_code reply = OK"
  by (cases "rep_code reply") (auto simp: ack_status_def)

lemma ack_status_Inl: "ack_status E reply = Inl e \<Longrightarrow>
    rep_code reply \<noteq> OK \<and> caught e \<and> exn_code e = e_code_num E (rep_code reply)"
  by (cases "rep_code reply") (auto simp: ack_status_def)

text \<open>
  \<open>sent sel req evs r\<close>: the calls \<open>evs\<close> were all of the request \<open>req\<close>, and its ids were accepted
  exactly if the result is no exception.
\<close>

definition sent :: "(rpc_request \<Rightarrow> string list) \<Rightarrow> rpc_request \<Rightarrow> rpc_event list \<Rightarrow> unit outcome \<Rightarrow> bool" where
  "sent sel req evs r \<longleftrightarrow> list_all (\<lambda>ev. ev_request ev = req) evs \<and>
     ok_ids sel evs = (case r of Inl e \<Rightarrow> [] | Inr u \<Rightarrow> sel req)"

lemma sent_call_done:
  assumes "call_done req t w evs (Inr (reply, now)) w'" and "ack_status E reply = r"
  shows "sent sel req evs r"
  using ok_ids_call_done [OF assms(1), of sel] assms
  by (cases r) (auto simp: sent_def call_done_simps ack_status_Inr dest: ack_status_Inl)

lemma sent_call_failed: "call_done req t w evs (Inl e) w' \<Longrightarrow> sent sel req evs (Inl e)"
  using ok_ids_call_done [of req t w evs "Inl e" w' sel] by (auto simp: sent_def call_done_simps)

section \<open>The contract of a batch\<close>

text \<open>
  Every request of \<open>evs\<close> carries ids of \<open>ids\<close>, none twice; when all ids fit, no request is empty and
  each stays below the limit.
\<close>

definition within_limit ::
  "('a \<Rightarrow> string) \<Rightarrow> (string list \<Rightarrow> rpc_request) \<Rightarrow> 'a list \<Rightarrow> rpc_event list \<Rightarrow> bool" where
  "within_limit key mk ids evs \<longleftrightarrow>
     (\<forall>ev\<in>set evs. \<exists>b. ev_request ev = mk (map key b) \<and> set b \<subseteq> set ids \<and> distinct (map key b) \<and>
        (fits key ids \<longrightarrow> b \<noteq> [] \<and> payload key b < unat kMaxPayload))"

lemma within_limit_Nil [simp]: "within_limit key mk ids []"
  by (simp add: within_limit_def)

lemma within_limit_append [simp]:
  "within_limit key mk ids (evs @ evs') \<longleftrightarrow> within_limit key mk ids evs \<and> within_limit key mk ids evs'"
  by (auto simp: within_limit_def)

lemma within_limit_batch:
  assumes "us_ok key rem" and "set rem \<subseteq> set ids" and "rem \<noteq> []"
    and split: "split_request_ids key rem kMaxPayload = (rem', b)"
    and "list_all (\<lambda>ev. ev_request ev = mk (map key b)) evs"
  shows "within_limit key mk ids evs"
proof -
  note part = split_partition_mset [OF assms(1) split]
  have "b \<noteq> [] \<and> payload key b < unat kMaxPayload" if "fits key ids"
  proof -
    from that assms(2) have fits: "fits key rem" by (auto simp: fits_def)
    have "b \<noteq> []" using split_progress [OF assms(1) fits assms(3) split] .
    with split_sizes(1) [OF assms(1) fits_no_wrap [OF fits] split] show ?thesis by simp
  qed
  moreover have "set b \<subseteq> set ids" using part(3) assms(2) by simp
  moreover have "distinct (map key b)" using part(2) by (simp add: us_ok_def)
  ultimately show ?thesis
    using assms(5) unfolding within_limit_def list_all_iff by blast
qed

locale batch_sender =
  fixes key :: "'a \<Rightarrow> string"
    and mk :: "string list \<Rightarrow> rpc_request"
    and sel :: "rpc_request \<Rightarrow> string list"
    and world_of :: "'s \<Rightarrow> world"
    and act :: "'a list \<Rightarrow> 's \<Rightarrow> (unit outcome \<times> 's) option"
  assumes act_sends: "act toSend s = Some (r, s') \<Longrightarrow>
      \<exists>evs. w_log (world_of s') = evs @ w_log (world_of s) \<and> sent sel (mk (map key toSend)) evs r"
    and act_time: "act toSend s = Some (r, s') \<Longrightarrow> w_time (world_of s) \<le> w_time (world_of s')"
    and sel_mk: "sel (mk ids) = ids"
begin

lemma batch_step:
  assumes ok: "us_ok key rem" and sub: "set rem \<subseteq> set ids" and ne: "rem \<noteq> []"
    and split: "split_request_ids key rem kMaxPayload = (rem', b)"
    and act: "act b s1 = Some (r, s2)"
    and log: "w_log (world_of s1) = evs @ w_log (world_of s)"
    and lim: "within_limit key mk ids evs"
  obtains evs' where "w_log (world_of s2) = evs' @ evs @ w_log (world_of s)"
    and "within_limit key mk ids (evs' @ evs)"
    and "ok_ids sel evs' = (case r of Inl e \<Rightarrow> [] | Inr u \<Rightarrow> map key b)"
    and "mset (map key rem) = mset (map key b) + mset (map key rem')"
proof -
  obtain evs' where log': "w_log (world_of s2) = evs' @ w_log (world_of s1)"
    and sent: "sent sel (mk (map key b)) evs' r"
    using act_sends [OF act] by auto
  have "within_limit key mk ids evs'"
    using sent by (intro within_limit_batch [OF ok sub ne split]) (simp add: sent_def)
  moreover have "rem = rev b @ rem'" by (rule split_partition [OF ok split])
  then have "mset (map key rem) = mset (map key b) + mset (map key rem')" by simp
  moreover have "ok_ids sel evs' = (case r of Inl e \<Rightarrow> [] | Inr u \<Rightarrow> map key b)"
    using sent by (cases r) (simp_all add: sent_def sel_mk)
  ultimately show thesis using log log' lim by (intro that [of evs']) simp_all
qed

lemma loop_sends:
  assumes "us_ok key ids" and "batch_loop key act ids s = Some (r, s')"
  shows "\<exists>evs. w_log (world_of s') = evs @ w_log (world_of s) \<and> w_time (world_of s) \<le> w_time (world_of s') \<and>
    within_limit key mk ids evs \<and> mset (ok_ids sel evs) \<subseteq># mset (map key ids) \<and>
    (r = Inr () \<longrightarrow> mset (ok_ids sel evs) = mset (map key ids))"
proof -
  let ?J = "\<lambda>s1 evs. w_log (world_of s1) = evs @ w_log (world_of s) \<and> w_time (world_of s) \<le> w_time (world_of s1) \<and>
    within_limit key mk ids evs"
  let ?I = "\<lambda>rem s1. us_ok key rem \<and> set rem \<subseteq> set ids \<and>
    (\<exists>evs. ?J s1 evs \<and> mset (ok_ids sel evs) + mset (map key rem) = mset (map key ids))"
  let ?Q = "\<lambda>e s1. \<exists>evs. ?J s1 evs \<and> mset (ok_ids sel evs) \<subseteq># mset (map key ids)"
  have "case r of Inl e \<Rightarrow> ?Q e s' | Inr u \<Rightarrow> ?I [] s'"
  proof (rule batch_loop_rule [OF assms(2), where I = ?I and Q = ?Q])
    show "?I ids s" using assms(1) by (auto intro: exI [of _ "[]"])
  next
    fix rem s1 rem' b r s2
    assume I: "?I rem s1" and ne: "rem \<noteq> []" and split: "split_request_ids key rem kMaxPayload = (rem', b)"
      and act: "act b s1 = Some (r, s2)"
    from I obtain evs where J: "?J s1 evs" and ms: "mset (ok_ids sel evs) + mset (map key rem) = mset (map key ids)"
      and ok: "us_ok key rem" and sub: "set rem \<subseteq> set ids" by blast
    obtain evs' where new: "w_log (world_of s2) = evs' @ evs @ w_log (world_of s)"
      "within_limit key mk ids (evs' @ evs)"
      "ok_ids sel evs' = (case r of Inl e \<Rightarrow> [] | Inr u \<Rightarrow> map key b)"
      "mset (map key rem) = mset (map key b) + mset (map key rem')"
      using J by (auto intro: batch_step [OF ok sub ne split act])
    have J': "?J s2 (evs' @ evs)" using new J act_time [OF act] by auto
    note part = split_partition_mset [OF ok split]
    show "case r of Inl e \<Rightarrow> ?Q e s2 | Inr u \<Rightarrow> ?I rem' s2"
    proof (cases r)
      case (Inl e)
      have "mset (ok_ids sel (evs' @ evs)) \<subseteq># mset (map key ids)"
        using new(3) Inl ms by (metis mset_subset_eq_add_left sum.case(1) append_Nil ok_ids_append)
      with J' Inl show ?thesis by auto
    next
      case (Inr u)
      then have "mset (ok_ids sel (evs' @ evs)) + mset (map key rem') = mset (map key ids)"
        using new(3,4) ms by (simp add: ac_simps)
      with J' Inr part sub show ?thesis by auto
    qed
  qed
  then show ?thesis by (cases r) auto
qed

end

section \<open>The three actions\<close>

context transport
begin

lemma AckMessages_sends:
  assumes "AckMessages E call sub toSend w = Some (r, w')"
  shows "\<exists>evs. w_log w' = evs @ w_log w \<and> w_time w \<le> w_time w' \<and>
    sent (ack_ids_of sub) (AcknowledgeRequest sub toSend) evs r"
proof -
  obtain res w1 where c: "call (AcknowledgeRequest sub toSend) w = Some (res, w1)"
    using assms by (auto simp: AckMessages_def populate_ack_ids_set_eq split: option.splits)
  obtain evs where d: "call_done (AcknowledgeRequest sub toSend) timeout w evs res w1"
    using call_made [OF c] by auto
  have "w' = w1 \<and> sent (ack_ids_of sub) (AcknowledgeRequest sub toSend) evs r"
    using assms c d
    by (auto simp: AckMessages_def populate_ack_ids_set_eq intro: sent_call_failed sent_call_done
        split: sum.splits)
  with d show ?thesis by (auto simp: call_done_def)
qed

lemma ExtendAckDeadlines_sends:
  assumes "ExtendAckDeadlines E call sub populate toSend dl cb s w = Some (r, s', w')"
  shows "\<exists>evs now. w_log w' = evs @ w_log w \<and> w_time w \<le> now \<and> now \<le> w_time w' \<and>
    sent (modack_ids_of sub dl) (ModifyAckDeadlineRequest sub (populate toSend) dl) evs r \<and>
    s' = (case r of Inl e \<Rightarrow> s | Inr u \<Rightarrow> cb (now + ns_of_s dl) s)"
proof -
  let ?req = "ModifyAckDeadlineRequest sub (populate toSend) dl"
  obtain res w1 where c: "call ?req w = Some (res, w1)"
    using assms by (auto simp: ExtendAckDeadlines_def split: option.splits)
  obtain evs where d: "call_done ?req timeout w evs res w1"
    using call_made [OF c] by auto
  show ?thesis
  proof (cases res)
    case (Inl e)
    have "sent (modack_ids_of sub dl) ?req evs (Inl e)"
      using d Inl by (intro sent_call_failed) simp
    moreover have "w' = w1" "r = Inl e" "s' = s"
      using assms c Inl by (auto simp: ExtendAckDeadlines_def)
    ultimately show ?thesis
      using d Inl by (intro exI [of _ evs] exI [of _ "w_time w"]) (simp add: call_done_simps)
  next
    case (Inr p)
    obtain reply now where p: "p = (reply, now)" by (cases p)
    have "w' = w1" "r = ack_status E reply" "s' = (case r of Inl e \<Rightarrow> s | Inr u \<Rightarrow> cb (now + ns_of_s dl) s)"
      using assms c Inr p by (auto simp: ExtendAckDeadlines_def split: sum.splits)
    moreover have "sent (modack_ids_of sub dl) ?req evs (ack_status E reply)"
      using d Inr p by (intro sent_call_done [OF _ refl]) simp
    ultimately show ?thesis
      using d Inr p by (intro exI [of _ evs] exI [of _ now]) (simp add: call_done_simps)
  qed
qed

lemma nack_batch_sends:
  assumes "nack_batch E call sub toSend w = Some (r, w')"
  shows "\<exists>evs. w_log w' = evs @ w_log w \<and> w_time w \<le> w_time w' \<and>
    sent (modack_ids_of sub 0) (ModifyAckDeadlineRequest sub toSend 0) evs r"
proof -
  obtain u where "ExtendAckDeadlines E call sub (\<lambda>ids. fst (populate_ack_ids_set [] ids)) toSend 0 (\<lambda>r s. s) () w
      = Some (r, u, w')"
    using assms by (auto simp: nack_batch_def split: option.splits)
  then show ?thesis
    by (auto simp: populate_ack_ids_set_eq dest!: ExtendAckDeadlines_sends)
qed

end

sublocale transport \<subseteq> acks: batch_sender id "AcknowledgeRequest sub" "ack_ids_of sub" "\<lambda>w. w" "AckMessages E call sub"
  for E sub
  by unfold_locales (auto dest: AckMessages_sends)

sublocale transport \<subseteq> nacks: batch_sender id "\<lambda>ids. ModifyAckDeadlineRequest sub ids 0" "modack_ids_of sub 0"
    "\<lambda>w. w" "nack_batch E call sub"
  for E sub
  by unfold_locales (auto dest: nack_batch_sends)

sublocale transport \<subseteq> extensions: batch_sender fst "\<lambda>ids. ModifyAckDeadlineRequest sub ids dl" "modack_ids_of sub dl"
    snd "extend_batch E call sub dl"
  for E sub dl
  by unfold_locales
    (auto simp: extend_batch_def populate_ack_ids_pack_eq dest!: ExtendAckDeadlines_sends)

context transport
begin

lemma SendAcks_sends:
  assumes "us_ok id ids" and "SendAcks E call sub ids w = Some (r, w')"
  shows "\<exists>evs. w_log w' = evs @ w_log w \<and> w_time w \<le> w_time w' \<and>
    within_limit id (AcknowledgeRequest sub) ids evs \<and>
    mset (ok_ids (ack_ids_of sub) evs) \<subseteq># mset ids \<and>
    (r = Inr () \<longrightarrow> mset (ok_ids (ack_ids_of sub) evs) = mset ids)"
proof (cases "ids = []")
  case True
  with assms(2) show ?thesis by (simp add: SendAcks_def)
next
  case False
  with assms(2) have "batch_loop id (AckMessages E call sub) ids w = Some (r, w')"
    by (simp add: SendAcks_def)
  from acks.loop_sends [OF assms(1) this] show ?thesis by simp
qed

lemma SendNacks_sends:
  assumes "us_ok id ids" and "SendNacks E call sub ids w = Some (r, w')"
  shows "\<exists>evs. w_log w' = evs @ w_log w \<and> w_time w \<le> w_time w' \<and>
    within_limit id (\<lambda>ids. ModifyAckDeadlineRequest sub ids 0) ids evs \<and>
    mset (ok_ids (modack_ids_of sub 0) evs) \<subseteq># mset ids \<and>
    (r = Inr () \<longrightarrow> mset (ok_ids (modack_ids_of sub 0) evs) = mset ids)"
proof (cases "ids = []")
  case True
  with assms(2) show ?thesis by (simp add: SendNacks_def)
next
  case False
  with assms(2) have "batch_loop id (nack_batch E call sub) ids w = Some (r, w')"
    by (simp add: SendNacks_def)
  from nacks.loop_sends [OF assms(1) this] show ?thesis by simp
qed

end

section \<open>An example\<close>

definition demo_call :: stub_call where
  "demo_call = make_call (demo_env ok_server) default_RetryCountPolicy default_MaxRetryTimePolicy (demo_policy 1 1) 20"

lemma demo_call_ok:
  assumes "0 \<le> w_time w" and "w_time w < 2 ^ 62"
  shows "demo_call req w =
    Some (Inr (demo_reply OK [''id''] [], w_time w + 3000), answered_world req 20 (demo_reply OK [''id''] []) w)"
  unfolding demo_call_def using assms by (rule demo_ok)

lemmas split_eval = split_request_ids_def kReqFixedOverhead_def kOverheadPerID_def kMaxPayload_def us_emplace_def
  us_member_def

lemma demo_ack_status: "ack_status E (demo_reply OK ids msgs) = Inr ()"
  by (simp add: ack_status_def)

lemma demo_SendAcks:
  "SendAcks (demo_env ok_server) demo_call sub [''k''] demo_world =
    Some (Inr (), answered_world (AcknowledgeRequest sub [''k'']) 20 (demo_reply OK [''id''] []) demo_world)"
  by (simp add: SendAcks_def batch_loop.simps split_eval AckMessages_def demo_call_ok demo_ack_status
      populate_ack_ids_set_eq)

lemma demo_SendNacks:
  "SendNacks (demo_env ok_server) demo_call sub [''k''] demo_world =
    Some (Inr (), answered_world (ModifyAckDeadlineRequest sub [''k''] 0) 20 (demo_reply OK [''id''] []) demo_world)"
  by (simp add: SendNacks_def batch_loop.simps split_eval nack_batch_def ExtendAckDeadlines_def demo_call_ok
      demo_ack_status populate_ack_ids_set_eq)

section \<open>Properties\<close>

text \<open>
  C30. \<open>split_request_ids\<close> cuts a set of ids in two: nothing is lost or doubled and the order is kept, the
  part to send is smaller than the limit by the size estimate of the code, and it is maximal, the next id
  would reach the limit. The 32-bit arithmetic does not wrap as long as no id has nearly 4 gigabytes.
\<close>

theorem split_request_ids_maximal:
  assumes "us_ok key ids" and "no_wrap key maxSize ids" and "split_request_ids key ids maxSize = (rem, toSend)"
  shows "ids = rev toSend @ rem \<and> (toSend = [] \<or> payload key toSend < unat maxSize) \<and>
    (rem \<noteq> [] \<longrightarrow> unat maxSize \<le> payload key (hd rem # toSend))"
  using split_partition [OF assms(1,3)] split_sizes [OF assms] by blast

theorem split_request_ids_maximal_witness:
  "[''a'', ''bb''] = rev [''a''] @ [''bb''] \<and> payload id [''a''] < unat (108 :: u32) \<and>
    unat (108 :: u32) \<le> payload id (hd [''bb''] # [''a''])"
proof -
  have "no_wrap id (108 :: u32) [''a'', ''bb'']" by (simp add: no_wrap_def id_cost_def)
  moreover have "split_request_ids id [''a'', ''bb''] 108 = ([''bb''], [''a''])" by (simp add: split_eval)
  ultimately show ?thesis using split_request_ids_maximal [of id "[''a'', ''bb'']" 108 "[''bb'']" "[''a'']"] by simp
qed

text \<open>
  C27. \<open>SendAcks\<close> that returns normally has told the service every id exactly once, in requests below the
  payload limit that each carry at least one id; when it ends with an exception, what was accepted until
  then is a part of the ids, none twice.
\<close>

theorem SendAcks_complete:
  assumes "us_ok id ids" and "fits id ids" and "SendAcks E (make_call E cp tp bp t) sub ids w = Some (r, w')"
  shows "\<exists>evs. w_log w' = evs @ w_log w \<and>
    (\<forall>ev\<in>set evs. \<exists>b. ev_request ev = AcknowledgeRequest sub b \<and> b \<noteq> [] \<and> set b \<subseteq> set ids \<and>
       payload id b < unat kMaxPayload) \<and>
    mset (ok_ids (ack_ids_of sub) evs) \<subseteq># mset ids \<and>
    (r = Inr () \<longrightarrow> mset (ok_ids (ack_ids_of sub) evs) = mset ids)"
proof -
  obtain evs where "w_log w' = evs @ w_log w" "within_limit id (AcknowledgeRequest sub) ids evs"
    "mset (ok_ids (ack_ids_of sub) evs) \<subseteq># mset ids"
    "r = Inr () \<longrightarrow> mset (ok_ids (ack_ids_of sub) evs) = mset ids"
    using stub.SendAcks_sends [OF assms(1,3)] by blast
  then show ?thesis using assms(2) unfolding within_limit_def by (intro exI [of _ evs]) fastforce
qed

theorem SendAcks_complete_witness:
  "\<exists>evs. w_log (answered_world (AcknowledgeRequest ''s'' [''k'']) 20 (demo_reply OK [''id''] []) demo_world) = evs @ w_log demo_world \<and>
    (\<forall>ev\<in>set evs. \<exists>b. ev_request ev = AcknowledgeRequest ''s'' b \<and> b \<noteq> [] \<and> set b \<subseteq> set [''k''] \<and>
       payload id b < unat kMaxPayload) \<and>
    mset (ok_ids (ack_ids_of ''s'') evs) \<subseteq># mset [''k''] \<and>
    (Inr () = (Inr () :: unit outcome) \<longrightarrow> mset (ok_ids (ack_ids_of ''s'') evs) = mset [''k''])"
  by (rule SendAcks_complete [OF _ _ demo_SendAcks [unfolded demo_call_def]])
    (simp_all add: fits_def id_cost_def)

text \<open>
  \<open>SendNacks\<close> does the same with deadlines of zero seconds.
\<close>

lemma SendNacks_complete:
  assumes "us_ok id ids" and "fits id ids" and "SendNacks E (make_call E cp tp bp t) sub ids w = Some (r, w')"
  shows "\<exists>evs. w_log w' = evs @ w_log w \<and>
    (\<forall>ev\<in>set evs. \<exists>b. ev_request ev = ModifyAckDeadlineRequest sub b 0 \<and> b \<noteq> [] \<and> set b \<subseteq> set ids \<and>
       payload id b < unat kMaxPayload) \<and>
    mset (ok_ids (modack_ids_of sub 0) evs) \<subseteq># mset ids \<and>
    (r = Inr () \<longrightarrow> mset (ok_ids (modack_ids_of sub 0) evs) = mset ids)"
proof -
  obtain evs where "w_log w' = evs @ w_log w" "within_limit id (\<lambda>ids. ModifyAckDeadlineRequest sub ids 0) ids evs"
    "mset (ok_ids (modack_ids_of sub 0) evs) \<subseteq># mset ids"
    "r = Inr () \<longrightarrow> mset (ok_ids (modack_ids_of sub 0) evs) = mset ids"
    using stub.SendNacks_sends [OF assms(1,3)] by blast
  then show ?thesis using assms(2) unfolding within_limit_def by (intro exI [of _ evs]) fastforce
qed





end
