(* ===== verification/Deadlines.thy ===== *)
theory Deadlines
  imports Batches
begin

text \<open>
  Deadline extension: what \<open>ModifyAckDeadlines\<close> and \<open>ProcessModAcks\<close> of \<open>ModAckIterator.cpp\<close> leave in
  \<open>_keepAliveAckIDs\<close>, what they send, and how long the thread may sleep after them.
\<close>

section \<open>Which deadlines are due\<close>

definition is_due :: "nsecs \<Rightarrow> secs \<Rightarrow> AckWatchDescriptior \<Rightarrow> bool" where
  "is_due now grace d \<longleftrightarrow> ExtendIn d now \<le> ms_of_s grace"

lemma due_simps: "fst (due now grace d s) \<longleftrightarrow> is_due now grace d"
  "snd (due now grace d s) = (if is_due now grace d then s else min s (ExtendIn d now))"
  by (simp_all add: due_def is_due_def Let_def not_less)

definition due_keys :: "nsecs \<Rightarrow> secs \<Rightarrow> WatchDescrContainer \<Rightarrow> AckID set" where
  "due_keys now grace ids = {k. \<exists>d. (k, d) \<in> set ids \<and> is_due now grace d}"

lemma due_keys_subset: "due_keys now grace ids \<subseteq> set (um_keys ids)"
  by (force simp: due_keys_def um_keys_def)

lemma picked_keys: "fst ` set (fst (give_me_the_keys ids [] (due now grace) s)) = due_keys now grace ids"
  by (simp add: give_me_the_keys_keys [where P = "is_due now grace"] due_simps due_keys_def)

lemma shortest_le:
  fixes s :: int
  shows "fold (\<lambda>d s. snd (due now grace d s)) ds s \<le> s"
    and "d \<in> set ds \<Longrightarrow> \<not> is_due now grace d \<Longrightarrow> fold (\<lambda>d s. snd (due now grace d s)) ds s \<le> ExtendIn d now"
proof -
  show 1: "fold (\<lambda>d s. snd (due now grace d s)) ds s \<le> s" for ds s
  proof (induction ds arbitrary: s)
    case Nil
    then show ?case by simp
  next
    case (Cons x ds)
    have "fold (\<lambda>d s. snd (due now grace d s)) ds (snd (due now grace x s)) \<le> snd (due now grace x s)"
      by (rule Cons.IH)
    also have "\<dots> \<le> s" by (simp add: due_simps)
    finally show ?case by simp
  qed
  show "d \<in> set ds \<Longrightarrow> \<not> is_due now grace d \<Longrightarrow> fold (\<lambda>d s. snd (due now grace d s)) ds s \<le> ExtendIn d now"
  proof (induction ds arbitrary: s)
    case Nil
    then show ?case by simp
  next
    case (Cons x ds)
    show ?case
    proof (cases "d = x")
      case True
      have "fold (\<lambda>d s. snd (due now grace d s)) (x # ds) s \<le> snd (due now grace x s)" by (simp add: 1)
      also have "\<dots> \<le> ExtendIn x now" using Cons.prems(2) True by (simp add: due_simps)
      finally show ?thesis using True by simp
    next
      case False
      with Cons show ?thesis by simp
    qed
  qed
qed

lemma shortest_from:
  fixes s :: int
  shows "fold (\<lambda>d s. snd (due now grace d s)) ds s = s \<or>
    (\<exists>d\<in>set ds. \<not> is_due now grace d \<and> fold (\<lambda>d s. snd (due now grace d s)) ds s = ExtendIn d now)"
proof (induction ds arbitrary: s)
  case Nil
  then show ?case by simp
next
  case (Cons x ds)
  have "snd (due now grace x s) = s \<or> \<not> is_due now grace x \<and> snd (due now grace x s) = ExtendIn x now"
    by (simp add: due_simps min_def)
  with Cons.IH [of "snd (due now grace x s)"] show ?case by auto
qed

section \<open>Writing the new deadlines\<close>

lemma map_of_update_all:
  "map_of (update_all toSend t m) k =
     (if k \<in> snd ` set toSend then map_option (UpdateNextAck t) (map_of m k) else map_of m k)"
proof (induction toSend arbitrary: m)
  case Nil
  then show ?case by (simp add: update_all_def)
next
  case (Cons p toSend)
  have "map_option (UpdateNextAck t) (map_option (UpdateNextAck t) x) = map_option (UpdateNextAck t) x" for x
    by (cases x) (simp_all add: UpdateNextAck_def)
  with Cons [of "um_update (snd p) (UpdateNextAck t) m"] show ?case
    by (auto simp: update_all_def map_of_um_update)
qed

lemma um_keys_update_all [simp]: "um_keys (update_all toSend t m) = um_keys m"
  by (induction toSend arbitrary: m) (simp_all add: update_all_def)

text \<open>
  \<open>extended t D ids m\<close>: the entries of \<open>D\<close> got a deadline of at least \<open>t\<close>, the others are as in \<open>ids\<close>.
\<close>

definition extended :: "nsecs \<Rightarrow> AckID set \<Rightarrow> WatchDescrContainer \<Rightarrow> WatchDescrContainer \<Rightarrow> bool" where
  "extended t D ids m \<longleftrightarrow> um_keys m = um_keys ids \<and>
     (\<forall>k. k \<notin> D \<longrightarrow> map_of m k = map_of ids k) \<and>
     (\<forall>k d. k \<in> D \<longrightarrow> map_of m k = Some d \<longrightarrow> t \<le> nextAck d)"

lemma extended_update_all:
  assumes "extended t D ids m" and "t \<le> t'"
  shows "extended t (D \<union> snd ` set toSend) ids (update_all toSend t' m)"
  using assms by (auto simp: extended_def map_of_update_all UpdateNextAck_def)

context transport
begin

lemma extension_loop:
  assumes ok: "us_ok fst toModify" and its: "\<forall>p\<in>set toModify. snd p = fst p"
    and run: "batch_loop fst (extend_batch E call sub dl) toModify (ids, w) = Some (r, ids', w')"
  shows "\<exists>D. D \<subseteq> fst ` set toModify \<and> extended (w_time w + ns_of_s dl) D ids ids' \<and>
    (r = Inr () \<longrightarrow> D = fst ` set toModify)"
proof -
  let ?t = "w_time w + ns_of_s dl"
  let ?I = "\<lambda>rem s. us_ok fst rem \<and> set rem \<subseteq> set toModify \<and> w_time w \<le> w_time (snd s) \<and>
    (\<exists>D. D \<union> fst ` set rem = fst ` set toModify \<and> extended ?t D ids (fst s))"
  let ?Q = "\<lambda>e s. \<exists>D. D \<subseteq> fst ` set toModify \<and> extended ?t D ids (fst s)"
  have "case r of Inl e \<Rightarrow> ?Q e (ids', w') | Inr u \<Rightarrow> ?I [] (ids', w')"
  proof (rule batch_loop_rule [OF run, where I = ?I and Q = ?Q])
    show "?I toModify (ids, w)" using ok by (auto simp: extended_def intro: exI [of _ "{}"])
  next
    fix rem s rem' toSend r s'
    assume I: "?I rem s" and "rem \<noteq> []" and split: "split_request_ids fst rem kMaxPayload = (rem', toSend)"
      and act: "extend_batch E call sub dl toSend s = Some (r, s')"
    from I obtain D where D: "D \<union> fst ` set rem = fst ` set toModify" "extended ?t D ids (fst s)"
      and rem: "us_ok fst rem" "set rem \<subseteq> set toModify" "w_time w \<le> w_time (snd s)" by blast
    note part = split_partition_mset [OF rem(1) split]
    obtain now where now: "w_time (snd s) \<le> now" "now \<le> w_time (snd s')"
      and s': "fst s' = (case r of Inl e \<Rightarrow> fst s | Inr u \<Rightarrow> update_all toSend (now + ns_of_s dl) (fst s))"
      using act ExtendAckDeadlines_sends [of E sub "populate_ack_ids_pack []" toSend dl "update_all toSend"
          "fst s" "snd s" r "fst s'" "snd s'"]
      by (auto simp: extend_batch_def)
    show "case r of Inl e \<Rightarrow> ?Q e s' | Inr u \<Rightarrow> ?I rem' s'"
    proof (cases r)
      case (Inl e)
      with D s' show ?thesis by auto
    next
      case (Inr u)
      have "snd ` set toSend = fst ` set toSend"
        using its part(3) rem(2) by (intro image_cong) auto
      then have "extended ?t (D \<union> fst ` set toSend) ids (fst s')"
        using extended_update_all [OF D(2), of "now + ns_of_s dl" toSend] now rem(3) s' Inr by simp
      moreover have "(D \<union> fst ` set toSend) \<union> fst ` set rem' = fst ` set toModify"
        using D(1) part(6) by auto
      ultimately show ?thesis using Inr part(1,4) rem now by auto
    qed
  qed
  then show ?thesis by (cases r) auto
qed

text \<open>The three ways \<open>ModifyAckDeadlines\<close> ends.\<close>

lemma ModifyAckDeadlines_cases:
  assumes run: "ModifyAckDeadlines E call sub ids dl grace w = Some (r, ids', w')"
  obtains (nothing) "ids = []" "r = Inr kSoManyMilliseconds" "ids' = ids" "w' = w"
  | (idle) now ms where "ids \<noteq> []" "steady_now E w = (now, w')" "due_keys now grace ids = {}" "ids' = ids"
      "r = Inr (ms sdiv 2)" "ms = fold (\<lambda>d s. snd (due now grace d s)) (map snd ids) kSoManyMilliseconds"
  | (extension) now w1 toModify res where "ids \<noteq> []" "steady_now E w = (now, w1)"
      "due_keys now grace ids \<noteq> {}" "fst ` set toModify = due_keys now grace ids" "us_ok fst toModify"
      "\<forall>p\<in>set toModify. snd p = fst p"
      "batch_loop fst (extend_batch E call sub dl) toModify (ids, w1) = Some (res, ids', w')"
      "r = (case res of Inl e \<Rightarrow> Inl e | Inr u \<Rightarrow> Inr kSoManyMilliseconds)"
proof (cases "ids = []")
  case True
  with run have "r = Inr kSoManyMilliseconds" "ids' = ids" "w' = w"
    by (auto simp: ModifyAckDeadlines_def)
  with True show thesis by (rule nothing)
next
  case False
  obtain now w1 where now: "steady_now E w = (now, w1)" by (cases "steady_now E w")
  obtain toModify ms where pick: "give_me_the_keys ids [] (due now grace) kSoManyMilliseconds = (toModify, ms)"
    by (cases "give_me_the_keys ids [] (due now grace) kSoManyMilliseconds")
  have keys: "fst ` set toModify = due_keys now grace ids"
    using picked_keys [of ids now grace kSoManyMilliseconds] pick by simp
  have ms: "ms = fold (\<lambda>d s. snd (due now grace d s)) (map snd ids) kSoManyMilliseconds"
    using give_me_the_keys_state [of ids "[]" "due now grace" kSoManyMilliseconds] pick by simp
  show thesis
  proof (cases "toModify = []")
    case True
    with run False now pick keys ms show thesis
      by (intro idle [of now ms]) (auto simp: ModifyAckDeadlines_def)
  next
    case ne: False
    have "us_ok fst toModify" "\<forall>p\<in>set toModify. snd p = fst p"
      using give_me_the_keys_ok [of "[]" ids "due now grace" kSoManyMilliseconds]
        give_me_the_keys_iterators [of "[]" ids "due now grace" kSoManyMilliseconds] pick by simp_all
    moreover obtain res where
      "batch_loop fst (extend_batch E call sub dl) toModify (ids, w1) = Some (res, ids', w')"
      "r = (case res of Inl e \<Rightarrow> Inl e | Inr u \<Rightarrow> Inr kSoManyMilliseconds)"
      using run False now pick ne
      by (auto simp: ModifyAckDeadlines_def split: option.splits sum.splits)
    moreover have "due_keys now grace ids \<noteq> {}" using ne keys by auto
    ultimately show thesis using False now keys by (intro extension [of now w1 toModify res])
  qed
qed

lemma ModifyAckDeadlines_log:
  assumes run: "ModifyAckDeadlines E call sub ids dl grace w = Some (r, ids', w')"
  shows "\<exists>evs. w_log w' = evs @ w_log w \<and> w_time w \<le> w_time w' \<and>
    list_all (\<lambda>ev. \<exists>b. ev_request ev = ModifyAckDeadlineRequest sub b dl \<and> set b \<subseteq> set (um_keys ids)) evs"
  using run
proof (cases rule: ModifyAckDeadlines_cases)
  case nothing
  then show ?thesis by simp
next
  case (idle now ms)
  then show ?thesis using steady_now_frame [OF idle(2)] by simp
next
  case (extension now w1 toModify res)
  obtain evs where evs: "w_log w' = evs @ w_log w1" "w_time w1 \<le> w_time w'"
    "within_limit fst (\<lambda>ids. ModifyAckDeadlineRequest sub ids dl) toModify evs"
    using extensions.loop_sends [OF extension(5,7)] by auto
  have "set (map fst b) \<subseteq> set (um_keys ids)" if "set b \<subseteq> set toModify" for b
  proof -
    have "fst ` set b \<subseteq> due_keys now grace ids" using that extension(4) by auto
    with due_keys_subset show ?thesis by fastforce
  qed
  then have "list_all (\<lambda>ev. \<exists>b. ev_request ev = ModifyAckDeadlineRequest sub b dl \<and> set b \<subseteq> set (um_keys ids)) evs"
    using evs(3) unfolding within_limit_def list_all_iff by blast
  with evs steady_now_frame [OF extension(2)] show ?thesis by auto
qed

lemma ModifyAckDeadlines_keys:
  assumes "ModifyAckDeadlines E call sub ids dl grace w = Some (r, ids', w')"
  shows "um_keys ids' = um_keys ids"
  using assms
proof (cases rule: ModifyAckDeadlines_cases)
  case (extension now w1 toModify res)
  then show ?thesis using extension_loop [OF extension(5,6,7)] by (auto simp: extended_def)
qed simp_all

text \<open>After an undisturbed run no deadline is within the grace period of its start.\<close>

lemma ModifyAckDeadlines_safe:
  assumes run: "ModifyAckDeadlines E call sub ids dl grace w = Some (Inr ms, ids', w')"
    and ok: "um_ok ids" and grace: "0 \<le> grace" "grace < dl" and k: "map_of ids' k = Some d"
  shows "w_time w + ns_of_s grace < nextAck d"
proof -
  have undue: "now + ns_of_s grace < nextAck d" if "\<not> is_due now grace d" for now
  proof -
    let ?x = "nextAck d - now"
    have ms: "ms_of_s grace < ms_of_ns ?x" using that by (simp add: is_due_def ExtendIn_def)
    with grace have "0 < ms_of_ns ?x" unfolding ms_of_s_def by linarith
    then have "0 < ?x" by (rule ms_of_ns_pos)
    then have "ns_of_ms (ms_of_ns ?x) \<le> ?x" by (intro ms_of_ns_le less_imp_le)
    with ms show ?thesis unfolding ms_of_s_def ns_of_s_def ns_of_ms_def by linarith
  qed
  show ?thesis
    using run
  proof (cases rule: ModifyAckDeadlines_cases)
    case nothing
    with k show ?thesis by simp
  next
    case (idle now m)
    have "(k, d) \<in> set ids" using idle(4) k by (auto dest: map_of_SomeD)
    with idle(3) have "\<not> is_due now grace d" by (auto simp: due_keys_def)
    with undue [of now] steady_now_frame [OF idle(2)] show ?thesis by simp
  next
    case (extension now w1 toModify res)
    have res: "res = Inr ()" using extension(8) by (cases res) simp_all
    with extension_loop [OF extension(5,6,7)]
    have ext: "extended (w_time w1 + ns_of_s dl) (due_keys now grace ids) ids ids'"
      by (auto simp: extension(4))
    note now = steady_now_frame [OF extension(2)]
    show ?thesis
    proof (cases "k \<in> due_keys now grace ids")
      case True
      with ext k have "w_time w1 + ns_of_s dl \<le> nextAck d" by (simp add: extended_def)
      with now grace show ?thesis by (simp add: ns_of_s_def)
    next
      case False
      with ext k have "map_of ids k = Some d" by (simp add: extended_def)
      with False have "\<not> is_due now grace d" by (auto simp: due_keys_def dest: map_of_SomeD)
      with undue [of now] now show ?thesis by simp
    qed
  qed
qed

text \<open>A sleep that is asked for ends in time: twice as much would not be too much.\<close>

lemma ModifyAckDeadlines_sleep:
  assumes run: "ModifyAckDeadlines E call sub ids dl grace w = Some (Inr ms, ids', w')"
    and ms: "ms \<noteq> kSoManyMilliseconds" and grace: "0 \<le> grace"
  shows "w_log w' = w_log w \<and> ids' = ids \<and> 0 \<le> ms \<and>
    (\<forall>(k, d)\<in>set ids'. w_time w' + 2 * ns_of_ms ms \<le> nextAck d)"
proof -
  consider now m where "steady_now E w = (now, w')" "due_keys now grace ids = {}" "ids' = ids"
      "ms = m sdiv 2" "m = fold (\<lambda>d s. snd (due now grace d s)) (map snd ids) kSoManyMilliseconds"
    using run
  proof (cases rule: ModifyAckDeadlines_cases)
    case (extension now w1 toModify res)
    then show ?thesis using ms by (cases res) simp_all
  qed (use ms in auto)
  then show ?thesis
  proof cases
    case (1 now m)
    note now = steady_now_frame [OF 1(1)]
    have undue: "\<not> is_due now grace d" if "(k, d) \<in> set ids" for k d
      using that 1(2) by (auto simp: due_keys_def)
    have pos: "0 \<le> m"
    proof -
      have "0 \<le> ExtendIn d now" if "d \<in> set (map snd ids)" for d
        using that undue grace by (force simp: is_due_def ms_of_s_def)
      moreover have "m = kSoManyMilliseconds \<or> (\<exists>d\<in>set (map snd ids). m = ExtendIn d now)"
        using shortest_from [of now grace "map snd ids" kSoManyMilliseconds] 1(5) by blast
      ultimately show ?thesis by (auto simp: kSoManyMilliseconds_def simp del: set_map)
    qed
    have half: "0 \<le> ms \<and> 2 * ms \<le> m"
    proof -
      have "ms = m div 2" using pos 1(4) by (auto simp: signed_divide_int_def sgn_if)
      with pos show ?thesis by presburger
    qed
    have "w_time w' + 2 * ns_of_ms ms \<le> nextAck d" if kd: "(k, d) \<in> set ids" for k d
    proof -
      have "m \<le> ExtendIn d now"
        unfolding 1(5) using kd undue by (intro shortest_le(2)) force+
      then have le: "2 * ms \<le> ms_of_ns (nextAck d - now)" using half by (simp add: ExtendIn_def)
      have "0 < ms_of_ns (nextAck d - now)"
        using undue [OF kd] grace by (simp add: is_due_def ExtendIn_def ms_of_s_def)
      then have "0 < nextAck d - now" by (rule ms_of_ns_pos)
      then have "ns_of_ms (ms_of_ns (nextAck d - now)) \<le> nextAck d - now" by (intro ms_of_ns_le) simp
      with le now show ?thesis by (simp add: ns_of_ms_def)
    qed
    with half now 1(3) show ?thesis by auto
  qed
qed

end

section \<open>The deadline asked for\<close>

lemma AckDeadline_clamps:
  assumes "ackDist it \<noteq> []" and "length (ackDist it) < 2 ^ 64"
  shows "AckDeadline it = Inr (min (max (int (percentile_index (ackDist it))) 10) 600)"
proof -
  have "percentile_index (ackDist it) < 2 ^ 64"
    using percentile_index_less [OF assms(1)] assms(2) by simp
  then have "uint (of_nat (percentile_index (ackDist it)) :: u64) = int (percentile_index (ackDist it))"
    by (simp add: unsigned_of_nat take_bit_nat_eq_self)
  then show ?thesis
    by (simp add: AckDeadline_def Percentile_d099 [OF assms(1)] kMinAckDeadline_def kMaxAckDeadline_def)
qed

lemma AckDeadline_range:
  assumes "ackDist it \<noteq> []"
  shows "\<exists>dl. AckDeadline it = Inr dl \<and> 10 \<le> dl \<and> dl \<le> 600"
  by (auto simp: AckDeadline_def Percentile_d099 [OF assms] kMinAckDeadline_def kMaxAckDeadline_def)

section \<open>One round\<close>

text \<open>
  Whatever the outcome, the acknowledgements that were requested are those of \<open>acks\<close>, and the
  deadlines that were set to zero are those of \<open>nacks\<close>.
\<close>

definition asks_only :: "string \<Rightarrow> AckIDSet \<Rightarrow> AckIDSet \<Rightarrow> rpc_event list \<Rightarrow> bool" where
  "asks_only sub acks nacks evs \<longleftrightarrow>
     (\<forall>ev\<in>set evs. \<forall>s. (\<forall>k\<in>set (ack_ids_of s (ev_request ev)). s = sub \<and> k \<in> set acks) \<and>
        (\<forall>k\<in>set (modack_ids_of s 0 (ev_request ev)). s = sub \<and> k \<in> set nacks))"

lemma asks_only_append [simp]:
  "asks_only sub acks nacks (evs @ evs') \<longleftrightarrow> asks_only sub acks nacks evs \<and> asks_only sub acks nacks evs'"
  by (auto simp: asks_only_def)

lemma asks_only_Nil [simp]: "asks_only sub acks nacks []"
  by (simp add: asks_only_def)

lemma asks_only_acks: "within_limit id (AcknowledgeRequest sub) acks evs \<Longrightarrow> asks_only sub acks nacks evs"
  by (fastforce simp: asks_only_def within_limit_def split: if_splits)

lemma asks_only_nacks:
  "within_limit id (\<lambda>ids. ModifyAckDeadlineRequest sub ids 0) nacks evs \<Longrightarrow> asks_only sub acks nacks evs"
  by (fastforce simp: asks_only_def within_limit_def split: if_splits)

lemma asks_only_extensions:
  assumes "list_all (\<lambda>ev. \<exists>b. ev_request ev = ModifyAckDeadlineRequest sub b dl \<and> set b \<subseteq> K) evs" and "dl \<noteq> 0"
  shows "asks_only sub acks nacks evs"
proof -
  have "ack_ids_of s (ev_request ev) = [] \<and> modack_ids_of s 0 (ev_request ev) = []" if "ev \<in> set evs" for ev s
    using assms that by (auto simp: list_all_iff)
  then show ?thesis by (simp add: asks_only_def)
qed

context transport
begin

text \<open>A round that ran to its end.\<close>

lemma process_swapped_steps:
  assumes "process_swapped E call acks nacks it w = Some (Inr ms, it', w')"
  obtains w1 w2 dl ids where "SendAcks E call (subscriptionName it) acks w = Some (Inr (), w1)"
    and "SendNacks E call (subscriptionName it) nacks w1 = Some (Inr (), w2)"
    and "AckDeadline it = Inr dl"
    and "ModifyAckDeadlines E call (subscriptionName it) (erase_keys (erase_keys (keepAliveAckIDs it) acks) nacks)
      dl (gracePeriod it) w2 = Some (Inr ms, ids, w')"
    and "it' = it\<lparr>keepAliveAckIDs := ids\<rparr>"
  using assms
  by (auto simp: process_swapped_def Let_def AckDeadline_def split: option.splits sum.splits)

text \<open>Whatever happens, only \<open>keepAliveAckIDs\<close> changes, it never grows, and the log only grows.\<close>

lemma process_swapped_frame:
  assumes "process_swapped E call acks nacks it w = Some (r, it', w')"
  shows "it' = it\<lparr>keepAliveAckIDs := keepAliveAckIDs it'\<rparr>"
    and "set (um_keys (keepAliveAckIDs it')) \<subseteq> set (um_keys (keepAliveAckIDs it)) - set acks"
  using assms
  by (auto simp: process_swapped_def Let_def container_simps dest!: ModifyAckDeadlines_keys
      split: option.splits sum.splits)

lemma process_swapped_complete:
  assumes run: "process_swapped E call acks nacks it w = Some (Inr ms, it', w')"
    and "us_ok id acks" and "us_ok id nacks"
  obtains evsA evsN evsE dl where "w_log w' = evsE @ evsN @ evsA @ w_log w" and "w_time w \<le> w_time w'"
    and "mset (ok_ids (ack_ids_of (subscriptionName it)) evsA) = mset acks"
    and "mset (ok_ids (modack_ids_of (subscriptionName it) 0) evsN) = mset nacks"
    and "AckDeadline it = Inr dl"
    and "list_all (\<lambda>ev. \<exists>b. ev_request ev = ModifyAckDeadlineRequest (subscriptionName it) b dl \<and>
      set b \<subseteq> set (um_keys (keepAliveAckIDs it'))) evsE"
    and "set (um_keys (keepAliveAckIDs it')) = set (um_keys (keepAliveAckIDs it)) - set acks - set nacks"
proof -
  obtain w1 w2 dl ids where a: "SendAcks E call (subscriptionName it) acks w = Some (Inr (), w1)"
    and n: "SendNacks E call (subscriptionName it) nacks w1 = Some (Inr (), w2)"
    and dl: "AckDeadline it = Inr dl"
    and m: "ModifyAckDeadlines E call (subscriptionName it) (erase_keys (erase_keys (keepAliveAckIDs it) acks) nacks)
      dl (gracePeriod it) w2 = Some (Inr ms, ids, w')"
    and it': "it' = it\<lparr>keepAliveAckIDs := ids\<rparr>"
    using run by (rule process_swapped_steps) (rule that)
  obtain evsA where A: "w_log w1 = evsA @ w_log w" "w_time w \<le> w_time w1"
    "mset (ok_ids (ack_ids_of (subscriptionName it)) evsA) = mset acks"
    using SendAcks_sends [OF assms(2) a] by auto
  obtain evsN where N: "w_log w2 = evsN @ w_log w1" "w_time w1 \<le> w_time w2"
    "mset (ok_ids (modack_ids_of (subscriptionName it) 0) evsN) = mset nacks"
    using SendNacks_sends [OF assms(3) n] by auto
  have keys: "um_keys ids = um_keys (erase_keys (erase_keys (keepAliveAckIDs it) acks) nacks)"
    using m by (rule ModifyAckDeadlines_keys)
  obtain evsE where X: "w_log w' = evsE @ w_log w2" "w_time w2 \<le> w_time w'"
    "list_all (\<lambda>ev. \<exists>b. ev_request ev = ModifyAckDeadlineRequest (subscriptionName it) b dl \<and>
      set b \<subseteq> set (um_keys ids)) evsE"
    using ModifyAckDeadlines_log [OF m] keys by auto
  show thesis
    using A N X keys it' dl by (intro that [of evsE evsN evsA dl]) (auto simp: container_simps)
qed

lemma process_swapped_cases:
  assumes run: "process_swapped E call acks nacks it w = Some (r, it', w')"
  obtains (acks_fail) e where "SendAcks E call (subscriptionName it) acks w = Some (Inl e, w')" and "r = Inl e"
    | (nacks_fail) e w1 where "SendAcks E call (subscriptionName it) acks w = Some (Inr (), w1)"
        and "SendNacks E call (subscriptionName it) nacks w1 = Some (Inl e, w')" and "r = Inl e"
    | (no_deadline) e w1 where "SendAcks E call (subscriptionName it) acks w = Some (Inr (), w1)"
        and "SendNacks E call (subscriptionName it) nacks w1 = Some (Inr (), w')" and "r = Inl e"
        and "AckDeadline it = Inl e"
    | (extend) w1 w2 dl ids where "SendAcks E call (subscriptionName it) acks w = Some (Inr (), w1)"
        and "SendNacks E call (subscriptionName it) nacks w1 = Some (Inr (), w2)" and "AckDeadline it = Inr dl"
        and "ModifyAckDeadlines E call (subscriptionName it) (erase_keys (erase_keys (keepAliveAckIDs it) acks) nacks)
          dl (gracePeriod it) w2 = Some (r, ids, w')"
proof -
  have dl: "AckDeadline (it\<lparr>keepAliveAckIDs := m\<rparr>) = AckDeadline it" for m by (simp add: AckDeadline_def)
  from run consider e where "SendAcks E call (subscriptionName it) acks w = Some (Inl e, w')" "r = Inl e"
    | w1 where "SendAcks E call (subscriptionName it) acks w = Some (Inr (), w1)"
    by (auto simp: process_swapped_def Let_def split: option.splits sum.splits)
  then show thesis
  proof cases
    case 1
    then show thesis by (rule acks_fail)
  next
    case (2 w1)
    with run consider e where "SendNacks E call (subscriptionName it) nacks w1 = Some (Inl e, w')" "r = Inl e"
      | w2 where "SendNacks E call (subscriptionName it) nacks w1 = Some (Inr (), w2)"
      by (auto simp: process_swapped_def Let_def split: option.splits sum.splits)
    then show thesis
    proof cases
      case 1
      with 2 show thesis by (intro nacks_fail)
    next
      case n: (2 w2)
      show thesis
      proof (cases "AckDeadline it")
        case (Inl e)
        with run 2 n have "w2 = w'" "r = Inl e"
          by (simp_all add: process_swapped_def Let_def dl)
        with 2 n Inl show thesis by (intro no_deadline) simp_all
      next
        case (Inr d)
        with run 2 n show thesis
          by (auto simp: process_swapped_def Let_def dl split: option.splits intro: extend)
      qed
    qed
  qed
qed

lemma process_swapped_keeps:
  assumes "process_swapped E call acks nacks it w = Some (r, it', w')"
  shows "set (um_keys (keepAliveAckIDs it)) - set acks - set nacks \<subseteq> set (um_keys (keepAliveAckIDs it'))"
  using assms
  by (auto simp: process_swapped_def Let_def container_simps dest!: ModifyAckDeadlines_keys
      split: option.splits sum.splits)

lemma process_swapped_asks:
  assumes run: "process_swapped E call acks nacks it w = Some (r, it', w')"
    and ok: "us_ok id acks" "us_ok id nacks" and hist: "ackDist it \<noteq> []"
  shows "\<exists>evs. w_log w' = evs @ w_log w \<and> asks_only (subscriptionName it) acks nacks evs"
proof -
  let ?sub = "subscriptionName it"
  have A: "\<exists>evs. w_log w1 = evs @ w_log w \<and> asks_only ?sub acks nacks evs"
    if "SendAcks E call ?sub acks w = Some (q, w1)" for q w1
    using SendAcks_sends [OF ok(1) that] asks_only_acks by blast
  have N: "\<exists>evs. w_log w2 = evs @ w_log w1 \<and> asks_only ?sub acks nacks evs"
    if "SendNacks E call ?sub nacks w1 = Some (q, w2)" for q w1 w2
    using SendNacks_sends [OF ok(2) that] asks_only_nacks by blast
  show ?thesis
    using run
  proof (cases rule: process_swapped_cases)
    case (acks_fail e)
    with A show ?thesis by blast
  next
    case (nacks_fail e w1)
    from A [OF nacks_fail(1)] N [OF nacks_fail(2)] show ?thesis by auto
  next
    case (no_deadline e w1)
    from A [OF no_deadline(1)] N [OF no_deadline(2)] show ?thesis by auto
  next
    case (extend w1 w2 dl ids)
    have "10 \<le> dl" using AckDeadline_range [OF hist] extend(3) by simp
    then obtain evs where "w_log w' = evs @ w_log w2" "asks_only ?sub acks nacks evs"
      using ModifyAckDeadlines_log [OF extend(4)] asks_only_extensions [of ?sub dl] by fastforce
    with A [OF extend(1)] N [OF extend(2)] show ?thesis by auto
  qed
qed

lemma process_swapped_safe:
  assumes run: "process_swapped E call acks nacks it w = Some (Inr ms, it', w')"
    and ok: "um_ok (keepAliveAckIDs it)" "us_ok id acks" "us_ok id nacks"
    and grace: "gracePeriod it = 5" and hist: "ackDist it \<noteq> []"
    and k: "map_of (keepAliveAckIDs it') k = Some d"
  shows "w_time w + ns_of_s 5 < nextAck d"
proof -
  obtain w1 w2 dl ids where a: "SendAcks E call (subscriptionName it) acks w = Some (Inr (), w1)"
    and n: "SendNacks E call (subscriptionName it) nacks w1 = Some (Inr (), w2)"
    and dl: "AckDeadline it = Inr dl"
    and m: "ModifyAckDeadlines E call (subscriptionName it) (erase_keys (erase_keys (keepAliveAckIDs it) acks) nacks)
      dl (gracePeriod it) w2 = Some (Inr ms, ids, w')"
    and it': "it' = it\<lparr>keepAliveAckIDs := ids\<rparr>"
    using run by (rule process_swapped_steps) (rule that)
  have "10 \<le> dl" using AckDeadline_range [OF hist] dl by simp
  with ModifyAckDeadlines_safe [OF m] ok grace k it'
  have "w_time w2 + ns_of_s 5 < nextAck d" by simp
  moreover have "w_time w \<le> w_time w2"
    using SendAcks_sends [OF ok(2) a] SendNacks_sends [OF ok(3) n] by auto
  ultimately show ?thesis by simp
qed

end

lemma AckDeadline_covers:
  assumes "length vs < 2 ^ 46" and "record_all vs (replicate HighLimit 0) = Inr (ackDist it)"
  shows "\<exists>dl. AckDeadline it = Inr dl \<and> 10 \<le> dl \<and> dl \<le> 600 \<and>
    99 * length vs \<le> 100 * length (filter (\<lambda>v. min (unat v) 600 \<le> nat dl) vs) \<and>
    (dl = 10 \<or> (\<forall>j<nat dl. 100 * length (filter (\<lambda>v. min (unat v) 600 \<le> j) vs) < 99 * length vs))"
proof -
  let ?cnt = "\<lambda>i. length (filter (\<lambda>v. min (unat v) 600 \<le> i) vs)"
  obtain i where P: "Percentile d099 (ackDist it) = Inr (of_nat i)" "i < HighLimit" "99 * length vs \<le> 100 * ?cnt i"
    and less: "\<forall>j<i. 100 * ?cnt j < 99 * length vs"
    using percentile_99th [OF assms(1)] assms(2) by auto
  let ?dl = "min (max (int i) 10) 600"
  have "uint (of_nat i :: u64) = int i"
    using P(2) by (simp add: HighLimit_def unsigned_of_nat take_bit_nat_eq_self)
  then have dl: "AckDeadline it = Inr ?dl"
    using P(1) by (simp add: AckDeadline_def kMinAckDeadline_def kMaxAckDeadline_def)
  have "i \<le> nat ?dl" using P(2) by (simp add: HighLimit_def)
  then have "?cnt i \<le> ?cnt (nat ?dl)" by (induction vs) auto
  then have "99 * length vs \<le> 100 * ?cnt (nat ?dl)" using P(3) by linarith
  moreover have "?dl = 10 \<or> (\<forall>j<nat ?dl. 100 * ?cnt j < 99 * length vs)"
    using less by (cases "i \<le> 10") (auto simp: nat_less_iff)
  ultimately show ?thesis using dl by (intro exI [of _ ?dl]) simp
qed

lemma demo_recorded: "record_all [3] (replicate HighLimit 0) = Inr ((replicate HighLimit 0)[3 := 1])"
proof -
  let ?h = "replicate HighLimit 0 :: hist"
  have "bucket ?h 3 = 3" by (simp add: bucket_def HighLimit_def)
  moreover have "?h ! 3 = 0" by (simp add: HighLimit_def)
  moreover have "?h \<noteq> []" "length ?h < 2 ^ 64" by (simp_all add: HighLimit_def)
  ultimately have R: "Record 3 ?h = Inr (?h[3 := 1])" using Record_bucket [of ?h 3] by simp
  show ?thesis unfolding record_all.simps R sum.case ..
qed

section \<open>Properties\<close>



end
