(* ===== verification/Iterators.thy ===== *)
theory Iterators
  imports Deadlines
begin

text \<open>
  The invariant of a \<open>ModAckIterator\<close>, that every operation keeps it, and the abstract view of its
  pending sets: a map from the message to the last answer the user gave (the locale \<open>answer_book\<close>).
\<close>

section \<open>The invariant\<close>

definition iterator_ok :: "ModAckIterator \<Rightarrow> bool" where
  "iterator_ok it \<longleftrightarrow> um_ok (inputAckIDs it) \<and> um_ok (keepAliveAckIDs it) \<and>
     us_ok id (pendingAckIDs it) \<and> us_ok id (pendingNackIDs it) \<and>
     set (pendingAckIDs it) \<inter> set (pendingNackIDs it) = {} \<and>
     length (ackDist it) = HighLimit \<and> gracePeriod it = 5"

lemma iterator_ok_new: "length memory = HighLimit \<Longrightarrow> iterator_ok (new_ModAckIterator name memory cp tp bp)"
  by (simp add: iterator_ok_def new_ModAckIterator_def kMinAckDeadline_def signed_divide_int_def)

lemma iterator_ok_AddDeadlineWatcher: "iterator_ok it \<Longrightarrow> iterator_ok (AddDeadlineWatcher k t it)"
  by (simp add: iterator_ok_def AddDeadlineWatcher_def um.ok_assign)

lemma iterator_ok_mark_done: "iterator_ok it \<Longrightarrow> iterator_ok (mark_done k a it)"
  by (cases a) (auto simp: iterator_ok_def mark_done_def container_simps)

lemma iterator_ok_MergeInput: "iterator_ok it \<Longrightarrow> iterator_ok (MergeInput it)"
  by (simp add: iterator_ok_def MergeInput_def um.ok_merge)

lemma swap_pending_simps:
  assumes "swap_pending it = (acks, nacks, it')" and "executorAlive it"
  shows "acks = pendingAckIDs it" "nacks = pendingNackIDs it"
    "it' = it\<lparr>pendingAckIDs := [], pendingNackIDs := []\<rparr>"
  using assms by (auto simp: swap_pending_def)

lemma iterator_ok_swap_pending:
  assumes "swap_pending it = (acks, nacks, it')" and "iterator_ok it"
  shows "iterator_ok it'" "us_ok id acks" "us_ok id nacks" "set acks \<inter> set nacks = {}"
  using assms by (auto simp: swap_pending_def iterator_ok_def split: if_splits)

lemma Done_result:
  assumes "length (ackDist it) = HighLimit" and "Done E k rt a it w = (r, w')"
  obtains d where "length d = HighLimit" and "w_log w' = w_log w" and "w_time w \<le> w_time w'"
    and "r = Inr (if executorAlive it then mark_done k a (it\<lparr>ackDist := d\<rparr>) else it\<lparr>ackDist := d\<rparr>)"
proof -
  obtain now w1 where now: "steady_now E w = (now, w1)" by (cases "steady_now E w")
  let ?v = "word_of_int (s_of_ns (now - rt)) :: u64"
  have "Record ?v (ackDist it) = Inr ((ackDist it)[bucket (ackDist it) ?v := ackDist it ! bucket (ackDist it) ?v + 1])"
    using assms(1) by (intro Record_bucket) (auto simp: HighLimit_def)
  with assms now steady_now_frame [OF now] show thesis
    by (intro that [of "(ackDist it)[bucket (ackDist it) ?v := ackDist it ! bucket (ackDist it) ?v + 1]"])
      (auto simp: Done_def Let_def)
qed

lemma iterator_ok_Done:
  assumes "iterator_ok it" and "Done E k rt a it w = (r, w')"
  shows "\<exists>it'. r = Inr it' \<and> iterator_ok it'"
proof -
  have len: "length (ackDist it) = HighLimit" using assms(1) by (simp add: iterator_ok_def)
  obtain d where d: "length d = HighLimit"
    and r: "r = Inr (if executorAlive it then mark_done k a (it\<lparr>ackDist := d\<rparr>) else it\<lparr>ackDist := d\<rparr>)"
    using len assms(2) by (rule Done_result)
  have "iterator_ok (it\<lparr>ackDist := d\<rparr>)" using assms(1) d by (simp add: iterator_ok_def)
  with r show ?thesis by (simp add: iterator_ok_mark_done)
qed

context transport
begin

lemma process_swapped_um_ok:
  assumes "process_swapped E call acks nacks it w = Some (r, it', w')" and "um_ok (keepAliveAckIDs it)"
  shows "um_ok (keepAliveAckIDs it')"
proof -
  have "um_ok m'" if "ModifyAckDeadlines E call sub m dl g w1 = Some (q, m', w2)" "um_ok m"
    for sub m dl g w1 q m' w2
    using ModifyAckDeadlines_keys [OF that(1)] that(2) by (simp add: um_ok_keys)
  with assms show ?thesis
    by (auto simp: process_swapped_def Let_def split: option.splits sum.splits)
qed

lemma iterator_ok_process_swapped:
  assumes "process_swapped E call acks nacks it w = Some (r, it', w')" and "iterator_ok it"
  shows "iterator_ok it'"
proof -
  have "it' = it\<lparr>keepAliveAckIDs := keepAliveAckIDs it'\<rparr>" using process_swapped_frame(1) [OF assms(1)] .
  moreover have "um_ok (keepAliveAckIDs it')"
    using process_swapped_um_ok [OF assms(1)] assms(2) by (simp add: iterator_ok_def)
  moreover have "iterator_ok (it\<lparr>keepAliveAckIDs := m\<rparr>)" if "um_ok m" for m
    using assms(2) that by (simp add: iterator_ok_def)
  ultimately show ?thesis by metis
qed

end

section \<open>Answers\<close>

text \<open>What a pair of sets will tell the service about a message.\<close>

definition verdict :: "AckIDSet \<Rightarrow> AckIDSet \<Rightarrow> AckID \<Rightarrow> DoneAction option" where
  "verdict acks nacks k = (if k \<in> set acks then Some Ack else if k \<in> set nacks then Some Nack else None)"

definition answers :: "ModAckIterator \<Rightarrow> AckID \<Rightarrow> DoneAction option" where
  "answers it = verdict (pendingAckIDs it) (pendingNackIDs it)"

lemma dom_verdict: "dom (verdict acks nacks) = set acks \<union> set nacks"
  by (auto simp: verdict_def split: if_splits)

lemma verdict_Nil [simp]: "verdict [] [] = Map.empty"
  by (simp add: verdict_def fun_eq_iff)

lemma verdict_simps:
  "verdict acks nacks k = Some Ack \<longleftrightarrow> k \<in> set acks"
  "set acks \<inter> set nacks = {} \<Longrightarrow> verdict acks nacks k = Some Nack \<longleftrightarrow> k \<in> set nacks"
  by (auto simp: verdict_def)

locale answer_book =
  fixes ok :: "'s \<Rightarrow> bool"
    and answer_of :: "'s \<Rightarrow> 'k \<Rightarrow> 'a option"
    and answer :: "'k \<Rightarrow> 'a \<Rightarrow> 's \<Rightarrow> 's"
  assumes ok_answer: "ok s \<Longrightarrow> ok (answer k a s)"
    and answer_of_answer: "ok s \<Longrightarrow> answer_of (answer k a s) = (answer_of s)(k \<mapsto> a)"
begin

definition answer_all :: "('k \<times> 'a) list \<Rightarrow> 's \<Rightarrow> 's" where
  "answer_all xs s = fold (\<lambda>(k, a). answer k a) xs s"

lemma ok_answer_all: "ok s \<Longrightarrow> ok (answer_all xs s)"
  unfolding answer_all_def by (induction xs arbitrary: s) (auto simp: ok_answer)

text \<open>The last answer to a message counts.\<close>

lemma answer_of_answer_all: "ok s \<Longrightarrow> answer_of (answer_all xs s) = answer_of s ++ map_of (rev xs)"
proof (induction xs arbitrary: s)
  case Nil
  then show ?case by (simp add: answer_all_def)
next
  case (Cons x xs)
  obtain k a where x: "x = (k, a)" by (cases x)
  have "answer_of (answer_all (x # xs) s) = answer_of (answer k a s) ++ map_of (rev xs)"
    using Cons.IH [of "answer k a s"] Cons.prems by (simp add: x answer_all_def ok_answer)
  also have "\<dots> = answer_of s ++ map_of (rev (x # xs))"
    using Cons.prems by (simp add: x answer_of_answer map_add_def fun_eq_iff split: option.splits)
  finally show ?case .
qed

end

interpretation pending: answer_book iterator_ok answers mark_done
proof unfold_locales
  fix it k a
  assume ok: "iterator_ok it"
  then show "iterator_ok (mark_done k a it)" by (rule iterator_ok_mark_done)
  show "answers (mark_done k a it) = (answers it)(k \<mapsto> a)"
  proof
    fix x
    show "answers (mark_done k a it) x = ((answers it)(k \<mapsto> a)) x"
      using ok by (cases a) (auto simp: answers_def verdict_def mark_done_def container_simps)
  qed
qed

section \<open>An example\<close>

text \<open>One message was acked, one was nacked, one is still out and due.\<close>

definition demo_iterator :: ModAckIterator where
  "demo_iterator =
     (new_ModAckIterator ''s'' (replicate HighLimit 0) default_RetryCountPolicy default_MaxRetryTimePolicy (demo_policy 1 1))
     \<lparr>pendingAckIDs := [''a''], pendingNackIDs := [''n''],
      keepAliveAckIDs := [(''a'', \<lparr>nextAck = 0\<rparr>), (''n'', \<lparr>nextAck = 0\<rparr>), (''k'', \<lparr>nextAck = 0\<rparr>)]\<rparr>"

definition demo_round_world :: world where
  "demo_round_world =
     (let R = demo_reply OK [''id''] [];
          w1 = answered_world (AcknowledgeRequest ''s'' [''a'']) 20 R demo_world;
          w2 = answered_world (ModifyAckDeadlineRequest ''s'' [''n''] 0) 20 R w1
      in answered_world (ModifyAckDeadlineRequest ''s'' [''k''] 10) 20 R (snd (steady_now (demo_env ok_server) w2)))"

definition demo_iterator_after :: ModAckIterator where
  "demo_iterator_after = demo_iterator\<lparr>pendingAckIDs := [], pendingNackIDs := [],
     keepAliveAckIDs := [(''k'', \<lparr>nextAck = 10000012000\<rparr>)]\<rparr>"

lemma demo_iterator_ok: "iterator_ok demo_iterator"
  by (simp add: demo_iterator_def iterator_ok_def new_ModAckIterator_def um_ok_def us_ok_def kMinAckDeadline_def
      signed_divide_int_def)

lemma demo_iterator_deadline: "ackDist it = replicate HighLimit 0 \<Longrightarrow> AckDeadline it = Inr 10"
proof -
  assume "ackDist it = replicate HighLimit 0"
  then obtain dl where dl: "AckDeadline it = Inr dl" "10 \<le> dl" "dl = 10 \<or> (\<forall>j<nat dl. False)"
    using AckDeadline_covers [of "[]" it] by auto
  have "dl = 10" using dl(2) dl(3) by (elim disjE) (simp, drule spec [of _ 0], simp)
  with dl(1) show ?thesis by simp
qed

lemma demo_round:
  "ProcessModAcks (demo_env ok_server) demo_iterator demo_world =
    Some (Inr kSoManyMilliseconds, demo_iterator_after, demo_round_world)"
proof -
  have call: "iterator_call (demo_env ok_server) demo_iterator = demo_call"
    by (rule ext)+ (simp add: iterator_call_def demo_iterator_def new_ModAckIterator_def demo_call_def kDefaultRPCTimeout_def)
  have dl: "ackDist it = replicate HighLimit 0 \<Longrightarrow> AckDeadline it = Inr 10" for it
    by (rule demo_iterator_deadline)
  show ?thesis
    unfolding ProcessModAcks_def call
    by (simp add: demo_iterator_def new_ModAckIterator_def swap_pending_def process_swapped_def Let_def SendAcks_def
        SendNacks_def batch_loop.simps split_eval AckMessages_def nack_batch_def ExtendAckDeadlines_def demo_call_ok
        demo_ack_status populate_ack_ids_set_eq populate_ack_ids_pack_eq dl erase_keys_def um_erase_def us_erase_def
        ModifyAckDeadlines_def steady_now_def due_def ExtendIn_def ms_of_ns_def ms_of_s_def extend_batch_def
        update_all_def um_update_def UpdateNextAck_def demo_iterator_after_def demo_round_world_def
        signed_divide_int_def kMinAckDeadline_def ns_of_s_def)
qed

text \<open>A message that is not due yet.\<close>

definition demo_waiting :: ModAckIterator where
  "demo_waiting = demo_iterator\<lparr>pendingAckIDs := [], pendingNackIDs := [],
     keepAliveAckIDs := [(''k'', \<lparr>nextAck = 60000000000\<rparr>)]\<rparr>"

lemma demo_waiting_ok: "iterator_ok demo_waiting" "executorAlive demo_waiting" "executorAlive demo_iterator"
  by (simp_all add: demo_waiting_def demo_iterator_def iterator_ok_def new_ModAckIterator_def um_ok_def us_ok_def
      kMinAckDeadline_def signed_divide_int_def)

lemma demo_waiting_round:
  "ProcessModAcks (demo_env ok_server) demo_waiting demo_world =
    Some (Inr 29999, demo_waiting, snd (steady_now (demo_env ok_server) demo_world))"
proof -
  have dl: "ackDist it = replicate HighLimit 0 \<Longrightarrow> AckDeadline it = Inr 10" for it
    by (rule demo_iterator_deadline)
  show ?thesis
    by (simp add: ProcessModAcks_def demo_waiting_def demo_iterator_def new_ModAckIterator_def swap_pending_def
        process_swapped_def Let_def SendAcks_def SendNacks_def dl erase_keys_def ModifyAckDeadlines_def steady_now_def
        due_def ExtendIn_def ms_of_ns_def ms_of_s_def kSoManyMilliseconds_def signed_divide_int_def kMinAckDeadline_def)
qed

text \<open>One message was acked and one nacked, but the service does not answer.\<close>

definition demo_refused :: ModAckIterator where
  "demo_refused = demo_iterator\<lparr>countPolicy := \<lparr>policy_count = 1\<rparr>\<rparr>"

lemma demo_refused_ok: "iterator_ok demo_refused" "executorAlive demo_refused"
  by (simp_all add: demo_refused_def demo_iterator_def iterator_ok_def new_ModAckIterator_def um_ok_def us_ok_def
      kMinAckDeadline_def signed_divide_int_def)

definition demo_refusal :: exn where
  "demo_refusal = Exception_code (exhausted_text (demo_env down_server) (AcknowledgeRequest ''s'' [''a''])
     \<lparr>policy_count = 1\<rparr> default_MaxRetryTimePolicy) 14"

lemma demo_SendAcks_refused:
  "SendAcks (demo_env down_server) (iterator_call (demo_env down_server) demo_refused) (subscriptionName demo_refused)
    (pendingAckIDs demo_refused) demo_world = Some (Inl demo_refusal, down_world (AcknowledgeRequest ''s'' [''a'']))"
proof -
  have call: "iterator_call (demo_env down_server) demo_refused req demo_world =
      Some (Inl (Exception_code (exhausted_text (demo_env down_server) req \<lparr>policy_count = 1\<rparr> default_MaxRetryTimePolicy) 14),
        down_world req)" for req
    using demo_down [of req]
    by (simp add: iterator_call_def demo_refused_def demo_iterator_def new_ModAckIterator_def kDefaultRPCTimeout_def)
  have "subscriptionName demo_refused = ''s''" "pendingAckIDs demo_refused = [''a'']"
    by (simp_all add: demo_refused_def demo_iterator_def new_ModAckIterator_def)
  then show ?thesis
    by (simp add: SendAcks_def batch_loop.simps split_eval AckMessages_def call populate_ack_ids_set_eq demo_refusal_def)
qed

section \<open>Properties\<close>

text \<open>
  C10. A round that returns normally has told the service every pending answer: each acked id was in an
  accepted \<open>Acknowledge\<close>, each nacked id in an accepted deadline of zero seconds. Nothing else was
  acknowledged or nacked, the pending sets are empty, and exactly the answered ids are no longer extended.
\<close>

theorem ProcessModAcks_complete:
  assumes "iterator_ok it" and "executorAlive it" and "ProcessModAcks E it w = Some (Inr ms, it', w')"
  shows "\<exists>evs. w_log w' = evs @ w_log w \<and>
    set (pendingAckIDs it) \<subseteq> set (ok_ids (ack_ids_of (subscriptionName it)) evs) \<and>
    set (pendingNackIDs it) \<subseteq> set (ok_ids (modack_ids_of (subscriptionName it) 0) evs) \<and>
    asks_only (subscriptionName it) (pendingAckIDs it) (pendingNackIDs it) evs \<and>
    pendingAckIDs it' = [] \<and> pendingNackIDs it' = [] \<and>
    set (um_keys (keepAliveAckIDs it')) =
      set (um_keys (keepAliveAckIDs it)) - set (pendingAckIDs it) - set (pendingNackIDs it)"
proof -
  let ?it = "it\<lparr>pendingAckIDs := [], pendingNackIDs := []\<rparr>"
  have run: "process_swapped E (make_call E (countPolicy it) (timePolicy it) (ackBackoffPolicy it) kDefaultRPCTimeout)
      (pendingAckIDs it) (pendingNackIDs it) ?it w = Some (Inr ms, it', w')"
    using assms(2,3) by (simp add: ProcessModAcks_def swap_pending_def iterator_call_def)
  have ok: "us_ok id (pendingAckIDs it)" "us_ok id (pendingNackIDs it)" "ackDist ?it \<noteq> []"
    using assms(1) by (auto simp: iterator_ok_def HighLimit_def)
  obtain evs where log: "w_log w' = evs @ w_log w"
    and asks: "asks_only (subscriptionName it) (pendingAckIDs it) (pendingNackIDs it) evs"
    using stub.process_swapped_asks [OF run ok] by auto
  obtain evsA evsN evsE where parts: "w_log w' = evsE @ evsN @ evsA @ w_log w"
    and m: "mset (ok_ids (ack_ids_of (subscriptionName it)) evsA) = mset (pendingAckIDs it)"
      "mset (ok_ids (modack_ids_of (subscriptionName it) 0) evsN) = mset (pendingNackIDs it)"
    and keys: "set (um_keys (keepAliveAckIDs it')) =
      set (um_keys (keepAliveAckIDs it)) - set (pendingAckIDs it) - set (pendingNackIDs it)"
    using run ok(1,2) by (rule stub.process_swapped_complete) (rule that, simp_all)
  have "evs = evsE @ evsN @ evsA" using log parts by simp
  moreover have "set (pendingAckIDs it) = set (ok_ids (ack_ids_of (subscriptionName it)) evsA)"
    "set (pendingNackIDs it) = set (ok_ids (modack_ids_of (subscriptionName it) 0) evsN)"
    using m by (metis set_mset_mset)+
  moreover have "pendingAckIDs it' = []" "pendingNackIDs it' = []"
    using arg_cong [OF stub.process_swapped_frame(1) [OF run], of pendingAckIDs]
      arg_cong [OF stub.process_swapped_frame(1) [OF run], of pendingNackIDs] by simp_all
  ultimately show ?thesis using log asks keys by auto
qed

theorem ProcessModAcks_complete_witness:
  "\<exists>evs. w_log demo_round_world = evs @ w_log demo_world \<and>
    set (pendingAckIDs demo_iterator) \<subseteq> set (ok_ids (ack_ids_of (subscriptionName demo_iterator)) evs) \<and>
    set (pendingNackIDs demo_iterator) \<subseteq> set (ok_ids (modack_ids_of (subscriptionName demo_iterator) 0) evs) \<and>
    asks_only (subscriptionName demo_iterator) (pendingAckIDs demo_iterator) (pendingNackIDs demo_iterator) evs \<and>
    pendingAckIDs demo_iterator_after = [] \<and> pendingNackIDs demo_iterator_after = [] \<and>
    set (um_keys (keepAliveAckIDs demo_iterator_after)) =
      set (um_keys (keepAliveAckIDs demo_iterator)) - set (pendingAckIDs demo_iterator) - set (pendingNackIDs demo_iterator)"
  by (rule ProcessModAcks_complete [OF demo_iterator_ok demo_waiting_ok(3) demo_round])





text \<open>
  C16. When sending the acks ends with an exception, the nacks of the round are lost: they were taken out of
  the pending set, no deadline of zero is sent for them, and they stay among the ids whose deadlines are
  extended from then on. (\<open>ProcessModAcks\<close> works on swapped-out copies and erases the nacks only after the
  acks were sent.)
\<close>

theorem failed_acks_lose_the_nacks:
  assumes "iterator_ok it" and "executorAlive it"
    and "SendAcks E (iterator_call E it) (subscriptionName it) (pendingAckIDs it) w = Some (Inl e, w')"
  shows "\<exists>it' evs. ProcessModAcks E it w = Some (Inl e, it', w') \<and> w_log w' = evs @ w_log w \<and>
    pendingAckIDs it' = [] \<and> pendingNackIDs it' = [] \<and>
    (\<forall>ev\<in>set evs. \<forall>s dl. modack_ids_of s dl (ev_request ev) = []) \<and>
    (\<forall>k\<in>set (pendingNackIDs it). k \<in> set (um_keys (keepAliveAckIDs it)) \<longrightarrow> k \<in> set (um_keys (keepAliveAckIDs it')))"
proof -
  let ?it = "it\<lparr>pendingAckIDs := [], pendingNackIDs := [],
    keepAliveAckIDs := erase_keys (keepAliveAckIDs it) (pendingAckIDs it)\<rparr>"
  have run: "ProcessModAcks E it w = Some (Inl e, ?it, w')"
    using assms(2,3) by (simp add: ProcessModAcks_def swap_pending_def process_swapped_def iterator_call_def Let_def)
  obtain evs where log: "w_log w' = evs @ w_log w"
    and lim: "within_limit id (AcknowledgeRequest (subscriptionName it)) (pendingAckIDs it) evs"
    using stub.SendAcks_sends [OF _ assms(3) [unfolded iterator_call_def]] assms(1) by (auto simp: iterator_ok_def)
  have "\<forall>ev\<in>set evs. \<forall>s dl. modack_ids_of s dl (ev_request ev) = []"
    using lim unfolding within_limit_def by force
  moreover have "set (pendingAckIDs it) \<inter> set (pendingNackIDs it) = {}" using assms(1) by (simp add: iterator_ok_def)
  ultimately show ?thesis
    using run log by (intro exI [of _ ?it] exI [of _ evs]) (auto simp: container_simps)
qed

theorem failed_acks_lose_the_nacks_witness:
  "\<exists>it' evs. ProcessModAcks (demo_env down_server) demo_refused demo_world =
      Some (Inl demo_refusal, it', down_world (AcknowledgeRequest ''s'' [''a''])) \<and>
    w_log (down_world (AcknowledgeRequest ''s'' [''a''])) = evs @ w_log demo_world \<and>
    pendingAckIDs it' = [] \<and> pendingNackIDs it' = [] \<and>
    (\<forall>ev\<in>set evs. \<forall>s dl. modack_ids_of s dl (ev_request ev) = []) \<and>
    (\<forall>k\<in>set (pendingNackIDs demo_refused). k \<in> set (um_keys (keepAliveAckIDs demo_refused)) \<longrightarrow>
      k \<in> set (um_keys (keepAliveAckIDs it')))"
  by (rule failed_acks_lose_the_nacks [OF demo_refused_ok demo_SendAcks_refused])

text \<open>
  C14. \<open>Done\<close> never fails on a live iterator, keeps its invariant, and implements the abstract answer book:
  the answer of the id becomes the given one, all other answers and all watched deadlines stay.
\<close>

theorem Done_refines_answer:
  assumes "iterator_ok it" and "executorAlive it" and "Done E k rt a it w = (r, w')"
  shows "\<exists>it'. r = Inr it' \<and> iterator_ok it' \<and> answers it' = (answers it)(k \<mapsto> a) \<and>
    inputAckIDs it' = inputAckIDs it \<and> keepAliveAckIDs it' = keepAliveAckIDs it \<and> w_log w' = w_log w"
proof -
  have len: "length (ackDist it) = HighLimit" using assms(1) by (simp add: iterator_ok_def)
  obtain d where d: "length d = HighLimit" "w_log w' = w_log w" and r: "r = Inr (mark_done k a (it\<lparr>ackDist := d\<rparr>))"
    using len assms(3) by (rule Done_result) (use assms(2) in simp)
  have ok: "iterator_ok (it\<lparr>ackDist := d\<rparr>)" using assms(1) d by (simp add: iterator_ok_def)
  have "answers (it\<lparr>ackDist := d\<rparr>) = answers it" by (simp add: answers_def)
  with pending.answer_of_answer [OF ok, of k a] iterator_ok_mark_done [OF ok, of k a] r d(2) show ?thesis
    by (cases a) (simp_all add: mark_done_def)
qed

theorem Done_refines_answer_witness:
  "\<exists>it'. fst (Done (demo_env ok_server) ''k'' 0 Ack demo_iterator demo_world) = Inr it' \<and> iterator_ok it' \<and>
    answers it' = (answers demo_iterator)(''k'' \<mapsto> Ack) \<and> inputAckIDs it' = inputAckIDs demo_iterator \<and>
    keepAliveAckIDs it' = keepAliveAckIDs demo_iterator \<and>
    w_log (snd (Done (demo_env ok_server) ''k'' 0 Ack demo_iterator demo_world)) = w_log demo_world"
  by (rule Done_refines_answer [OF demo_iterator_ok demo_waiting_ok(3)]) simp

text \<open>
  C15. Every operation of the iterator keeps its invariant: distinct keys, no id both acked and nacked, a
  histogram of 601 counters and a grace period of five seconds.
\<close>

theorem iterator_invariant:
  assumes "iterator_ok it"
  shows "iterator_ok (AddDeadlineWatcher k t it) \<and> iterator_ok (mark_done k a it) \<and> iterator_ok (MergeInput it) \<and>
    (\<forall>r w'. Done E k rt a it w = (r, w') \<longrightarrow> (\<exists>it'. r = Inr it' \<and> iterator_ok it')) \<and>
    (\<forall>r it' w'. ProcessModAcks E it w = Some (r, it', w') \<longrightarrow> iterator_ok it')"
proof -
  have "iterator_ok it'" if "ProcessModAcks E it w = Some (r, it', w')" for r it' w'
  proof -
    obtain acks nacks it1 where s: "swap_pending it = (acks, nacks, it1)" by (cases "swap_pending it")
    with that have "process_swapped E (make_call E (countPolicy it) (timePolicy it) (ackBackoffPolicy it) kDefaultRPCTimeout)
        acks nacks it1 w = Some (r, it', w')"
      by (simp add: ProcessModAcks_def iterator_call_def)
    then show ?thesis using iterator_ok_swap_pending(1) [OF s assms] by (rule stub.iterator_ok_process_swapped)
  qed
  with assms show ?thesis
    by (simp add: iterator_ok_AddDeadlineWatcher iterator_ok_mark_done iterator_ok_MergeInput iterator_ok_Done)
qed

theorem iterator_invariant_witness:
  "iterator_ok (AddDeadlineWatcher ''k'' 0 demo_iterator) \<and> iterator_ok (mark_done ''k'' Nack demo_iterator) \<and>
    iterator_ok (MergeInput demo_iterator) \<and> iterator_ok demo_iterator_after"
  using iterator_invariant [OF demo_iterator_ok, of "''k''" 0 Nack "demo_env ok_server" 0 demo_world] demo_round
  by blast

end
