(* ===== verification/Messages.thy ===== *)
theory Messages
  imports Executors Iterators
begin

text \<open>
  Messages and their delivery: \<open>MessageImpl\<close> (\<open>pubsuber/src/MessageImpl.h\<close>, \<open>MessageImpl.cpp\<close>) and
  \<open>SubscriptionPullIterator::Pull\<close> (\<open>SubscriptionPullIterator.h\<close>, \<open>SubscriptionPullIterator.cpp\<close>).

  The state of the process is the executor, the world and whatever the user's code keeps. A callback
  of the user may do anything with it; it reports whether it threw and whether it left the message in
  the pointer it was passed.
\<close>

section \<open>The process\<close>

record 'u sys =
  sy_exec :: Executor
  sy_world :: world
  sy_user :: 'u

definition upd_exec :: "(Executor \<Rightarrow> Executor) \<Rightarrow> 'u sys \<Rightarrow> 'u sys" where
  "upd_exec f s = s\<lparr>sy_exec := f (sy_exec s)\<rparr>"

section \<open>Messages\<close>

record MessageImpl =
  mi_iterator :: "iterator_ref option"
  mi_subscriptionName :: string
  mi_ackID :: string
  mi_attributes :: "string \<rightharpoonup> string"
  mi_msg :: pubsub_message
  mi_receiveTime :: nsecs

text \<open>\<open>std::map::insert\<close> keeps the value of a key that is there.\<close>

definition map_insert :: "string \<times> string \<Rightarrow> (string \<rightharpoonup> string) \<Rightarrow> (string \<rightharpoonup> string)" where
  "map_insert p m = (case m (fst p) of None \<Rightarrow> m(fst p \<mapsto> snd p) | Some v \<Rightarrow> m)"

definition new_MessageImpl ::
  "iterator_ref \<Rightarrow> string \<Rightarrow> string \<Rightarrow> pubsub_message \<Rightarrow> nsecs \<Rightarrow> MessageImpl" where
  "new_MessageImpl it subName ackID msg rt =
     \<lparr>mi_iterator = Some it, mi_subscriptionName = subName, mi_ackID = ackID,
      mi_attributes = fold map_insert (msg_attributes msg) Map.empty, mi_msg = msg, mi_receiveTime = rt\<rparr>"

definition Payload :: "MessageImpl \<Rightarrow> string" where
  "Payload m = msg_data (mi_msg m)"

definition Attributes :: "MessageImpl \<Rightarrow> string \<rightharpoonup> string" where
  "Attributes m = mi_attributes m"

definition SubscriptionName :: "MessageImpl \<Rightarrow> string" where
  "SubscriptionName m = mi_subscriptionName m"

text \<open>
  Both answers lock the weak pointer, hand the answer to the iterator and forget the pointer.
  \<open>Done\<close> is \<open>noexcept\<close>, so an exception in it ends the process: the result \<open>Inl\<close>.
\<close>

definition message_done ::
  "env \<Rightarrow> DoneAction \<Rightarrow> MessageImpl \<Rightarrow> 'u sys \<Rightarrow> unit outcome \<times> MessageImpl \<times> 'u sys" where
  "message_done E action m s =
     (case mi_iterator m of
        None \<Rightarrow> (Inr (), m, s)
      | Some p \<Rightarrow>
          if owned (sy_exec s) p then
            (case Done E (mi_ackID m) (mi_receiveTime m) action (iterator_at (sy_exec s) p) (sy_world s) of
               (Inl e, w') \<Rightarrow> (Inl e, m, s\<lparr>sy_world := w'\<rparr>)
             | (Inr it, w') \<Rightarrow>
                 (Inr (), m\<lparr>mi_iterator := None\<rparr>,
                  s\<lparr>sy_exec := upd_iterator p (\<lambda>_. it) (sy_exec s), sy_world := w'\<rparr>))
          else (Inr (), m, s))"

definition Message_Ack :: "env \<Rightarrow> MessageImpl \<Rightarrow> 'u sys \<Rightarrow> unit outcome \<times> MessageImpl \<times> 'u sys" where
  "Message_Ack E m s = message_done E Ack m s"

definition Message_Nack :: "env \<Rightarrow> MessageImpl \<Rightarrow> 'u sys \<Rightarrow> unit outcome \<times> MessageImpl \<times> 'u sys" where
  "Message_Nack E m s = message_done E Nack m s"

definition Message_destroy :: "env \<Rightarrow> MessageImpl \<Rightarrow> 'u sys \<Rightarrow> unit outcome \<times> 'u sys" where
  "Message_destroy E m s = (case Message_Nack E m s of (r, m', s') \<Rightarrow> (r, s'))"

section \<open>Pulling\<close>

type_synonym 'u user_callback = "MessageImpl \<Rightarrow> 'u sys \<Rightarrow> unit outcome \<times> MessageImpl option \<times> 'u sys"

definition pull_request :: "SubscriptionPullIterator \<Rightarrow> rpc_request" where
  "pull_request it = PullRequest (pi_subscriptionName it) (pi_maxMessagePrefetch it) True"

text \<open>The call: what was received, and the time of it. It is not retried.\<close>

definition pull_call ::
  "env \<Rightarrow> SubscriptionPullIterator \<Rightarrow> world \<Rightarrow> (received_message list \<times> nsecs) outcome \<times> world" where
  "pull_call E it w =
     (case set_deadline E kDefaultRPCTimeout w of
        None \<Rightarrow> (Inl (Undefined ''deadline beyond the clock''), w)
      | Some d \<Rightarrow>
      case rpc_call E (pull_request it) kDefaultRPCTimeout w of (reply, w1) \<Rightarrow>
      if status_ok reply then
        (case steady_now E w1 of (pseudoNow, w2) \<Rightarrow>
           (Inr (resp_received_messages (rep_response reply), pseudoNow), w2))
      else
        (Inl (Exception_code (''Pubsuber: Pull of '' @ pi_subscriptionName it @ '' failed with error '' @
           to_string (e_code_num E (rep_code reply)) @ '': '' @ rep_text reply) (e_code_num E (rep_code reply))), w1))"

definition first_deadline :: "nsecs \<Rightarrow> nsecs" where
  "first_deadline now = now + ns_of_s kMinAckDeadline - ns_of_s 1"

text \<open>
  The first loop: all deadlines are watched before any message is delivered. A response without the
  message itself would be dereferenced as a null pointer.
\<close>

definition watch_message ::
  "SubscriptionPullIterator \<Rightarrow> nsecs \<Rightarrow> received_message \<Rightarrow> MessageImpl list \<Rightarrow> 'u sys
    \<Rightarrow> MessageImpl list outcome \<times> 'u sys" where
  "watch_message it now msg vec s =
     (let ackid = recv_ack_id msg;
          s1 = upd_exec (upd_iterator (pi_ackIterator it) (AddDeadlineWatcher ackid (first_deadline now))) s
      in case recv_message msg of
           None \<Rightarrow> (Inl (Undefined ''message not set''), s1)
         | Some pm \<Rightarrow>
             (Inr (vec @ [new_MessageImpl (pi_ackIterator it) (pi_subscriptionName it) ackid pm now]), s1))"

fun watch_messages ::
  "SubscriptionPullIterator \<Rightarrow> nsecs \<Rightarrow> received_message list \<Rightarrow> MessageImpl list \<Rightarrow> 'u sys
    \<Rightarrow> MessageImpl list outcome \<times> 'u sys" where
  "watch_messages it now [] vec s = (Inr vec, s)"
| "watch_messages it now (msg # msgs) vec s =
     (case watch_message it now msg vec s of
        (Inl e, s1) \<Rightarrow> (Inl e, s1)
      | (Inr vec', s1) \<Rightarrow> watch_messages it now msgs vec' s1)"

text \<open>A vector of messages that goes out of scope destroys them from the first to the last.\<close>

fun destroy_messages :: "env \<Rightarrow> MessageImpl list \<Rightarrow> 'u sys \<Rightarrow> unit outcome \<times> 'u sys" where
  "destroy_messages E [] s = (Inr (), s)"
| "destroy_messages E (m # ms) s =
     (case Message_destroy E m s of
        (Inl e, s') \<Rightarrow> (Inl e, s')
      | (Inr u, s') \<Rightarrow> destroy_messages E ms s')"

text \<open>
  The second loop takes messages from the back of the vector, here the list \<open>rev vec\<close>. What the
  callback leaves in the pointer is destroyed at the end of the iteration; when it throws, the rest of
  the vector is destroyed too.
\<close>

fun deliver :: "env \<Rightarrow> 'u user_callback \<Rightarrow> MessageImpl list \<Rightarrow> 'u sys \<Rightarrow> unit outcome \<times> 'u sys" where
  "deliver E cb [] s = (Inr (), s)"
| "deliver E cb (p # rvec) s =
     (case cb p s of (r, left, s1) \<Rightarrow>
      case destroy_messages E (case left of None \<Rightarrow> [] | Some m \<Rightarrow> [m]) s1 of
        (Inl e, s2) \<Rightarrow> (Inl e, s2)
      | (Inr u, s2) \<Rightarrow>
          (case r of
             Inr u \<Rightarrow> deliver E cb rvec s2
           | Inl e \<Rightarrow>
               (case destroy_messages E (rev rvec) s2 of
                  (Inl e', s3) \<Rightarrow> (Inl e', s3)
                | (Inr u, s3) \<Rightarrow> (Inl e, s3))))"

definition iterator_Pull ::
  "env \<Rightarrow> (callback_ref \<Rightarrow> 'u user_callback) \<Rightarrow> SubscriptionPullIterator \<Rightarrow> 'u sys \<Rightarrow> unit outcome \<times> 'u sys" where
  "iterator_Pull E cbs it s =
     (case pull_call E it (sy_world s) of
        (Inl e, w1) \<Rightarrow> (Inl e, s\<lparr>sy_world := w1\<rparr>)
      | (Inr (msgs, pseudoNow), w1) \<Rightarrow>
          (case watch_messages it pseudoNow msgs [] (s\<lparr>sy_world := w1\<rparr>) of
             (Inl e, s1) \<Rightarrow> (Inl e, s1)
           | (Inr vec, s1) \<Rightarrow> deliver E (cbs (pi_callback it)) (rev vec) s1))"

section \<open>Answers\<close>

lemma iterator_at_upd [simp]:
  "p < length (ack_heap ex) \<Longrightarrow> iterator_at (upd_iterator p f ex) q = (if q = p then f (iterator_at ex p) else iterator_at ex q)"
  by (simp add: iterator_at_def upd_iterator_def)

lemma owned_upd_iterator [simp]: "owned (upd_iterator p f ex) q = owned ex q"
  by (simp add: owned_def upd_iterator_def)

lemma length_upd_iterator [simp]: "length (ack_heap (upd_iterator p f ex)) = length (ack_heap ex)"
  by (simp add: upd_iterator_def)

text \<open>What an answer does to the process, when its iterator is there.\<close>

definition live :: "Executor \<Rightarrow> iterator_ref \<Rightarrow> bool" where
  "live ex p \<longleftrightarrow> owned ex p \<and> p < length (ack_heap ex) \<and> iterator_ok (iterator_at ex p) \<and> executorAlive (iterator_at ex p)"

lemma mark_done_frame:
  "executorAlive (mark_done k a it) = executorAlive it" "inputAckIDs (mark_done k a it) = inputAckIDs it"
  "keepAliveAckIDs (mark_done k a it) = keepAliveAckIDs it"
  by (cases a; simp add: mark_done_def)+

lemma message_done_live:
  assumes m: "mi_iterator m = Some p" and live: "live (sy_exec s) p" and run: "message_done E a m s = (r, m', s')"
  shows "r = Inr ()" and "m' = m\<lparr>mi_iterator := None\<rparr>" and "live (sy_exec s') p"
    and "answers (iterator_at (sy_exec s') p) = (answers (iterator_at (sy_exec s) p))(mi_ackID m \<mapsto> a)"
    and "sy_user s' = sy_user s"
proof -
  let ?it = "iterator_at (sy_exec s) p"
  obtain q w where d: "Done E (mi_ackID m) (mi_receiveTime m) a ?it (sy_world s) = (q, w)"
    by (cases "Done E (mi_ackID m) (mi_receiveTime m) a ?it (sy_world s)")
  have ok: "iterator_ok ?it" "executorAlive ?it" "length (ackDist ?it) = HighLimit"
    using live by (auto simp: live_def iterator_ok_def)
  obtain h where h: "length h = HighLimit" and q: "q = Inr (mark_done (mi_ackID m) a (?it\<lparr>ackDist := h\<rparr>))"
    using ok(3) d by (rule Done_result) (use ok(2) in simp)
  let ?new = "mark_done (mi_ackID m) a (?it\<lparr>ackDist := h\<rparr>)"
  have ok': "iterator_ok (?it\<lparr>ackDist := h\<rparr>)" using ok(1) h by (simp add: iterator_ok_def)
  have eqs: "r = Inr ()" "m' = m\<lparr>mi_iterator := None\<rparr>"
    "s' = s\<lparr>sy_exec := upd_iterator p (\<lambda>_. ?new) (sy_exec s), sy_world := w\<rparr>"
    using run m live d q by (auto simp: message_done_def live_def)
  then show "r = Inr ()" "m' = m\<lparr>mi_iterator := None\<rparr>" "sy_user s' = sy_user s" by simp_all
  have len: "p < length (ack_heap (sy_exec s))" using live by (simp add: live_def)
  show "live (sy_exec s') p"
    using live len iterator_ok_mark_done [OF ok', of "mi_ackID m" a] ok(2)
    by (simp add: eqs(3) live_def mark_done_frame)
  have "answers (?it\<lparr>ackDist := h\<rparr>) = answers ?it" by (simp add: answers_def)
  with pending.answer_of_answer [OF ok', of "mi_ackID m" a] len
  show "answers (iterator_at (sy_exec s') p) = (answers ?it)(mi_ackID m \<mapsto> a)"
    by (simp add: eqs(3))
qed

lemma destroy_messages_live:
  assumes "\<forall>m\<in>set ms. mi_iterator m = Some p" and "live (sy_exec s) p" and "destroy_messages E ms s = (r, s')"
  shows "r = Inr () \<and> live (sy_exec s') p \<and> sy_user s' = sy_user s \<and>
    (\<forall>k. answers (iterator_at (sy_exec s') p) k =
      (if k \<in> mi_ackID ` set ms then Some Nack else answers (iterator_at (sy_exec s) p) k))"
  using assms
proof (induction ms arbitrary: s)
  case Nil
  then show ?case by simp
next
  case (Cons m ms)
  obtain q m' s1 where d: "message_done E Nack m s = (q, m', s1)" by (cases "message_done E Nack m s")
  have m: "mi_iterator m = Some p" using Cons.prems(1) by simp
  note step = message_done_live [OF m Cons.prems(2) d]
  have "destroy_messages E ms s1 = (r, s')"
    using Cons.prems(3) d step(1) by (simp add: Message_destroy_def Message_Nack_def)
  from Cons.IH [OF _ step(3) this] Cons.prems(1) step(4,5) show ?case by auto
qed

section \<open>Deliveries\<close>

text \<open>A callback that keeps every message, and one that throws at the first without taking it.\<close>

definition keep_message :: "MessageImpl list user_callback" where
  "keep_message m s = (Inr (), None, s\<lparr>sy_user := sy_user s @ [m]\<rparr>)"

definition throw_on_message :: "exn \<Rightarrow> 'u user_callback" where
  "throw_on_message e m s = (Inl e, Some m, s)"

lemma deliver_keep: "deliver E keep_message ms s = (Inr (), s\<lparr>sy_user := sy_user s @ ms\<rparr>)"
  by (induction ms arbitrary: s) (simp_all add: keep_message_def)

text \<open>The first loop of a pull.\<close>

lemma watch_messages_result:
  assumes "\<forall>msg\<in>set msgs. recv_message msg \<noteq> None" and "p = pi_ackIterator it" and "p < length (ack_heap (sy_exec s))"
    and "executorAlive (iterator_at (sy_exec s) p)"
  shows "\<exists>new s'. watch_messages it now msgs vec s = (Inr (vec @ new), s') \<and>
    map mi_ackID new = map recv_ack_id msgs \<and>
    (\<forall>m\<in>set new. mi_iterator m = Some p \<and> mi_subscriptionName m = pi_subscriptionName it \<and> mi_receiveTime m = now) \<and>
    sy_user s' = sy_user s \<and> sy_world s' = sy_world s \<and>
    (\<forall>k. map_of (inputAckIDs (iterator_at (sy_exec s') p)) k =
      (if k \<in> recv_ack_id ` set msgs then Some \<lparr>nextAck = first_deadline now\<rparr>
       else map_of (inputAckIDs (iterator_at (sy_exec s) p)) k))"
  using assms
proof (induction msgs arbitrary: vec s)
  case Nil
  then show ?case by simp
next
  case (Cons msg msgs)
  obtain pm where pm: "recv_message msg = Some pm" using Cons.prems(1) by auto
  let ?k = "recv_ack_id msg"
  let ?m = "new_MessageImpl p (pi_subscriptionName it) ?k pm now"
  let ?s = "upd_exec (upd_iterator p (AddDeadlineWatcher ?k (first_deadline now))) s"
  have w: "watch_message it now msg vec s = (Inr (vec @ [?m]), ?s)"
    by (simp add: watch_message_def pm Cons.prems(2) Let_def)
  have pre: "p < length (ack_heap (sy_exec ?s))" "executorAlive (iterator_at (sy_exec ?s) p)"
    using Cons.prems(3,4) by (simp_all add: upd_exec_def AddDeadlineWatcher_def)
  have input: "map_of (inputAckIDs (iterator_at (sy_exec ?s) p)) =
      (map_of (inputAckIDs (iterator_at (sy_exec s) p)))(?k \<mapsto> \<lparr>nextAck = first_deadline now\<rparr>)"
    using Cons.prems(3,4) by (simp add: upd_exec_def AddDeadlineWatcher_def um.lookup_assign)
  obtain new s' where IH: "watch_messages it now msgs (vec @ [?m]) ?s = (Inr ((vec @ [?m]) @ new), s')"
    "map mi_ackID new = map recv_ack_id msgs"
    "\<forall>m\<in>set new. mi_iterator m = Some p \<and> mi_subscriptionName m = pi_subscriptionName it \<and> mi_receiveTime m = now"
    "sy_user s' = sy_user ?s" "sy_world s' = sy_world ?s"
    "\<forall>k. map_of (inputAckIDs (iterator_at (sy_exec s') p)) k =
      (if k \<in> recv_ack_id ` set msgs then Some \<lparr>nextAck = first_deadline now\<rparr>
       else map_of (inputAckIDs (iterator_at (sy_exec ?s) p)) k)"
    using Cons.IH [of ?s "vec @ [?m]"] Cons.prems(1,2) pre by auto
  show ?case
  proof (intro exI conjI)
    show "watch_messages it now (msg # msgs) vec s = (Inr (vec @ (?m # new)), s')"
      using IH(1) by (simp add: w)
    show "\<forall>k. map_of (inputAckIDs (iterator_at (sy_exec s') p)) k =
      (if k \<in> recv_ack_id ` set (msg # msgs) then Some \<lparr>nextAck = first_deadline now\<rparr>
       else map_of (inputAckIDs (iterator_at (sy_exec s) p)) k)"
      using IH(6) input by auto
  qed (use IH in \<open>auto simp: new_MessageImpl_def upd_exec_def\<close>)
qed

section \<open>An example\<close>

definition demo_executor :: Executor where
  "demo_executor = snd (AddIterator (replicate HighLimit 0) ''s'' (Some 0) (new_Executor (CreateDefault ''p'')))"

definition demo_message :: MessageImpl where
  "demo_message = new_MessageImpl 0 ''s'' ''k'' \<lparr>msg_data = ''x'', msg_attributes = []\<rparr> 0"

definition demo_sys :: "MessageImpl list sys" where
  "demo_sys = \<lparr>sy_exec = demo_executor, sy_world = demo_world, sy_user = []\<rparr>"

lemma demo_executor_eq: "ack_heap demo_executor = [new_ModAckIterator ''s'' (replicate HighLimit 0) default_RetryCountPolicy
    default_MaxRetryTimePolicy default_ExponentialBackoffPolicy]"
  "owned demo_executor 0"
  by (simp_all add: demo_executor_def AddIterator_def AddIterator_pull_def AddIterator_ack_def new_Executor_def Let_def
      upd_ackThread_def upd_pullThread_def owned_def ack_refs_def block_AddIterator_def new_ThreadDataBlock_def
      um_insert_or_assign_def us_member_def)

lemma demo_live: "live (sy_exec demo_sys) 0"
  using iterator_ok_new [of "replicate HighLimit 0" "''s''" default_RetryCountPolicy default_MaxRetryTimePolicy
      default_ExponentialBackoffPolicy] demo_executor_eq
  by (simp add: live_def demo_sys_def iterator_at_def) (simp add: new_ModAckIterator_def)

lemma demo_message_iterator: "mi_iterator demo_message = Some 0" "mi_ackID demo_message = ''k''"
  by (simp_all add: demo_message_def new_MessageImpl_def)

text \<open>The service hands out two messages.\<close>

definition two_messages :: "received_message list" where
  "two_messages = [\<lparr>recv_ack_id = ''k1'', recv_message = Some \<lparr>msg_data = ''x'', msg_attributes = []\<rparr>\<rparr>,
     \<lparr>recv_ack_id = ''k2'', recv_message = Some \<lparr>msg_data = ''y'', msg_attributes = []\<rparr>\<rparr>]"

definition pull_server :: "rpc_event list \<Rightarrow> rpc_request \<Rightarrow> secs \<Rightarrow> rpc_reply" where
  "pull_server evs req t = demo_reply OK [] two_messages"

definition demo_pull_iterator :: SubscriptionPullIterator where
  "demo_pull_iterator = new_SubscriptionPullIterator ''s'' 4 0 0"

lemma demo_pull_call:
  "pull_call (demo_env pull_server) demo_pull_iterator (sy_world demo_sys) =
    (Inr (two_messages, 2000), snd (pull_call (demo_env pull_server) demo_pull_iterator demo_world))"
  by (simp add: pull_call_def demo_sys_def demo_world_def set_deadline_def kDefaultRPCTimeout_def ns_of_s_def
      rpc_call_def pull_server_def Let_def status_ok_def steady_now_def)

lemma demo_pull_failed:
  "pull_call (demo_env down_server) demo_pull_iterator (sy_world demo_sys) =
    (Inl (Exception_code (''Pubsuber: Pull of '' @ ''s'' @ '' failed with error '' @ to_string 14 @ '': '' @ []) 14),
     snd (pull_call (demo_env down_server) demo_pull_iterator demo_world))"
  by (simp add: pull_call_def demo_sys_def demo_world_def set_deadline_def kDefaultRPCTimeout_def ns_of_s_def
      rpc_call_def down_server_def Let_def status_ok_def demo_pull_iterator_def new_SubscriptionPullIterator_def)
    (simp add: demo_reply_def)

section \<open>Properties\<close>

text \<open>
  C13. A message is answered at most once: an answer to a message whose iterator is alive is recorded as the
  last answer of its id and forgets the iterator, and every later \<open>Ack\<close>, \<open>Nack\<close> or destruction of the
  message changes nothing.
\<close>

theorem message_answered_once:
  assumes "mi_iterator m = Some p" and "live (sy_exec s) p" and "message_done E a m s = (r, m', s')"
  shows "r = Inr () \<and>
    answers (iterator_at (sy_exec s') p) = (answers (iterator_at (sy_exec s) p))(mi_ackID m \<mapsto> a) \<and>
    (\<forall>E2 s2 :: 'u sys. Message_Ack E2 m' s2 = (Inr (), m', s2) \<and> Message_Nack E2 m' s2 = (Inr (), m', s2) \<and>
       Message_destroy E2 m' s2 = (Inr (), s2))"
  using message_done_live [OF assms]
  by (simp add: Message_Ack_def Message_Nack_def Message_destroy_def message_done_def)

theorem message_answered_once_witness:
  "fst (message_done (demo_env ok_server) Ack demo_message demo_sys) = Inr () \<and>
    answers (iterator_at (sy_exec (snd (snd (message_done (demo_env ok_server) Ack demo_message demo_sys)))) 0) =
      (answers (iterator_at (sy_exec demo_sys) 0))(mi_ackID demo_message \<mapsto> Ack) \<and>
    (\<forall>E2 (s2 :: unit sys).
       Message_Ack E2 (fst (snd (message_done (demo_env ok_server) Ack demo_message demo_sys))) s2 =
         (Inr (), fst (snd (message_done (demo_env ok_server) Ack demo_message demo_sys)), s2) \<and>
       Message_Nack E2 (fst (snd (message_done (demo_env ok_server) Ack demo_message demo_sys))) s2 =
         (Inr (), fst (snd (message_done (demo_env ok_server) Ack demo_message demo_sys)), s2) \<and>
       Message_destroy E2 (fst (snd (message_done (demo_env ok_server) Ack demo_message demo_sys))) s2 = (Inr (), s2))"
  by (rule message_answered_once [OF demo_message_iterator(1) demo_live]) simp







end
