(* ===== verification/Loops.thy ===== *)
theory Loops
  imports Messages Iterators
begin

text \<open>
  The work of the two threads of the \<open>Executor\<close> (\<open>pubsuber/src/Executor.cpp\<close>): pulling all active
  subscriptions once (\<open>Executor::Pull\<close>), one round of all active acknowledgement iterators
  (\<open>Executor::ProcessModAcks\<close>), and the sections of \<open>PullThreadFunc\<close> and \<open>AckThreadFunc\<close> around
  them. \<open>Interleaving\<close> composes the sections to the loops.
\<close>

section \<open>The pull thread\<close>

definition kLowPullLimit :: int where
  "kLowPullLimit = 250000"

text \<open>
  \<open>high_resolution_clock\<close> is the system clock in libstdc++: reading it takes time like any clock, but
  what it shows is \<open>e_system\<close>, which may be set back.
\<close>

definition hires_now :: "env \<Rightarrow> world \<Rightarrow> nsecs \<times> world" where
  "hires_now E w = (case steady_now E w of (t, w') \<Rightarrow> (e_system E t, w'))"

definition connect :: "env \<Rightarrow> 'u sys \<Rightarrow> 'u sys" where
  "connect E s = s\<lparr>sy_world := snd (EnsureConnected E (sy_world s))\<rparr>"

text \<open>How long to wait after a pull that took \<open>d\<close> nanoseconds.\<close>

definition pull_sleep :: "nsecs \<Rightarrow> msecs" where
  "pull_sleep d = (let us = d sdiv 1000
     in if kLowPullLimit < us then kSoManyMilliseconds else (kLowPullLimit - us) sdiv 1000)"

definition exec_Pull ::
  "env \<Rightarrow> (callback_ref \<Rightarrow> 'u user_callback) \<Rightarrow> 'u sys \<Rightarrow> (msecs outcome \<times> 'u sys) option" where
  "exec_Pull E cbs s =
     (let s0 = connect E s
      in case hires_now E (sy_world s0) of (start, w1) \<Rightarrow>
         case ForEachActive (\<lambda>(name, it) s. Some (iterator_Pull E cbs it s)) (pullThread (sy_exec s0))
                (s0\<lparr>sy_world := w1\<rparr>) of
           None \<Rightarrow> None
         | Some (Inl e, s1) \<Rightarrow> Some (Inl e, s1)
         | Some (Inr u, s1) \<Rightarrow>
             (case hires_now E (sy_world s1) of (t, w2) \<Rightarrow>
                Some (Inr (pull_sleep (t - start)), s1\<lparr>sy_world := w2\<rparr>)))"

text \<open>
  Before each round: with nothing to do the thread waits, keeps the channel up, and starts over if the
  wait timed out or it shall stop.
\<close>

definition pull_waits :: "bool \<Rightarrow> Executor \<Rightarrow> bool" where
  "pull_waits noActive ex \<longleftrightarrow> inputIterators (pullThread ex) = [] \<and> noActive"

datatype cv_status = no_timeout | timeout

definition pull_wait_again :: "cv_status \<Rightarrow> Executor \<Rightarrow> bool" where
  "pull_wait_again status ex \<longleftrightarrow> status = timeout \<or> needStop (pullThread ex)"

section \<open>The ack thread\<close>

definition exec_ProcessModAcks :: "env \<Rightarrow> 'u sys \<Rightarrow> (msecs outcome \<times> 'u sys) option" where
  "exec_ProcessModAcks E s =
     (case ForEachActive
             (\<lambda>(name, p) (sleep, s).
                case ProcessModAcks E (iterator_at (sy_exec s) p) (sy_world s) of
                  None \<Rightarrow> None
                | Some (r, it, w) \<Rightarrow>
                    (let s' = s\<lparr>sy_exec := upd_iterator p (\<lambda>_. it) (sy_exec s), sy_world := w\<rparr>
                     in case r of
                          Inl e \<Rightarrow> Some (Inl e, sleep, s')
                        | Inr ms \<Rightarrow> Some (Inr (), min ms sleep, s')))
             (ackThread (sy_exec s)) (kSoManyMilliseconds, s) of
        None \<Rightarrow> None
      | Some (Inl e, _, s') \<Rightarrow> Some (Inl e, s')
      | Some (Inr u, sleep, s') \<Rightarrow> Some (Inr sleep, s'))"

definition default_sleep :: msecs where
  "default_sleep = 500"

definition next_sleep :: "msecs \<Rightarrow> msecs" where
  "next_sleep sleep = (if sleep = kSoManyMilliseconds then default_sleep else sleep)"

definition keep_alive_count :: "Executor \<Rightarrow> nat" where
  "keep_alive_count ex =
     fold (\<lambda>(name, p) n. n + KeepAliveCount (iterator_at ex p)) (activeIterators (ackThread ex)) 0"

text \<open>The counter of inputs is a \<open>uint32_t\<close>.\<close>

definition input_count :: "Executor \<Rightarrow> u32" where
  "input_count ex =
     fold (\<lambda>(name, p) n. n + of_nat (InputCount (iterator_at ex p))) (activeIterators (ackThread ex)) 0"

definition ack_waits :: "bool \<Rightarrow> bool \<Rightarrow> Executor \<Rightarrow> bool" where
  "ack_waits needSleep noKeepAlives ex \<longleftrightarrow> needSleep \<or> (input_count ex = 0 \<and> noKeepAlives)"

definition ack_wait_again :: "bool \<Rightarrow> cv_status \<Rightarrow> Executor \<Rightarrow> bool" where
  "ack_wait_again needSleep status ex \<longleftrightarrow> (\<not> needSleep \<and> status = timeout) \<or> needStop (ackThread ex)"

text \<open>The end of the critical section: new iterators become active, then all active ones take their input.\<close>

definition ack_merge :: "Executor \<Rightarrow> Executor" where
  "ack_merge ex =
     (let ex1 = upd_ackThread MergeInputToActive ex
      in fold (\<lambda>(name, p). upd_iterator p MergeInput) (activeIterators (ackThread ex1)) ex1)"

section \<open>Lemmas\<close>

lemma hires_now_log: "hires_now E w = (t, w') \<Longrightarrow> w_log w' = w_log w"
  by (auto simp: hires_now_def split: prod.splits dest: steady_now_frame(1))

text \<open>A failing body ends the loop: what comes after it does not matter.\<close>

lemma for_each_append: "for_each f (xs @ ys) s =
    (case for_each f xs s of
       None \<Rightarrow> None
     | Some (Inl e, s') \<Rightarrow> Some (Inl e, s')
     | Some (Inr u, s') \<Rightarrow> for_each f ys s')"
  by (induction xs arbitrary: s) (auto split: option.splits sum.splits)

lemma for_each_failing:
  assumes "\<And>s. \<exists>e s'. f x s = Some (Inl e, s')" and "for_each f xs s \<noteq> None"
  shows "for_each f (xs @ x # ys) s = for_each f (xs @ [x]) s"
    and "\<exists>e s'. for_each f (xs @ [x]) s = Some (Inl e, s')"
proof -
  obtain r s' where xs: "for_each f xs s = Some (r, s')" using assms(2) by auto
  obtain e s2 where x: "f x s' = Some (Inl e, s2)" using assms(1) by blast
  show "for_each f (xs @ x # ys) s = for_each f (xs @ [x]) s" "\<exists>e s'. for_each f (xs @ [x]) s = Some (Inl e, s')"
    using xs x by (simp_all add: for_each_append split: sum.split)
qed

lemma pull_refused:
  assumes "\<And>evs. rep_code (e_server E evs (pull_request it) kDefaultRPCTimeout) \<noteq> OK"
  shows "\<exists>e s'. iterator_Pull E cbs it s = (Inl e, s')"
  using assms
  by (auto simp: iterator_Pull_def pull_call_def rpc_call_def Let_def status_ok_def split: option.split)

lemma for_each_Pull_total: "for_each (\<lambda>(name, it) s. Some (iterator_Pull E cbs it s)) xs s \<noteq> None"
  by (induction xs arbitrary: s) (auto split: prod.splits sum.splits)

lemma pull_sleep_bounds:
  assumes "0 \<le> d"
  shows "pull_sleep d = kSoManyMilliseconds \<or> 0 \<le> pull_sleep d \<and> pull_sleep d \<le> 250"
proof -
  have div: "0 \<le> a \<Longrightarrow> a sdiv 1000 = a div 1000" for a :: int
    by (cases "a = 0") (simp_all add: signed_divide_int_def)
  have "0 \<le> d div 1000" using assms by simp
  then have "\<not> 250000 < d div 1000 \<Longrightarrow> 0 \<le> (250000 - d div 1000) sdiv 1000 \<and> (250000 - d div 1000) sdiv 1000 \<le> 250"
    using zdiv_mono1 [of "250000 - d div 1000" 250000 1000] by (simp add: div pos_imp_zdiv_nonneg_iff)
  then show ?thesis using assms by (auto simp: pull_sleep_def Let_def kLowPullLimit_def div)
qed

section \<open>An example\<close>

text \<open>One of two subscriptions is gone; the other would have mail.\<close>

definition missing_pull_server :: "rpc_event list \<Rightarrow> rpc_request \<Rightarrow> secs \<Rightarrow> rpc_reply" where
  "missing_pull_server evs req t =
     (case req of
        PullRequest n k b \<Rightarrow> if n = ''s2'' then demo_reply NOT_FOUND [] [] else demo_reply OK [] two_messages
      | _ \<Rightarrow> demo_reply OK [''id''] [])"

definition two_receivers :: "MessageImpl list sys" where
  "two_receivers =
     (let hist = replicate HighLimit 0;
          ex1 = snd (AddIterator hist ''s1'' (Some 0) (new_Executor (CreateDefault ''p'')));
          ex2 = snd (AddIterator hist ''s2'' (Some 0) ex1)
      in \<lparr>sy_exec = both_rounds ex2, sy_world = demo_world, sy_user = []\<rparr>)"

lemma two_receivers_active:
  "activeIterators (pullThread (sy_exec two_receivers)) =
    [(''s2'', new_SubscriptionPullIterator ''s2'' 4 0 1), (''s1'', new_SubscriptionPullIterator ''s1'' 4 0 0)]"
  by (simp add: two_receivers_def Let_def AddIterator_def AddIterator_pull_def AddIterator_ack_def new_Executor_def
      upd_pullThread_def upd_ackThread_def block_AddIterator_def um_insert_or_assign_def us_member_def
      new_ThreadDataBlock_def MergeInputToActive_def RemoveFromActive_def ExecuteUnderMutex_def um_merge_target_def
      CreateDefault_def new_ClientOptions_def)

section \<open>Properties\<close>

text \<open>
  C21. As long as the service refuses the pull of one subscription (it was deleted, say), every \<open>Pull\<close> of the
  executor ends with an exception, and the subscriptions after it in the map are not served: the round is
  the loop over the subscriptions up to the refused one, whatever comes after it.
\<close>

theorem failing_pull_starves_the_rest:
  assumes "activeIterators (pullThread (sy_exec s)) = front @ (n, it) # rest"
    and "\<forall>evs. rep_code (e_server E evs (pull_request it) kDefaultRPCTimeout) \<noteq> OK"
  shows "\<exists>e s' w1. exec_Pull E cbs s = Some (Inl e, s') \<and> w_log w1 = w_log (sy_world s) \<and>
    for_each (\<lambda>(name, it) s. Some (iterator_Pull E cbs it s)) (front @ [(n, it)]) (s\<lparr>sy_world := w1\<rparr>) =
      Some (Inl e, s')"
proof -
  let ?f = "\<lambda>(name, it) s. Some (iterator_Pull E cbs it s)"
  obtain up w0 where up: "EnsureConnected E (sy_world s) = (up, w0)" by (cases "EnsureConnected E (sy_world s)")
  obtain start w1 where start: "hires_now E w0 = (start, w1)" by (cases "hires_now E w0")
  have log: "w_log w1 = w_log (sy_world s)"
    using EnsureConnected_frame(1) [OF up] hires_now_log [OF start] by simp
  have body: "\<exists>e s'. ?f (n, it) s = Some (Inl e, s')" for s
    using pull_refused [of E it cbs s] assms(2) by simp
  note fe = for_each_failing [of ?f "(n, it)" front "s\<lparr>sy_world := w1\<rparr>", OF body for_each_Pull_total]
  obtain e s' where e: "for_each ?f (front @ [(n, it)]) (s\<lparr>sy_world := w1\<rparr>) = Some (Inl e, s')" using fe(2) by blast
  have "exec_Pull E cbs s = Some (Inl e, s')"
    using up start assms(1) e fe(1) [of rest]
    by (simp add: exec_Pull_def connect_def Let_def ForEachActive_def)
  with e log show ?thesis by blast
qed

theorem failing_pull_starves_the_rest_witness:
  "\<exists>e s'. exec_Pull (demo_env missing_pull_server) (\<lambda>_. keep_message) two_receivers = Some (Inl e, s')"
proof -
  have "rep_code (e_server (demo_env missing_pull_server) evs
      (pull_request (new_SubscriptionPullIterator ''s2'' 4 0 1)) kDefaultRPCTimeout) \<noteq> OK" for evs
    by (simp add: missing_pull_server_def pull_request_def new_SubscriptionPullIterator_def)
  then have refused: "\<forall>evs. rep_code (e_server (demo_env missing_pull_server) evs
      (pull_request (new_SubscriptionPullIterator ''s2'' 4 0 1)) kDefaultRPCTimeout) \<noteq> OK" ..
  have "activeIterators (pullThread (sy_exec two_receivers)) =
      [] @ (''s2'', new_SubscriptionPullIterator ''s2'' 4 0 1) # [(''s1'', new_SubscriptionPullIterator ''s1'' 4 0 0)]"
    by (simp add: two_receivers_active)
  from failing_pull_starves_the_rest [OF this refused] show ?thesis by blast
qed

end
