(* ===== verification/Topics.thy ===== *)
theory Topics
  imports Executors
begin

text \<open>
  Topics: \<open>TopicImpl\<close> (\<open>pubsuber/src/TopicImpl.h\<close>, \<open>TopicImpl.cpp\<close>) with the base class \<open>EntityBase\<close>
  of \<open>Trimpl.h\<close>. Each operation makes one retried call and maps its status to a value or an exception;
  an operation that may wait for ever returns \<open>None\<close>. The mapping is the locale \<open>request_maker\<close>, which
  \<open>Subscriptions\<close> uses too.
\<close>

section \<open>Requests of an entity\<close>

record EntityBase =
  entity_id :: string
  fullName :: string
  entity_tr :: Trimpl
  entity_countPolicy :: RetryCountPolicy
  entity_timePolicy :: MaxRetryTimePolicy
  entity_backoffPolicy :: ExponentialBackoffPolicy

text \<open>\<open>NewStub\<close>, \<open>EnsureConnected\<close>, then the retried call.\<close>

definition entity_call :: "env \<Rightarrow> 'x EntityBase_scheme \<Rightarrow> rpc_request \<Rightarrow> world \<Rightarrow> call_result option" where
  "entity_call E t req w =
     (case EnsureConnected E w of (up, w1) \<Rightarrow>
        make_call E (entity_countPolicy t) (entity_timePolicy t) (entity_backoffPolicy t) kDefaultRPCTimeout req w1)"

definition request_failed :: "env \<Rightarrow> string \<Rightarrow> rpc_reply \<Rightarrow> exn" where
  "request_failed E name reply =
     Exception_code (''Pubsuber: '' @ name @ '' request failed with error '' @
       to_string (e_code_num E (rep_code reply)) @ '': '' @ rep_text reply) (e_code_num E (rep_code reply))"

type_synonym 'a op_result = "('a outcome \<times> world) option"

text \<open>\<open>handle\<close> is the switch over the status of the reply.\<close>

definition with_reply :: "call_result option \<Rightarrow> (rpc_reply \<Rightarrow> 'a outcome) \<Rightarrow> 'a op_result" where
  "with_reply res handle =
     (case res of
        None \<Rightarrow> None
      | Some (Inl e, w) \<Rightarrow> Some (Inl e, w)
      | Some (Inr (reply, now), w) \<Rightarrow> Some (handle reply, w))"

section \<open>Topics\<close>

type_synonym TopicImpl = EntityBase

definition new_TopicImpl ::
  "Trimpl \<Rightarrow> string \<Rightarrow> string \<Rightarrow> RetryCountPolicy \<Rightarrow> MaxRetryTimePolicy \<Rightarrow> ExponentialBackoffPolicy \<Rightarrow> TopicImpl" where
  "new_TopicImpl tr ident topic cp tp bp =
     \<lparr>entity_id = ident, fullName = topic, entity_tr = tr, entity_countPolicy = cp, entity_timePolicy = tp,
      entity_backoffPolicy = bp\<rparr>"

definition Topic_Exists :: "env \<Rightarrow> TopicImpl \<Rightarrow> world \<Rightarrow> bool op_result" where
  "Topic_Exists E t w =
     with_reply (entity_call E t (GetTopicRequest (fullName t)) w)
       (\<lambda>reply. case rep_code reply of
          NOT_FOUND \<Rightarrow> Inr False
        | c \<Rightarrow> if \<not> status_ok reply then Inl (request_failed E ''GetTopicRequest'' reply) else Inr True)"

definition Topic_Create :: "env \<Rightarrow> TopicImpl \<Rightarrow> world \<Rightarrow> unit op_result" where
  "Topic_Create E t w =
     with_reply (entity_call E t (CreateTopicRequest (fullName t)) w)
       (\<lambda>reply. if \<not> status_ok reply then Inl (request_failed E ''CreateTopic'' reply) else Inr ())"

definition Topic_Delete :: "env \<Rightarrow> TopicImpl \<Rightarrow> world \<Rightarrow> unit op_result" where
  "Topic_Delete E t w =
     with_reply (entity_call E t (DeleteTopicRequest (fullName t)) w)
       (\<lambda>reply. case rep_code reply of
          NOT_FOUND \<Rightarrow> Inr ()
        | c \<Rightarrow> if \<not> status_ok reply then Inl (request_failed E ''DeleteTopic'' reply) else Inr ())"

text \<open>
  The attributes of the user are a \<open>std::map\<close>, here the list of its entries. \<open>insert\<close> on the map field of
  the message keeps the value of a key that is there.
\<close>

definition attribute_insert :: "string \<times> string \<Rightarrow> (string \<times> string) list \<Rightarrow> (string \<times> string) list" where
  "attribute_insert p m = (if us_member fst (fst p) m then m else m @ [p])"

fun copy_attributes :: "pubsub_message \<Rightarrow> (string \<times> string) list \<Rightarrow> pubsub_message outcome" where
  "copy_attributes msg [] = Inr msg"
| "copy_attributes msg ((k, v) # attributes) =
     (if k = [] then Inl (Exception ''Pubsuber: attribute key must not be empty'')
      else copy_attributes (msg\<lparr>msg_attributes := attribute_insert (k, v) (msg_attributes msg)\<rparr>) attributes)"

definition Topic_Publish ::
  "env \<Rightarrow> TopicImpl \<Rightarrow> string \<Rightarrow> (string \<times> string) list \<Rightarrow> world \<Rightarrow> string op_result" where
  "Topic_Publish E t buffer attributes w =
     (case copy_attributes \<lparr>msg_data = buffer, msg_attributes = []\<rparr> attributes of
        Inl e \<Rightarrow> Some (Inl e, w)
      | Inr msg \<Rightarrow>
          with_reply (entity_call E t (PublishRequest (fullName t) [msg]) w)
            (\<lambda>reply.
               if \<not> status_ok reply then Inl (request_failed E ''Publish'' reply)
               else case resp_message_ids (rep_response reply) of
                 [] \<Rightarrow> Inl (Exception
                   ''Pubsuber: received response.message_ids_size() is 0, no msg id to return to caller.'')
               | mid # _ \<Rightarrow> Inr mid))"

section \<open>What an operation did\<close>

text \<open>
  \<open>op_done req handle t w res w'\<close>: the operation ended with \<open>res\<close> after calls of \<open>req\<close> only; the result is
  what \<open>handle\<close> makes of the last reply, or the exception of the retry loop after retryable replies only.
\<close>

definition op_done ::
  "rpc_request \<Rightarrow> (rpc_reply \<Rightarrow> 'a outcome) \<Rightarrow> world \<Rightarrow> 'a outcome \<Rightarrow> world \<Rightarrow> bool" where
  "op_done req handle w res w' \<longleftrightarrow>
     (\<exists>evs. w_log w' = evs @ w_log w \<and> w_time w \<le> w_time w' \<and> list_all (\<lambda>ev. ev_request ev = req) evs \<and>
        (if evs \<noteq> [] \<and> \<not> retryable (ev_reply (hd evs))
         then res = handle (ev_reply (hd evs)) \<and> list_all (\<lambda>ev. retryable (ev_reply ev)) (tl evs)
         else (\<exists>e. res = Inl e) \<and> list_all (\<lambda>ev. retryable (ev_reply ev)) evs))"

locale request_maker = transport call timeout
  for call :: "rpc_request \<Rightarrow> world \<Rightarrow> call_result option" and timeout :: secs
begin

lemma with_reply_done:
  assumes "with_reply (call req w) handle = Some (res, w')"
  shows "op_done req handle w res w'"
proof -
  obtain r where r: "call req w = Some (r, w')"
    and res: "res = (case r of Inl e \<Rightarrow> Inl e | Inr (reply, now) \<Rightarrow> handle reply)"
    using assms by (auto simp: with_reply_def split: option.splits sum.splits)
  obtain evs where d: "call_done req timeout w evs r w'" using call_made [OF r] by auto
  show ?thesis
  proof (cases r)
    case (Inl e)
    with d res have "list_all (\<lambda>ev. retryable (ev_reply ev)) evs" "res = Inl e" by (simp_all add: call_done_simps)
    moreover then have "evs \<noteq> [] \<Longrightarrow> retryable (ev_reply (hd evs))" by (cases evs) simp_all
    ultimately show ?thesis
      using d Inl unfolding op_done_def by (intro exI [of _ evs]) (auto simp: call_done_simps)
  next
    case (Inr p)
    obtain reply now where p: "p = (reply, now)" by (cases p)
    with d res Inr show ?thesis
      unfolding op_done_def by (intro exI [of _ evs]) (auto simp: call_done_simps)
  qed
qed

end

lemma entity_call_made:
  assumes "entity_call E t req w = Some (res, w')"
  shows "\<exists>evs. call_done req kDefaultRPCTimeout w evs res w'"
proof -
  obtain up w1 where c: "EnsureConnected E w = (up, w1)" by (cases "EnsureConnected E w")
  with assms obtain evs where "call_done req kDefaultRPCTimeout w1 evs res w'"
    by (auto simp: entity_call_def dest: stub.call_made)
  with EnsureConnected_frame [OF c] have "call_done req kDefaultRPCTimeout w evs res w'"
    by (cases res) (auto simp: call_done_simps)
  then show ?thesis ..
qed

interpretation entity: request_maker "entity_call E t" kDefaultRPCTimeout for E t
  by unfold_locales (rule entity_call_made)

lemma entity_call_returns:
  assumes "0 < policy_count (entity_countPolicy t)" and "unat (policy_count (entity_countPolicy t)) + 1 < 2 ^ 32"
  shows "\<exists>r. entity_call E t req w = Some r"
  using make_call_returns_Some [OF assms] by (simp add: entity_call_def split: prod.split)

text \<open>The attributes arrive as they are, unless one has an empty key.\<close>

lemma copy_attributes_spec:
  assumes "distinct (map fst (msg_attributes msg) @ map fst as)"
  shows "copy_attributes msg as =
    (if [] \<in> set (map fst as) then Inl (Exception ''Pubsuber: attribute key must not be empty'')
     else Inr (msg\<lparr>msg_attributes := msg_attributes msg @ as\<rparr>))"
  using assms
proof (induction as arbitrary: msg)
  case Nil
  then show ?case by simp
next
  case (Cons x as)
  obtain k v where x: "x = (k, v)" by (cases x)
  with Cons.prems have "attribute_insert (k, v) (msg_attributes msg) = msg_attributes msg @ [(k, v)]"
    by (auto simp: attribute_insert_def container_simps)
  with Cons.prems x show ?case
    by (simp add: Cons.IH)
qed

section \<open>An example\<close>

definition demo_topic :: TopicImpl where
  "demo_topic = new_TopicImpl new_Trimpl ''t'' ''projects/p/topics/t'' default_RetryCountPolicy
     default_MaxRetryTimePolicy (demo_policy 1 1)"

definition connected_world :: world where
  "connected_world = snd (EnsureConnected (demo_env ok_server) demo_world)"

lemma demo_entity_call:
  assumes "entity_countPolicy t = default_RetryCountPolicy" and "entity_timePolicy t = default_MaxRetryTimePolicy"
    and "srv [] req 20 = r" and "\<not> retryable r"
  shows "entity_call (demo_env srv) t req demo_world = Some (Inr (r, 4000), answered_world req 20 r connected_world)"
  using assms demo_answered [of srv connected_world req r "entity_backoffPolicy t"]
  by (simp add: entity_call_def connected_world_def EnsureConnected_def Let_def demo_world_def kDefaultRPCTimeout_def)

lemma demo_topic_policies [simp]:
  "entity_countPolicy demo_topic = default_RetryCountPolicy" "entity_timePolicy demo_topic = default_MaxRetryTimePolicy"
  by (simp_all add: demo_topic_def new_TopicImpl_def)

definition missing_server :: "rpc_event list \<Rightarrow> rpc_request \<Rightarrow> secs \<Rightarrow> rpc_reply" where
  "missing_server evs req t = demo_reply NOT_FOUND [] []"

lemma demo_topic_missing:
  "Topic_Exists (demo_env missing_server) demo_topic demo_world = Some (Inr False,
    answered_world (GetTopicRequest (fullName demo_topic)) 20 (demo_reply NOT_FOUND [] []) connected_world)"
  by (simp add: Topic_Exists_def with_reply_def missing_server_def
      demo_entity_call [of demo_topic missing_server _ "demo_reply NOT_FOUND [] []"] retryable_def)

lemma demo_publish:
  "Topic_Publish (demo_env ok_server) demo_topic ''data'' [(''a'', ''1'')] demo_world = Some (Inr ''id'',
    answered_world (PublishRequest (fullName demo_topic) [\<lparr>msg_data = ''data'', msg_attributes = [(''a'', ''1'')]\<rparr>]) 20
      (demo_reply OK [''id''] []) connected_world)"
  by (simp add: Topic_Publish_def with_reply_def ok_server_def attribute_insert_def us_member_def status_ok_def
      demo_entity_call [of demo_topic ok_server _ "demo_reply OK [''id''] []"])

lemma Topic_Exists_done:
  assumes "Topic_Exists E t w = Some (r, w')"
  shows "op_done (GetTopicRequest (fullName t))
    (\<lambda>reply. if rep_code reply = NOT_FOUND then Inr False
      else if status_ok reply then Inr True else Inl (request_failed E ''GetTopicRequest'' reply)) w r w'"
proof -
  have "(\<lambda>reply. case rep_code reply of NOT_FOUND \<Rightarrow> Inr False
        | c \<Rightarrow> if \<not> status_ok reply then Inl (request_failed E ''GetTopicRequest'' reply) else Inr True) =
      (\<lambda>reply. if rep_code reply = NOT_FOUND then Inr False
      else if status_ok reply then Inr True else Inl (request_failed E ''GetTopicRequest'' reply))"
    by (rule ext) (auto split: grpc_code.splits)
  from entity.with_reply_done [OF assms [unfolded Topic_Exists_def this]] show ?thesis .
qed

section \<open>Properties\<close>

text \<open>
  \<open>Exists\<close> asks for the topic by its full name and answers by the last reply alone: no on
  \<open>NOT_FOUND\<close>, yes on \<open>OK\<close>, an exception with the code of any other status; without such a reply (the
  retries are exhausted) it throws.
\<close>

lemma Topic_Exists_answers_by_status:
  assumes "Topic_Exists E t w = Some (r, w')"
  shows "op_done (GetTopicRequest (fullName t))
    (\<lambda>reply. if rep_code reply = NOT_FOUND then Inr False
      else if status_ok reply then Inr True else Inl (request_failed E ''GetTopicRequest'' reply)) w r w'"
  by (rule Topic_Exists_done [OF assms])

lemma Topic_Exists_answers_by_status_witness:
  "op_done (GetTopicRequest (fullName demo_topic))
    (\<lambda>reply. if rep_code reply = NOT_FOUND then Inr False
      else if status_ok reply then Inr True
      else Inl (request_failed (demo_env missing_server) ''GetTopicRequest'' reply)) demo_world (Inr False)
    (answered_world (GetTopicRequest (fullName demo_topic)) 20 (demo_reply NOT_FOUND [] []) connected_world)"
  by (rule Topic_Exists_answers_by_status [OF demo_topic_missing])

text \<open>
  C37. \<open>Publish\<close> sends one message with the user's data and exactly his attributes and returns the first
  message id of the reply; an empty attribute key is refused before anything is sent, and a reply without
  ids or with an error status is an exception.
\<close>

theorem Publish_sends_the_message:
  assumes "distinct (map fst attributes)" and "Topic_Publish E t buffer attributes w = Some (r, w')"
  shows "if [] \<in> set (map fst attributes)
    then r = Inl (Exception ''Pubsuber: attribute key must not be empty'') \<and> w' = w
    else op_done (PublishRequest (fullName t) [\<lparr>msg_data = buffer, msg_attributes = attributes\<rparr>])
      (\<lambda>reply. if \<not> status_ok reply then Inl (request_failed E ''Publish'' reply)
         else case resp_message_ids (rep_response reply) of
           [] \<Rightarrow> Inl (Exception ''Pubsuber: received response.message_ids_size() is 0, no msg id to return to caller.'')
         | mid # _ \<Rightarrow> Inr mid) w r w'"
proof -
  have copy: "copy_attributes \<lparr>msg_data = buffer, msg_attributes = []\<rparr> attributes =
      (if [] \<in> set (map fst attributes) then Inl (Exception ''Pubsuber: attribute key must not be empty'')
       else Inr \<lparr>msg_data = buffer, msg_attributes = attributes\<rparr>)"
    using copy_attributes_spec [of "\<lparr>msg_data = buffer, msg_attributes = []\<rparr>" attributes] assms(1) by simp
  show ?thesis
  proof (cases "[] \<in> set (map fst attributes)")
    case True
    with assms(2) copy show ?thesis by (simp add: Topic_Publish_def)
  next
    case False
    have "with_reply (entity_call E t (PublishRequest (fullName t) [\<lparr>msg_data = buffer, msg_attributes = attributes\<rparr>]) w)
       (\<lambda>reply. if \<not> status_ok reply then Inl (request_failed E ''Publish'' reply)
         else case resp_message_ids (rep_response reply) of
           [] \<Rightarrow> Inl (Exception ''Pubsuber: received response.message_ids_size() is 0, no msg id to return to caller.'')
         | mid # _ \<Rightarrow> Inr mid) = Some (r, w')"
      using assms(2) unfolding Topic_Publish_def copy if_not_P [OF False] sum.case .
    from entity.with_reply_done [OF this] False show ?thesis by (simp only: if_False)
  qed
qed

theorem Publish_sends_the_message_witness:
  "if [] \<in> set (map fst [(''a'', ''1'')])
    then Inr ''id'' = (Inl (Exception ''Pubsuber: attribute key must not be empty'') :: string outcome) \<and>
      answered_world (PublishRequest (fullName demo_topic) [\<lparr>msg_data = ''data'', msg_attributes = [(''a'', ''1'')]\<rparr>]) 20
        (demo_reply OK [''id''] []) connected_world = demo_world
    else op_done (PublishRequest (fullName demo_topic) [\<lparr>msg_data = ''data'', msg_attributes = [(''a'', ''1'')]\<rparr>])
      (\<lambda>reply. if \<not> status_ok reply then Inl (request_failed (demo_env ok_server) ''Publish'' reply)
         else case resp_message_ids (rep_response reply) of
           [] \<Rightarrow> Inl (Exception ''Pubsuber: received response.message_ids_size() is 0, no msg id to return to caller.'')
         | mid # _ \<Rightarrow> Inr mid) demo_world (Inr ''id'')
      (answered_world (PublishRequest (fullName demo_topic) [\<lparr>msg_data = ''data'', msg_attributes = [(''a'', ''1'')]\<rparr>]) 20
        (demo_reply OK [''id''] []) connected_world)"
  by (rule Publish_sends_the_message [OF _ demo_publish]) simp

end
