(* ===== verification/Interleaving.thy ===== *)
theory Interleaving
  imports Loops Topics
begin

text \<open>
  The two threads of the \<open>Executor\<close> and the threads of the user, interleaved: \<open>PullThreadFunc\<close> and
  \<open>AckThreadFunc\<close> of \<open>pubsuber/src/Executor.cpp\<close> as state machines whose steps are the critical
  sections of the code (and the remote calls between them), the answers and drops of messages, the
  two halves of \<open>AddIterator\<close>, \<open>RemoveIterator\<close> and \<open>StopThreads\<close>, and what else the threads of the user do to
  the executor and the world: the calls of topics and subscriptions, connecting, sleeping, and
  \<open>ApplyPolicies\<close>. \<open>Programs\<close> composes these steps to the operations of the public interface.

  A wait on a condition variable may end at any step with either status, which covers notifications,
  timeouts and spurious wakeups. The user's callback keeps the message; whatever it does with it is a
  later step of the user, as it is for any other thread. A step with no successor (\<open>None\<close>) is a thread
  that blocks, or an exception that no handler catches, which ends the process.

  Two components have no counterpart in the code: \<open>c_answered\<close> records the answers of the user, newest
  first, and \<open>c_failed\<close> the iterators whose round was left with an exception.
\<close>

section \<open>States\<close>

type_synonym pull_todo = "(string \<times> SubscriptionPullIterator) list"
type_synonym ack_todo = "(string \<times> iterator_ref) list"

datatype pull_pc =
    P_Top
  | P_Lock bool
  | P_Wait
  | P_Begin
  | P_Pull nsecs pull_todo
  | P_Watch nsecs SubscriptionPullIterator nsecs "received_message list" "MessageImpl list" pull_todo
  | P_Deliver nsecs "MessageImpl list" pull_todo
  | P_Sleep
  | P_Exit

datatype ack_pc =
    A_Top msecs bool
  | A_Count msecs bool
  | A_Lock msecs bool bool
  | A_Wait msecs bool
  | A_Begin
  | A_Process ack_todo msecs
  | A_Send iterator_ref AckIDSet AckIDSet ack_todo msecs
  | A_Exit

datatype half = AddHalf string iterator_ref | RemoveHalf string

record conc =
  c_sys :: "MessageImpl list sys"
  c_pull :: pull_pc
  c_ack :: ack_pc
  c_halves :: "half list"
  c_answered :: "(iterator_ref \<times> AckID \<times> DoneAction) list"
  c_failed :: "iterator_ref list"

definition c_exec :: "conc \<Rightarrow> Executor" where
  "c_exec c = sy_exec (c_sys c)"

definition c_world :: "conc \<Rightarrow> world" where
  "c_world c = sy_world (c_sys c)"

definition c_held :: "conc \<Rightarrow> MessageImpl list" where
  "c_held c = sy_user (c_sys c)"

definition initial :: "ClientOptions \<Rightarrow> world \<Rightarrow> conc" where
  "initial opts w =
     \<lparr>c_sys = \<lparr>sy_exec = new_Executor opts, sy_world = w, sy_user = []\<rparr>,
      c_pull = P_Top, c_ack = A_Top kSoManyMilliseconds False, c_halves = [], c_answered = [], c_failed = []\<rparr>"

definition with_exec :: "(Executor \<Rightarrow> Executor) \<Rightarrow> conc \<Rightarrow> conc" where
  "with_exec f c = c\<lparr>c_sys := upd_exec f (c_sys c)\<rparr>"

definition with_world :: "world \<Rightarrow> conc \<Rightarrow> conc" where
  "with_world w c = c\<lparr>c_sys := (c_sys c)\<lparr>sy_world := w\<rparr>\<rparr>"

section \<open>The pull thread\<close>

fun pull_next :: "env \<Rightarrow> cv_status \<Rightarrow> pull_pc \<Rightarrow> conc \<Rightarrow> conc option" where
  "pull_next E st P_Top c =
     (if needStop (pullThread (c_exec c)) then Some (c\<lparr>c_pull := P_Exit\<rparr>)
      else (let c1 = with_exec (upd_pullThread RemoveFromActive) c
            in Some (c1\<lparr>c_pull := P_Lock (activeIterators (pullThread (c_exec c1)) = [])\<rparr>)))"
| "pull_next E st (P_Lock noActive) c =
     (if pull_waits noActive (c_exec c) then Some (c\<lparr>c_pull := P_Wait\<rparr>)
      else Some ((with_exec (upd_pullThread MergeInputToActive) c)\<lparr>c_pull := P_Begin\<rparr>))"
| "pull_next E st P_Wait c =
     (let c1 = c\<lparr>c_sys := connect E (c_sys c)\<rparr>
      in if pull_wait_again st (c_exec c1) then Some (c1\<lparr>c_pull := P_Top\<rparr>)
         else Some ((with_exec (upd_pullThread MergeInputToActive) c1)\<lparr>c_pull := P_Begin\<rparr>))"
| "pull_next E st P_Begin c =
     (let c1 = c\<lparr>c_sys := connect E (c_sys c)\<rparr>
      in case hires_now E (c_world c1) of (start, w) \<Rightarrow>
           Some ((with_world w c1)\<lparr>c_pull := P_Pull start (activeIterators (pullThread (c_exec c1)))\<rparr>))"
| "pull_next E st (P_Pull start []) c =
     (case hires_now E (c_world c) of (t, w) \<Rightarrow>
        Some ((with_world w c)\<lparr>c_pull := (if pull_sleep (t - start) \<noteq> kSoManyMilliseconds then P_Sleep else P_Top)\<rparr>))"
| "pull_next E st (P_Pull start ((n, it) # todo)) c =
     (case pull_call E it (c_world c) of
        (Inl e, w) \<Rightarrow> if caught e then Some ((with_world w c)\<lparr>c_pull := P_Top\<rparr>) else None
      | (Inr (msgs, now), w) \<Rightarrow> Some ((with_world w c)\<lparr>c_pull := P_Watch start it now msgs [] todo\<rparr>))"
| "pull_next E st (P_Watch start it now [] vec todo) c = Some (c\<lparr>c_pull := P_Deliver start (rev vec) todo\<rparr>)"
| "pull_next E st (P_Watch start it now (msg # msgs) vec todo) c =
     (case watch_message it now msg vec (c_sys c) of
        (Inl e, s) \<Rightarrow> None
      | (Inr vec', s) \<Rightarrow> Some (c\<lparr>c_sys := s, c_pull := P_Watch start it now msgs vec' todo\<rparr>))"
| "pull_next E st (P_Deliver start [] todo) c = Some (c\<lparr>c_pull := P_Pull start todo\<rparr>)"
| "pull_next E st (P_Deliver start (m # rvec) todo) c =
     Some (c\<lparr>c_sys := (c_sys c)\<lparr>sy_user := c_held c @ [m]\<rparr>, c_pull := P_Deliver start rvec todo\<rparr>)"
| "pull_next E st P_Sleep c = Some (c\<lparr>c_pull := P_Top\<rparr>)"
| "pull_next E st P_Exit c = None"

section \<open>The ack thread\<close>

fun ack_next :: "env \<Rightarrow> cv_status \<Rightarrow> ack_pc \<Rightarrow> conc \<Rightarrow> conc option" where
  "ack_next E st (A_Top sleep needSleep) c =
     (if needStop (ackThread (c_exec c)) then Some (c\<lparr>c_ack := A_Exit\<rparr>)
      else Some ((with_exec (upd_ackThread RemoveFromActive) c)\<lparr>c_ack := A_Count (next_sleep sleep) needSleep\<rparr>))"
| "ack_next E st (A_Count sleep needSleep) c =
     (let keepAliveCount = keep_alive_count (c_exec c)
      in Some ((with_exec (ReportKeepAliveMetric keepAliveCount) c)
               \<lparr>c_ack := A_Lock sleep needSleep (keepAliveCount = 0)\<rparr>))"
| "ack_next E st (A_Lock sleep needSleep noKeepAlives) c =
     (if ack_waits needSleep noKeepAlives (c_exec c) then Some (c\<lparr>c_ack := A_Wait sleep needSleep\<rparr>)
      else Some ((with_exec ack_merge c)\<lparr>c_ack := A_Begin\<rparr>))"
| "ack_next E st (A_Wait sleep needSleep) c =
     (if ack_wait_again needSleep st (c_exec c) then Some (c\<lparr>c_ack := A_Top sleep needSleep\<rparr>)
      else Some ((with_exec ack_merge c)\<lparr>c_ack := A_Begin\<rparr>))"
| "ack_next E st A_Begin c =
     (let c1 = c\<lparr>c_sys := connect E (c_sys c)\<rparr>
      in Some (c1\<lparr>c_ack := A_Process (activeIterators (ackThread (c_exec c1))) kSoManyMilliseconds\<rparr>))"
| "ack_next E st (A_Process [] sleep) c = Some (c\<lparr>c_ack := A_Top sleep (sleep \<noteq> kSoManyMilliseconds)\<rparr>)"
| "ack_next E st (A_Process ((n, p) # todo) sleep) c =
     (case swap_pending (iterator_at (c_exec c) p) of (acks, nacks, it) \<Rightarrow>
        Some ((with_exec (upd_iterator p (\<lambda>_. it)) c)\<lparr>c_ack := A_Send p acks nacks todo sleep\<rparr>))"
| "ack_next E st (A_Send p acks nacks todo sleep) c =
     (let it = iterator_at (c_exec c) p
      in case process_swapped E (iterator_call E it) acks nacks it (c_world c) of
           None \<Rightarrow> None
         | Some (r, it', w) \<Rightarrow>
             (let c1 = with_world w (with_exec (upd_iterator p (\<lambda>_. it')) c)
              in case r of
                   Inr ms \<Rightarrow> Some (c1\<lparr>c_ack := A_Process todo (min ms sleep)\<rparr>)
                 | Inl e \<Rightarrow>
                     if caught e
                     then Some (c1\<lparr>c_ack := A_Top kSoManyMilliseconds False, c_failed := p # c_failed c\<rparr>)
                     else None))"
| "ack_next E st A_Exit c = None"

section \<open>The user\<close>

definition record_answer ::
  "MessageImpl \<Rightarrow> MessageImpl \<Rightarrow> DoneAction \<Rightarrow> (iterator_ref \<times> AckID \<times> DoneAction) list
    \<Rightarrow> (iterator_ref \<times> AckID \<times> DoneAction) list" where
  "record_answer m m' action ans =
     (case mi_iterator m of
        None \<Rightarrow> ans
      | Some p \<Rightarrow> if mi_iterator m' = None then (p, mi_ackID m, action) # ans else ans)"

text \<open>The message at position \<open>i\<close> is answered; \<open>keep\<close> says whether it stays with the user.\<close>

definition user_done :: "env \<Rightarrow> DoneAction \<Rightarrow> bool \<Rightarrow> nat \<Rightarrow> conc \<Rightarrow> conc option" where
  "user_done E action keep i c =
     (if i < length (c_held c) then
        (case message_done E action (c_held c ! i) (c_sys c) of
           (Inl e, m, s) \<Rightarrow> None
         | (Inr u, m, s) \<Rightarrow>
             Some (c\<lparr>c_sys := s\<lparr>sy_user := (if keep then (c_held c)[i := m]
                                          else take i (c_held c) @ drop (Suc i) (c_held c))\<rparr>,
                     c_answered := record_answer (c_held c ! i) m action (c_answered c)\<rparr>))
      else None)"

datatype user_op =
    U_Ack nat
  | U_Nack nat
  | U_Drop nat
  | U_Add hist string callback_ref
  | U_Remove string
  | U_Finish nat
  | U_StopPull
  | U_StopAck
  | U_Clear
  | U_Call EntityBase rpc_request
  | U_Connect
  | U_Sleep msecs
  | U_Policies RetryCountPolicy MaxRetryTimePolicy ExponentialBackoffPolicy

text \<open>The requests of topics and subscriptions, which the threads of the user send themselves.\<close>

fun user_request :: "rpc_request \<Rightarrow> bool" where
  "user_request (AcknowledgeRequest n ks) \<longleftrightarrow> False"
| "user_request (ModifyAckDeadlineRequest n ks d) \<longleftrightarrow> False"
| "user_request (PullRequest n k b) \<longleftrightarrow> False"
| "user_request (GetTopicRequest n) \<longleftrightarrow> True"
| "user_request (CreateTopicRequest n) \<longleftrightarrow> True"
| "user_request (DeleteTopicRequest n) \<longleftrightarrow> True"
| "user_request (PublishRequest n ms) \<longleftrightarrow> True"
| "user_request (GetSubscriptionRequest n) \<longleftrightarrow> True"
| "user_request (CreateSubscriptionRequest n t d) \<longleftrightarrow> True"
| "user_request (DeleteSubscriptionRequest n) \<longleftrightarrow> True"

definition finish_half :: "half \<Rightarrow> Executor \<Rightarrow> Executor" where
  "finish_half h ex =
     (case h of
        AddHalf name p \<Rightarrow> AddIterator_ack name p ex
      | RemoveHalf name \<Rightarrow> upd_ackThread (block_RemoveIterator name) ex)"

definition clear_block :: "'it ThreadDataBlock \<Rightarrow> 'it ThreadDataBlock" where
  "clear_block b = ClearRemoved (clear_active (ClearInput b))"

fun user_next :: "env \<Rightarrow> user_op \<Rightarrow> conc \<Rightarrow> conc option" where
  "user_next E (U_Ack i) c = user_done E Ack True i c"
| "user_next E (U_Nack i) c = user_done E Nack True i c"
| "user_next E (U_Drop i) c = user_done E Nack False i c"
| "user_next E (U_Add memory name cb) c =
     (if length memory = HighLimit then
        (case AddIterator_pull memory name (Some cb) (c_exec c) of
           Inl e \<Rightarrow> Some c
         | Inr (p, ex) \<Rightarrow> Some ((with_exec (\<lambda>_. ex) c)\<lparr>c_halves := AddHalf name p # c_halves c\<rparr>))
      else None)"
| "user_next E (U_Remove name) c =
     Some ((with_exec (upd_pullThread (block_RemoveIterator name)) c)\<lparr>c_halves := RemoveHalf name # c_halves c\<rparr>)"
| "user_next E (U_Finish i) c =
     (if i < length (c_halves c)
      then Some ((with_exec (finish_half (c_halves c ! i)) c)
                 \<lparr>c_halves := take i (c_halves c) @ drop (Suc i) (c_halves c)\<rparr>)
      else None)"
| "user_next E U_StopPull c = Some (with_exec (upd_pullThread set_needStop) c)"
| "user_next E U_StopAck c =
     (if c_pull c = P_Exit then Some (with_exec (upd_ackThread set_needStop) c) else None)"
| "user_next E U_Clear c =
     (if c_pull c = P_Exit \<and> c_ack c = A_Exit
      then Some (with_exec (\<lambda>ex. upd_ackThread clear_block (upd_pullThread clear_block ex)) c)
      else None)"
| "user_next E (U_Call t req) c =
     (if user_request req
      then (case entity_call E t req (c_world c) of
              None \<Rightarrow> None
            | Some (r, w) \<Rightarrow> Some (with_world w c))
      else None)"
| "user_next E U_Connect c = Some (c\<lparr>c_sys := connect E (c_sys c)\<rparr>)"
| "user_next E (U_Sleep d) c = Some (with_world (sleep_for E d (c_world c)) c)"
| "user_next E (U_Policies cp tp bp) c = Some (with_exec (ApplyPolicies cp tp bp) c)"

section \<open>Steps and runs\<close>

datatype action = PullStep cv_status | AckStep cv_status | UserStep user_op

fun next_state :: "env \<Rightarrow> action \<Rightarrow> conc \<Rightarrow> conc option" where
  "next_state E (PullStep st) c = pull_next E st (c_pull c) c"
| "next_state E (AckStep st) c = ack_next E st (c_ack c) c"
| "next_state E (UserStep op) c = user_next E op c"

inductive step :: "env \<Rightarrow> conc \<Rightarrow> conc \<Rightarrow> bool" for E where
  pull: "pull_next E st (c_pull c) c = Some c' \<Longrightarrow> step E c c'"
| ack: "ack_next E st (c_ack c) c = Some c' \<Longrightarrow> step E c c'"
| user: "user_next E op c = Some c' \<Longrightarrow> step E c c'"

inductive reachable :: "env \<Rightarrow> ClientOptions \<Rightarrow> world \<Rightarrow> conc \<Rightarrow> bool" for E opts w where
  start: "reachable E opts w (initial opts w)"
| step: "reachable E opts w c \<Longrightarrow> step E c c' \<Longrightarrow> reachable E opts w c'"

inductive_cases step_cases: "step E c c'"

fun run :: "env \<Rightarrow> action list \<Rightarrow> conc \<Rightarrow> conc option" where
  "run E [] c = Some c"
| "run E (a # as) c = (case next_state E a c of None \<Rightarrow> None | Some c' \<Rightarrow> run E as c')"

lemma next_state_step: "next_state E a c = Some c' \<Longrightarrow> step E c c'"
  by (cases a) (auto intro: step.intros)

lemma run_append: "run E (as @ bs) c = Option.bind (run E as c) (run E bs)"
  by (induction as arbitrary: c) (simp_all split: option.splits)

lemma run_reachable: "reachable E opts w c \<Longrightarrow> run E as c = Some c' \<Longrightarrow> reachable E opts w c'"
proof (induction as arbitrary: c)
  case Nil
  then show ?case by simp
next
  case (Cons a as)
  from Cons.prems(2) obtain c1 where c1: "next_state E a c = Some c1" "run E as c1 = Some c'"
    by (auto split: option.splits)
  have "reachable E opts w c1"
    using Cons.prems(1) next_state_step [OF c1(1)] by (rule reachable.step)
  then show ?case using c1(2) by (rule Cons.IH)
qed

end
