(* ===== verification/Protocol.thy ===== *)
theory Protocol
  imports ModAck
begin

text \<open>
  What the acknowledgement machinery promises, without threads, containers, requests or time: messages
  are watched before they are out, an answer is kept until the service was told, and the service is
  told nothing else. \<open>Refinement\<close> shows that the interleaved threads of \<open>Interleaving\<close> implement it.
\<close>

section \<open>States and steps\<close>

record proto =
  pr_names :: "string list"
  pr_out :: "(nat \<times> AckID) set"
  pr_watched :: "nat \<Rightarrow> AckID set"
  pr_pending :: "nat \<Rightarrow> AckID \<Rightarrow> DoneAction option"
  pr_flight :: "(nat \<times> (AckID \<Rightarrow> DoneAction option)) option"
  pr_asked :: "(string \<times> AckID \<times> DoneAction) set"
  pr_told :: "(string \<times> AckID \<times> DoneAction) set"
  pr_answered :: "(nat \<times> AckID \<times> DoneAction) list"
  pr_failed :: "nat set"

text \<open>The messages of a batch, under the name of its subscription.\<close>

definition batch_of :: "string \<Rightarrow> (AckID \<Rightarrow> DoneAction option) \<Rightarrow> (string \<times> AckID \<times> DoneAction) set" where
  "batch_of s b = {(s, k, a) | k a. b k = Some a}"

text \<open>
  The iterators are numbered. A message that was answered may stay watched: the code takes it out of the
  deadlines that are extended, but not out of those that wait to be merged. \<open>forget\<close> covers a message whose iterator is gone and every step of the
  code that does not matter here.
\<close>

inductive proto_step :: "proto \<Rightarrow> proto \<Rightarrow> bool" where
  forget: "out \<subseteq> pr_out s \<Longrightarrow> proto_step s (s\<lparr>pr_out := out\<rparr>)"
| receiver: "pr_watched s (length (pr_names s)) = {} \<Longrightarrow> pr_pending s (length (pr_names s)) = Map.empty \<Longrightarrow>
    proto_step s (s\<lparr>pr_names := pr_names s @ [n]\<rparr>)"
| watch: "p < length (pr_names s) \<Longrightarrow> out \<subseteq> insert (p, k) (pr_out s) \<Longrightarrow>
    proto_step s (s\<lparr>pr_watched := (pr_watched s)(p := insert k (pr_watched s p)), pr_out := out\<rparr>)"
| answer: "p < length (pr_names s) \<Longrightarrow> (p, k) \<in> pr_out s \<Longrightarrow> out \<subseteq> pr_out s \<Longrightarrow>
    proto_step s (s\<lparr>pr_pending := (pr_pending s)(p := (pr_pending s p)(k \<mapsto> a)),
      pr_answered := (p, k, a) # pr_answered s, pr_out := out\<rparr>)"
| collect: "p < length (pr_names s) \<Longrightarrow> pr_flight s = None \<Longrightarrow>
    proto_step s (s\<lparr>pr_flight := Some (p, pr_pending s p), pr_pending := (pr_pending s)(p := Map.empty)\<rparr>)"
| deliver: "pr_flight s = Some (p, b) \<Longrightarrow> p < length (pr_names s) \<Longrightarrow>
    asked \<subseteq> pr_asked s \<union> batch_of (pr_names s ! p) b \<Longrightarrow> pr_told s \<union> batch_of (pr_names s ! p) b \<subseteq> told \<Longrightarrow>
    pr_watched s p - dom b \<subseteq> watched \<Longrightarrow> watched \<subseteq> pr_watched s p \<Longrightarrow>
    proto_step s (s\<lparr>pr_flight := None, pr_watched := (pr_watched s)(p := watched),
      pr_asked := asked, pr_told := told\<rparr>)"
| fail: "pr_flight s = Some (p, b) \<Longrightarrow> p < length (pr_names s) \<Longrightarrow>
    asked \<subseteq> pr_asked s \<union> batch_of (pr_names s ! p) b \<Longrightarrow> pr_told s \<subseteq> told \<Longrightarrow>
    pr_watched s p - dom b \<subseteq> watched \<Longrightarrow> watched \<subseteq> pr_watched s p \<Longrightarrow>
    proto_step s (s\<lparr>pr_flight := None, pr_watched := (pr_watched s)(p := watched),
      pr_asked := asked, pr_told := told, pr_failed := insert p (pr_failed s)\<rparr>)"

inductive_cases proto_step_cases: "proto_step s s'"

inductive proto_reachable :: "proto \<Rightarrow> bool" where
  proto_start: "pr_names s = [] \<Longrightarrow> pr_out s = {} \<Longrightarrow> pr_watched s = (\<lambda>_. {}) \<Longrightarrow>
    pr_pending s = (\<lambda>_. Map.empty) \<Longrightarrow> pr_flight s = None \<Longrightarrow> pr_asked s = {} \<Longrightarrow> pr_answered s = [] \<Longrightarrow>
    proto_reachable s"
| proto_step: "proto_reachable s \<Longrightarrow> proto_step s s' \<Longrightarrow> proto_reachable s'"

section \<open>What holds in every reachable state\<close>

definition last_answer :: "proto \<Rightarrow> nat \<Rightarrow> AckID \<Rightarrow> DoneAction option" where
  "last_answer s p k = map_of (map (\<lambda>(p, k, a). ((p, k), a)) (pr_answered s)) (p, k)"

definition in_flight :: "proto \<Rightarrow> nat \<Rightarrow> AckID \<Rightarrow> DoneAction option" where
  "in_flight s p = (case pr_flight s of None \<Rightarrow> Map.empty | Some (q, b) \<Rightarrow> if q = p then b else Map.empty)"

text \<open>Every message that is out is watched until it was answered.\<close>

definition covered :: "proto \<Rightarrow> nat \<Rightarrow> AckID \<Rightarrow> bool" where
  "covered s p k \<longleftrightarrow> k \<in> pr_watched s p \<or> (\<exists>a. (p, k, a) \<in> set (pr_answered s))"

definition out_watched :: "proto \<Rightarrow> bool" where
  "out_watched s \<longleftrightarrow> (\<forall>p k. (p, k) \<in> pr_out s \<longrightarrow> p < length (pr_names s) \<and> covered s p k)"

text \<open>Only answers of the user are pending, in flight, or told to the service.\<close>

definition answers_genuine :: "proto \<Rightarrow> bool" where
  "answers_genuine s \<longleftrightarrow>
     (\<forall>p k a. pr_pending s p k = Some a \<or> in_flight s p k = Some a \<longrightarrow> (p, k, a) \<in> set (pr_answered s)) \<and>
     (\<forall>(p, k, a)\<in>set (pr_answered s). p < length (pr_names s))"

definition asked_genuine :: "proto \<Rightarrow> bool" where
  "asked_genuine s \<longleftrightarrow> (\<forall>(n, k, a)\<in>pr_asked s.
     \<exists>p<length (pr_names s). pr_names s ! p = n \<and> (p, k, a) \<in> set (pr_answered s))"

text \<open>An answer is pending, in flight or was told to the service, unless a round of its iterator failed.\<close>

definition kept :: "proto \<Rightarrow> nat \<Rightarrow> AckID \<Rightarrow> DoneAction \<Rightarrow> bool" where
  "kept s p k a \<longleftrightarrow> pr_pending s p k = Some a \<or> in_flight s p k = Some a \<or>
     (pr_names s ! p, k, a) \<in> pr_told s \<or> p \<in> pr_failed s"

definition answers_kept :: "proto \<Rightarrow> bool" where
  "answers_kept s \<longleftrightarrow> (\<forall>p k a. last_answer s p k = Some a \<longrightarrow> kept s p k a)"

definition proto_ok :: "proto \<Rightarrow> bool" where
  "proto_ok s \<longleftrightarrow> out_watched s \<and> answers_genuine s \<and> asked_genuine s \<and> answers_kept s"

lemma last_answer_answered: "last_answer s p k = Some a \<Longrightarrow> (p, k, a) \<in> set (pr_answered s)"
  by (auto simp: last_answer_def dest!: map_of_SomeD)

lemma last_answer_Cons:
  "pr_answered s' = (p, k, a) # pr_answered s \<Longrightarrow>
    last_answer s' q j = (if q = p \<and> j = k then Some a else last_answer s q j)"
  by (auto simp: last_answer_def)

lemma names_mono: "proto_step s s' \<Longrightarrow> p < length (pr_names s) \<Longrightarrow>
    p < length (pr_names s') \<and> pr_names s' ! p = pr_names s ! p"
  by (erule proto_step.cases) (auto simp: nth_append)

lemma flight_answered:
  assumes "answers_genuine s" and "pr_flight s = Some (p, b)" and "k \<in> dom b"
  shows "\<exists>a. (p, k, a) \<in> set (pr_answered s)"
proof -
  from assms(3) obtain a where "b k = Some a" by blast
  then have "in_flight s p k = Some a" using assms(2) by (simp add: in_flight_def)
  with assms(1) show ?thesis unfolding answers_genuine_def by blast
qed

lemma covered_step:
  assumes step: "proto_step s s'" and gen: "answers_genuine s" and cov: "covered s p k"
  shows "covered s' p k"
  using step
proof cases
  case (deliver q b asked told watched)
  with cov flight_answered [OF gen deliver(2), of k] show ?thesis by (auto simp: covered_def)
next
  case (fail q b asked told watched)
  with cov flight_answered [OF gen fail(2), of k] show ?thesis by (auto simp: covered_def)
qed (use cov in \<open>auto simp: covered_def\<close>)

lemma out_step: "proto_step s s' \<Longrightarrow> (p, k) \<in> pr_out s' \<Longrightarrow>
    (p, k) \<in> pr_out s \<or> (p < length (pr_names s') \<and> covered s' p k)"
  by (erule proto_step.cases) (auto simp: covered_def)

lemma out_watched_step:
  assumes "proto_step s s'" and "out_watched s" and "answers_genuine s"
  shows "out_watched s'"
  using assms out_step covered_step names_mono unfolding out_watched_def by blast

lemma answers_genuine_step:
  assumes step: "proto_step s s'" and gen: "answers_genuine s"
  shows "answers_genuine s'"
  using step
proof cases
  case (receiver n)
  with gen show ?thesis by (auto simp: answers_genuine_def in_flight_def less_Suc_eq)
next
  case (answer p k out a)
  with gen show ?thesis by (auto simp: answers_genuine_def in_flight_def)
next
  case (collect p)
  with gen show ?thesis by (simp add: answers_genuine_def in_flight_def)
next
  case (deliver p b asked told watched)
  with gen show ?thesis by (simp add: answers_genuine_def in_flight_def)
next
  case (fail p b asked told watched)
  with gen show ?thesis by (simp add: answers_genuine_def in_flight_def)
qed (use gen in \<open>simp_all add: answers_genuine_def in_flight_def\<close>)

lemma batch_answered:
  assumes "answers_genuine s" and "pr_flight s = Some (p, b)" and "(n, k, a) \<in> batch_of m b"
  shows "n = m" and "(p, k, a) \<in> set (pr_answered s)"
  using assms by (auto simp: answers_genuine_def in_flight_def batch_of_def)

lemma asked_genuine_step:
  assumes step: "proto_step s s'" and gen: "answers_genuine s" and asked: "asked_genuine s"
  shows "asked_genuine s'"
proof -
  have "\<exists>p<length (pr_names s). pr_names s ! p = n \<and> (p, k, a) \<in> set (pr_answered s)"
    if "(n, k, a) \<in> pr_asked s'" for n k a
    using step
  proof cases
    case (deliver p b asked told watched)
    then have "(n, k, a) \<in> pr_asked s \<or> (n, k, a) \<in> batch_of (pr_names s ! p) b" using that by auto
    with asked deliver(3) batch_answered [OF gen deliver(2), of n k a] show ?thesis
      unfolding asked_genuine_def by blast
  next
    case (fail p b asked told watched)
    then have "(n, k, a) \<in> pr_asked s \<or> (n, k, a) \<in> batch_of (pr_names s ! p) b" using that by auto
    with asked fail(3) batch_answered [OF gen fail(2), of n k a] show ?thesis
      unfolding asked_genuine_def by blast
  qed (use that asked in \<open>auto simp: asked_genuine_def\<close>)
  moreover have "set (pr_answered s) \<subseteq> set (pr_answered s')"
    using step by cases auto
  ultimately show ?thesis
    using names_mono [OF step] unfolding asked_genuine_def by blast
qed

text \<open>A new answer is pending; every other one stays where it is or moves on.\<close>

lemma kept_step:
  assumes step: "proto_step s s'" and k: "kept s p k a" and len: "p < length (pr_names s)"
    and same: "last_answer s' p k = last_answer s p k"
  shows "kept s' p k a \<or> last_answer s' p k \<noteq> Some a"
  using step
proof cases
  case (answer q j out a')
  then have "last_answer s' p k = (if p = q \<and> k = j then Some a' else last_answer s p k)"
    by (intro last_answer_Cons) simp
  with answer k show ?thesis by (auto simp: kept_def in_flight_def)
next
  case (deliver q b asked told watched)
  have "(pr_names s ! q, k, a) \<in> told" if "b k = Some a" using that deliver by (auto simp: batch_of_def)
  with deliver k show ?thesis by (auto simp: kept_def in_flight_def split: if_splits)
next
  case (fail q b asked told watched)
  with k show ?thesis by (auto simp: kept_def in_flight_def split: if_splits)
next
  case (receiver n)
  with k len show ?thesis by (auto simp: kept_def in_flight_def nth_append)
qed (use k in \<open>auto simp: kept_def in_flight_def\<close>)

lemma last_answer_step:
  assumes "proto_step s s'" and "last_answer s' p k = Some a"
  shows "kept s' p k a \<or> last_answer s p k = Some a"
  using assms(1)
proof cases
  case (answer q j out a')
  then have "last_answer s' p k = (if p = q \<and> k = j then Some a' else last_answer s p k)"
    by (intro last_answer_Cons) simp
  with answer assms(2) show ?thesis by (auto simp: kept_def split: if_splits)
qed (use assms(2) in \<open>simp_all add: last_answer_def\<close>)

lemma answers_kept_step:
  assumes step: "proto_step s s'" and gen: "answers_genuine s" and ok: "answers_kept s"
  shows "answers_kept s'"
  unfolding answers_kept_def
proof (intro allI impI)
  fix p k a
  assume last: "last_answer s' p k = Some a"
  show "kept s' p k a"
  proof (cases "last_answer s p k = Some a")
    case True
    have "p < length (pr_names s)"
      using gen last_answer_answered [OF True] unfolding answers_genuine_def by blast
    with kept_step [OF step, of p k a] ok last True show ?thesis by (simp add: answers_kept_def)
  qed (use last_answer_step [OF step last] in simp)
qed

lemma proto_ok_step: "proto_step s s' \<Longrightarrow> proto_ok s \<Longrightarrow> proto_ok s'"
  unfolding proto_ok_def
  using out_watched_step answers_genuine_step asked_genuine_step answers_kept_step by blast

lemma proto_ok_reachable: "proto_reachable s \<Longrightarrow> proto_ok s"
proof (induction rule: proto_reachable.induct)
  case (proto_start s)
  then show ?case
    by (simp add: proto_ok_def out_watched_def answers_genuine_def asked_genuine_def answers_kept_def
        in_flight_def last_answer_def)
next
  case (proto_step s s')
  then show ?case by (blast intro: proto_ok_step)
qed

section \<open>Answers that come too early\<close>

text \<open>
  A message that is watched although it is neither out nor answered (\<open>orphaned\<close>): nothing but a new
  delivery changes that.
\<close>

definition orphaned :: "proto \<Rightarrow> nat \<Rightarrow> AckID \<Rightarrow> bool" where
  "orphaned s p k \<longleftrightarrow> p < length (pr_names s) \<and> k \<in> pr_watched s p \<and> (p, k) \<notin> pr_out s \<and>
     pr_pending s p k = None \<and> in_flight s p k = None"

lemma orphaned_step:
  assumes step: "proto_step s s'" and orphan: "orphaned s p k" and out: "(p, k) \<notin> pr_out s'"
  shows "orphaned s' p k"
  using step
proof cases
  case (deliver q b asked told watched)
  then have "q = p \<Longrightarrow> k \<notin> dom b" using orphan by (auto simp: orphaned_def in_flight_def)
  with deliver orphan show ?thesis by (auto simp: orphaned_def in_flight_def split: if_splits)
next
  case (fail q b asked told watched)
  then have "q = p \<Longrightarrow> k \<notin> dom b" using orphan by (auto simp: orphaned_def in_flight_def)
  with fail orphan show ?thesis by (auto simp: orphaned_def in_flight_def split: if_splits)
qed (use orphan out in \<open>auto simp: orphaned_def in_flight_def\<close>)

section \<open>Implementations\<close>

text \<open>
  A transition system whose good states map to states of the protocol, its steps to steps. What the
  protocol keeps, its runs keep. \<open>Refinement\<close> interprets it on the interleaved threads.
\<close>

locale protocol_implementation =
  fixes impl_step :: "'c \<Rightarrow> 'c \<Rightarrow> bool"
    and good :: "'c \<Rightarrow> bool"
    and abstr :: "'c \<Rightarrow> proto"
  assumes good_step: "impl_step c c' \<Longrightarrow> good c \<Longrightarrow> good c'"
    and sim_step: "impl_step c c' \<Longrightarrow> good c \<Longrightarrow> proto_step (abstr c) (abstr c')"
begin

lemma good_steps: "impl_step\<^sup>*\<^sup>* c c' \<Longrightarrow> good c \<Longrightarrow> good c'"
  by (induction rule: rtranclp_induct) (auto intro: good_step)

lemma sim_steps:
  assumes "impl_step\<^sup>*\<^sup>* c c'" and "good c"
  shows "proto_step\<^sup>*\<^sup>* (abstr c) (abstr c')"
  using assms(1)
proof (induction rule: rtranclp_induct)
  case base
  show ?case by simp
next
  case (step c1 c2)
  have "proto_step (abstr c1) (abstr c2)"
    using sim_step [OF step.hyps(2)] good_steps [OF step.hyps(1) assms(2)] by simp
  with step.IH show ?case by (rule rtranclp.rtrancl_into_rtrancl)
qed

lemma keeps_promises:
  assumes "impl_step\<^sup>*\<^sup>* c c'" and "good c" and "proto_ok (abstr c)"
  shows "proto_ok (abstr c')"
  using sim_steps [OF assms(1,2)] assms(3)
  by (induction rule: rtranclp_induct) (auto intro: proto_ok_step)

lemma orphaned_steps:
  assumes "(\<lambda>a b. impl_step a b \<and> (p, k) \<notin> pr_out (abstr b))\<^sup>*\<^sup>* c c'" and "good c"
    and "orphaned (abstr c) p k"
  shows "orphaned (abstr c') p k"
proof -
  have "good c' \<and> orphaned (abstr c') p k"
    using assms(1)
  proof (induction rule: rtranclp_induct)
    case base
    show ?case using assms(2,3) by simp
  next
    case (step c1 c2)
    then show ?case using good_step sim_step orphaned_step by blast
  qed
  then show ?thesis by simp
qed

end

end
