(* ===== verification/Refinement.thy ===== *)
theory Refinement
  imports Interleaving Protocol
begin

text \<open>
  The invariant of the interleaved threads, and that each of their steps is a step of \<open>Protocol\<close>.
\<close>

section \<open>The invariant\<close>

definition msg_ok :: "ModAckIterator list \<Rightarrow> MessageImpl \<Rightarrow> bool" where
  "msg_ok hp m \<longleftrightarrow> (\<forall>p. mi_iterator m = Some p \<longrightarrow> p < length hp)"

definition todo_ok :: "ModAckIterator list \<Rightarrow> pull_todo \<Rightarrow> bool" where
  "todo_ok hp todo \<longleftrightarrow> (\<forall>(n, it)\<in>set todo. pull_entry_ok hp n it)"

definition ack_todo_ok :: "ModAckIterator list \<Rightarrow> ack_todo \<Rightarrow> bool" where
  "ack_todo_ok hp todo \<longleftrightarrow> (\<forall>(n, p)\<in>set todo. ack_entry_ok hp n p)"

fun pull_pc_ok :: "ModAckIterator list \<Rightarrow> pull_pc \<Rightarrow> bool" where
  "pull_pc_ok hp (P_Pull start todo) \<longleftrightarrow> todo_ok hp todo"
| "pull_pc_ok hp (P_Watch start it now msgs vec todo) \<longleftrightarrow>
     pi_ackIterator it < length hp \<and> (\<forall>m\<in>set vec. msg_ok hp m) \<and> todo_ok hp todo"
| "pull_pc_ok hp (P_Deliver start rvec todo) \<longleftrightarrow> (\<forall>m\<in>set rvec. msg_ok hp m) \<and> todo_ok hp todo"
| "pull_pc_ok hp P_Top \<longleftrightarrow> True"
| "pull_pc_ok hp (P_Lock b) \<longleftrightarrow> True"
| "pull_pc_ok hp P_Wait \<longleftrightarrow> True"
| "pull_pc_ok hp P_Begin \<longleftrightarrow> True"
| "pull_pc_ok hp P_Sleep \<longleftrightarrow> True"
| "pull_pc_ok hp P_Exit \<longleftrightarrow> True"

fun ack_pc_ok :: "ModAckIterator list \<Rightarrow> ack_pc \<Rightarrow> bool" where
  "ack_pc_ok hp (A_Process todo sleep) \<longleftrightarrow> ack_todo_ok hp todo"
| "ack_pc_ok hp (A_Send p acks nacks todo sleep) \<longleftrightarrow> p < length hp \<and> us_ok id acks \<and> us_ok id nacks \<and>
     set acks \<inter> set nacks = {} \<and> ack_todo_ok hp todo"
| "ack_pc_ok hp (A_Top s b) \<longleftrightarrow> True"
| "ack_pc_ok hp (A_Count s b) \<longleftrightarrow> True"
| "ack_pc_ok hp (A_Lock s b k) \<longleftrightarrow> True"
| "ack_pc_ok hp (A_Wait s b) \<longleftrightarrow> True"
| "ack_pc_ok hp A_Begin \<longleftrightarrow> True"
| "ack_pc_ok hp A_Exit \<longleftrightarrow> True"

fun half_ok :: "ModAckIterator list \<Rightarrow> half \<Rightarrow> bool" where
  "half_ok hp (AddHalf name p) \<longleftrightarrow> ack_entry_ok hp name p"
| "half_ok hp (RemoveHalf name) \<longleftrightarrow> True"

definition heap_ok :: "ModAckIterator list \<Rightarrow> bool" where
  "heap_ok hp \<longleftrightarrow> (\<forall>it\<in>set hp. iterator_ok it \<and> executorAlive it)"

definition heap_of :: "conc \<Rightarrow> ModAckIterator list" where
  "heap_of c = ack_heap (c_exec c)"

definition conc_ok :: "conc \<Rightarrow> bool" where
  "conc_ok c \<longleftrightarrow> exec_ok (c_exec c) \<and> heap_ok (heap_of c) \<and> pull_pc_ok (heap_of c) (c_pull c) \<and>
     ack_pc_ok (heap_of c) (c_ack c) \<and> (\<forall>h\<in>set (c_halves c). half_ok (heap_of c) h) \<and>
     (\<forall>m\<in>set (c_held c). msg_ok (heap_of c) m)"

text \<open>Heaps only grow, and an iterator keeps its name.\<close>

definition heap_le :: "ModAckIterator list \<Rightarrow> ModAckIterator list \<Rightarrow> bool" where
  "heap_le hp hp' \<longleftrightarrow> length hp \<le> length hp' \<and>
     (\<forall>p<length hp. subscriptionName (hp' ! p) = subscriptionName (hp ! p))"

lemma heap_le_refl [simp]: "heap_le hp hp"
  by (simp add: heap_le_def)

lemma heap_le_trans: "heap_le a b \<Longrightarrow> heap_le b c \<Longrightarrow> heap_le a c"
  by (auto simp: heap_le_def)

lemma heap_le_entries:
  assumes le: "heap_le hp hp'"
  shows "ack_entry_ok hp n p \<Longrightarrow> ack_entry_ok hp' n p" "pull_entry_ok hp n it \<Longrightarrow> pull_entry_ok hp' n it"
    "msg_ok hp m \<Longrightarrow> msg_ok hp' m" "half_ok hp h \<Longrightarrow> half_ok hp' h"
proof -
  show ack: "ack_entry_ok hp n p \<Longrightarrow> ack_entry_ok hp' n p" for n p
    using le by (auto simp: heap_le_def ack_entry_ok_def)
  then show "pull_entry_ok hp n it \<Longrightarrow> pull_entry_ok hp' n it" by (simp add: pull_entry_ok_def)
  show "msg_ok hp m \<Longrightarrow> msg_ok hp' m" using le by (auto simp: heap_le_def msg_ok_def)
  show "half_ok hp h \<Longrightarrow> half_ok hp' h" using ack by (cases h) simp_all
qed

lemma heap_le_todo:
  assumes le: "heap_le hp hp'"
  shows "todo_ok hp todo \<Longrightarrow> todo_ok hp' todo" "ack_todo_ok hp atodo \<Longrightarrow> ack_todo_ok hp' atodo"
  using heap_le_entries [OF le] by (fastforce simp: todo_ok_def ack_todo_ok_def)+

lemma heap_le_pcs:
  assumes le: "heap_le hp hp'"
  shows "pull_pc_ok hp pc \<Longrightarrow> pull_pc_ok hp' pc" "ack_pc_ok hp apc \<Longrightarrow> ack_pc_ok hp' apc"
proof -
  have len: "p < length hp \<Longrightarrow> p < length hp'" for p using le by (simp add: heap_le_def)
  show "pull_pc_ok hp pc \<Longrightarrow> pull_pc_ok hp' pc"
    by (cases pc) (auto intro: heap_le_entries [OF le] heap_le_todo [OF le] len)
  show "ack_pc_ok hp apc \<Longrightarrow> ack_pc_ok hp' apc"
    by (cases apc) (auto intro: heap_le_entries [OF le] heap_le_todo [OF le] len)
qed

lemma heap_le_upd: "subscriptionName (f (hp ! p)) = subscriptionName (hp ! p) \<Longrightarrow> heap_le hp (hp[p := f (hp ! p)])"
  by (simp add: heap_le_def name_list_update)

lemma heap_le_new: "heap_le hp (hp @ [it])"
  by (simp add: heap_le_def nth_append)

lemma heap_ok_upd:
  assumes "heap_ok hp" and "p < length hp" and "iterator_ok (f (hp ! p))" and "executorAlive (f (hp ! p))"
  shows "heap_ok (hp[p := f (hp ! p)])"
  using assms set_update_subset_insert [of hp p "f (hp ! p)"] by (auto simp: heap_ok_def)

lemma heap_okD: "heap_ok hp \<Longrightarrow> p < length hp \<Longrightarrow> iterator_ok (hp ! p) \<and> executorAlive (hp ! p)"
  by (simp add: heap_ok_def)

text \<open>What all steps have to keep of the heap, and the rest of the invariant with it.\<close>

lemma conc_okI:
  assumes "conc_ok c" and "heap_le (heap_of c) (heap_of c')" and "heap_ok (heap_of c')" and "exec_ok (c_exec c')"
    and "c_pull c' = c_pull c \<or> pull_pc_ok (heap_of c') (c_pull c')"
    and "c_ack c' = c_ack c \<or> ack_pc_ok (heap_of c') (c_ack c')"
    and "\<And>h. h \<in> set (c_halves c') \<Longrightarrow> h \<in> set (c_halves c) \<or> half_ok (heap_of c') h"
    and "\<And>m. m \<in> set (c_held c') \<Longrightarrow> m \<in> set (c_held c) \<or> msg_ok (heap_of c') m"
  shows "conc_ok c'"
  unfolding conc_ok_def
proof (intro conjI ballI)
  note le = heap_le_pcs [OF assms(2)] heap_le_entries [OF assms(2)]
  show "pull_pc_ok (heap_of c') (c_pull c')" using assms(1,5) le(1) by (auto simp: conc_ok_def)
  show "ack_pc_ok (heap_of c') (c_ack c')" using assms(1,6) le(2) by (auto simp: conc_ok_def)
  show "half_ok (heap_of c') h" if "h \<in> set (c_halves c')" for h
    using assms(1,7) that le(6) by (auto simp: conc_ok_def)
  show "msg_ok (heap_of c') m" if "m \<in> set (c_held c')" for m
    using assms(1,8) that le(5) by (auto simp: conc_ok_def)
qed (use assms in simp_all)

lemmas conc_simps = c_exec_def c_world_def c_held_def heap_of_def with_exec_def with_world_def upd_exec_def
  connect_def

lemma upd_thread_simps [simp]:
  "ack_heap (upd_ackThread f ex) = ack_heap ex" "ack_heap (upd_pullThread g ex) = ack_heap ex"
  "ackThread (upd_ackThread f ex) = f (ackThread ex)" "pullThread (upd_pullThread g ex) = g (pullThread ex)"
  "pullThread (upd_ackThread f ex) = pullThread ex" "ackThread (upd_pullThread g ex) = ackThread ex"
  by (simp_all add: upd_ackThread_def upd_pullThread_def)

lemma upd_iterator_simps [simp]:
  "ack_heap (upd_iterator p f ex) = (ack_heap ex)[p := f (ack_heap ex ! p)]"
  "ackThread (upd_iterator p f ex) = ackThread ex" "pullThread (upd_iterator p f ex) = pullThread ex"
  by (simp_all add: upd_iterator_def)

lemma report_simps [simp]:
  "ack_heap (ReportKeepAliveMetric n ex) = ack_heap ex" "ackThread (ReportKeepAliveMetric n ex) = ackThread ex"
  "pullThread (ReportKeepAliveMetric n ex) = pullThread ex"
  by (simp_all add: ReportKeepAliveMetric_def split: option.split)

lemma exec_ok_report [simp]: "exec_ok (ReportKeepAliveMetric n ex) = exec_ok ex"
  by (simp add: exec_ok_def)

lemma exec_ok_flags [simp, intro]:
  assumes "exec_ok ex"
  shows "exec_ok (upd_pullThread set_needStop ex)" "exec_ok (upd_ackThread set_needStop ex)"
    "exec_ok (upd_ackThread clear_block (upd_pullThread clear_block ex))"
  using assms
  by (auto simp: exec_ok_def set_needStop_def clear_block_def clear_active_def block_ok_def all_entries_def
      ClearInput_def ClearRemoved_def ExecuteUnderMutex_def)

subsection \<open>Quiet changes of the heap\<close>

definition watched_ids :: "ModAckIterator \<Rightarrow> AckID set" where
  "watched_ids it = set (um_keys (inputAckIDs it)) \<union> set (um_keys (keepAliveAckIDs it))"

definition quiet :: "ModAckIterator list \<Rightarrow> ModAckIterator list \<Rightarrow> bool" where
  "quiet hp hp' \<longleftrightarrow> length hp' = length hp \<and> (\<forall>p<length hp.
     subscriptionName (hp' ! p) = subscriptionName (hp ! p) \<and> answers (hp' ! p) = answers (hp ! p) \<and>
     watched_ids (hp' ! p) = watched_ids (hp ! p))"

lemma quiet_refl [simp]: "quiet hp hp"
  by (simp add: quiet_def)

lemma quiet_trans: "quiet a b \<Longrightarrow> quiet b c \<Longrightarrow> quiet a c"
  by (simp add: quiet_def)

lemma quiet_le: "quiet hp hp' \<Longrightarrow> heap_le hp hp'"
  by (simp add: quiet_def heap_le_def)

lemma MergeInput_simps [simp]:
  "subscriptionName (MergeInput it) = subscriptionName it" "answers (MergeInput it) = answers it"
  "watched_ids (MergeInput it) = watched_ids it" "executorAlive (MergeInput it) = executorAlive it"
  by (auto simp: MergeInput_def answers_def watched_ids_def container_simps) (simp add: um_keys_def)+

lemma quiet_MergeInput: "quiet hp (hp[p := MergeInput (hp ! p)])"
proof -
  have "subscriptionName (hp[p := MergeInput (hp ! p)] ! q) = subscriptionName (hp ! q) \<and>
      answers (hp[p := MergeInput (hp ! p)] ! q) = answers (hp ! q) \<and>
      watched_ids (hp[p := MergeInput (hp ! p)] ! q) = watched_ids (hp ! q)" if "q < length hp" for q
    using that by (cases "q = p") simp_all
  then show ?thesis by (simp add: quiet_def)
qed

lemma ack_merge_fold:
  assumes "exec_ok ex" and "heap_ok (ack_heap ex)" and "\<forall>(n, p)\<in>set xs. p < length (ack_heap ex)"
  defines "ex' \<equiv> fold (\<lambda>(n, p). upd_iterator p MergeInput) xs ex"
  shows "exec_ok ex' \<and> heap_ok (ack_heap ex') \<and> quiet (ack_heap ex) (ack_heap ex')"
  unfolding ex'_def using assms(1-3)
proof (induction xs arbitrary: ex)
  case Nil
  then show ?case by simp
next
  case (Cons x xs)
  obtain n p where x: "x = (n, p)" by (cases x)
  have p: "p < length (ack_heap ex)" using Cons.prems(3) x by simp
  note it = heap_okD [OF Cons.prems(2) p]
  have "exec_ok (upd_iterator p MergeInput ex)"
    using Cons.prems(1) by (intro exec_ok_upd_iterator) (simp_all add: iterator_at_def)
  moreover have "heap_ok (ack_heap (upd_iterator p MergeInput ex))"
    using Cons.prems(2) p it by (auto intro!: heap_ok_upd iterator_ok_MergeInput)
  ultimately have "exec_ok (fold (\<lambda>(n, p). upd_iterator p MergeInput) xs (upd_iterator p MergeInput ex)) \<and>
      heap_ok (ack_heap (fold (\<lambda>(n, p). upd_iterator p MergeInput) xs (upd_iterator p MergeInput ex))) \<and>
      quiet (ack_heap (upd_iterator p MergeInput ex))
        (ack_heap (fold (\<lambda>(n, p). upd_iterator p MergeInput) xs (upd_iterator p MergeInput ex)))"
    using Cons.prems(3) by (intro Cons.IH) auto
  with quiet_MergeInput [of "ack_heap ex" p] show ?case
    by (auto simp: x intro: quiet_trans)
qed

lemma ack_merge_ok:
  assumes "exec_ok ex" and "heap_ok (ack_heap ex)"
  shows "exec_ok (ack_merge ex)" "heap_ok (ack_heap (ack_merge ex))" "quiet (ack_heap ex) (ack_heap (ack_merge ex))"
proof -
  let ?ex = "upd_ackThread MergeInputToActive ex"
  have ex: "exec_ok ?ex" using assms(1) by simp
  then have "\<forall>(n, p)\<in>set (activeIterators (ackThread ?ex)). p < length (ack_heap ?ex)"
    by (auto simp: exec_ok_def all_entries_def ack_entry_ok_def)
  with ex assms(2) ack_merge_fold [of ?ex "activeIterators (ackThread ?ex)"]
  show "exec_ok (ack_merge ex)" "heap_ok (ack_heap (ack_merge ex))" "quiet (ack_heap ex) (ack_heap (ack_merge ex))"
    by (simp_all add: ack_merge_def Let_def)
qed

subsection \<open>Every step keeps the invariant\<close>

lemma conc_ok_parts:
  assumes "conc_ok c"
  shows "exec_ok (c_exec c)" "heap_ok (heap_of c)" "pull_pc_ok (heap_of c) (c_pull c)"
    "ack_pc_ok (heap_of c) (c_ack c)"
    "h \<in> set (c_halves c) \<Longrightarrow> half_ok (heap_of c) h" "m \<in> set (c_held c) \<Longrightarrow> msg_ok (heap_of c) m"
  using assms by (simp_all add: conc_ok_def)

lemma ack_heap_new [simp]: "ack_heap (new_Executor opts) = []"
  by (simp add: new_Executor_def Let_def)

lemma conc_ok_initial: "conc_ok (initial opts w)"
  by (simp add: conc_ok_def initial_def conc_simps exec_ok_new heap_ok_def)

lemma exec_ok_todo: "exec_ok ex \<Longrightarrow> todo_ok (ack_heap ex) (activeIterators (pullThread ex))"
    "exec_ok ex \<Longrightarrow> ack_todo_ok (ack_heap ex) (activeIterators (ackThread ex))"
  by (auto simp: exec_ok_def all_entries_def todo_ok_def ack_todo_ok_def)

text \<open>A step that leaves the heap, the messages and the pending halves alone.\<close>

lemma conc_ok_calm:
  assumes "conc_ok c" and "heap_of c' = heap_of c" and "exec_ok (c_exec c')"
    and "c_held c' = c_held c" and "c_halves c' = c_halves c"
    and "c_pull c' = c_pull c \<or> pull_pc_ok (heap_of c') (c_pull c')"
    and "c_ack c' = c_ack c \<or> ack_pc_ok (heap_of c') (c_ack c')"
  shows "conc_ok c'"
  using assms(1) by (rule conc_okI) (use assms conc_ok_parts(2) [OF assms(1)] in simp_all)

lemma AddDeadlineWatcher_simps [simp]:
  "subscriptionName (AddDeadlineWatcher k t it) = subscriptionName it"
  "answers (AddDeadlineWatcher k t it) = answers it"
  "executorAlive (AddDeadlineWatcher k t it) = executorAlive it"
  "executorAlive it \<Longrightarrow> watched_ids (AddDeadlineWatcher k t it) = insert k (watched_ids it)"
  by (auto simp: AddDeadlineWatcher_def answers_def watched_ids_def container_simps)

text \<open>What \<open>watch_message\<close> does to the process.\<close>

lemma watch_message_result:
  assumes "watch_message it now msg vec s = (Inr vec', s')"
  obtains m where "vec' = vec @ [m]" and "mi_iterator m = Some (pi_ackIterator it)" and "mi_ackID m = recv_ack_id msg"
    and "s' = upd_exec (upd_iterator (pi_ackIterator it)
      (AddDeadlineWatcher (recv_ack_id msg) (first_deadline now))) s"
  using assms by (auto simp: watch_message_def Let_def new_MessageImpl_def split: option.splits)

lemma pull_next_ok:
  assumes step: "pull_next E st (c_pull c) c = Some c'" and ok: "conc_ok c"
  shows "conc_ok c'"
proof -
  note ex = conc_ok_parts(1) [OF ok]
  note pc = conc_ok_parts(3) [OF ok]
  consider (watch) start it now msg msgs vec todo where "c_pull c = P_Watch start it now (msg # msgs) vec todo"
    | (give) start m rvec todo where "c_pull c = P_Deliver start (m # rvec) todo"
    | (calm) "heap_of c' = heap_of c" "exec_ok (c_exec c')" "c_held c' = c_held c" "c_halves c' = c_halves c"
        "pull_pc_ok (heap_of c') (c_pull c')" "c_ack c' = c_ack c"
    using step ex pc exec_ok_todo(1) [OF ex]
    by (cases "(E, st, c_pull c, c)" rule: pull_next.cases)
      (auto simp: Let_def conc_simps todo_ok_def pull_entry_ok_def ack_entry_ok_def split: if_splits sum.splits prod.splits)
  then show ?thesis
  proof cases
    case calm
    then show ?thesis using ok by (intro conc_ok_calm [OF ok]) simp_all
  next
    case give
    with step have c': "c' = c\<lparr>c_sys := (c_sys c)\<lparr>sy_user := c_held c @ [m]\<rparr>, c_pull := P_Deliver start rvec todo\<rparr>"
      by simp
    show ?thesis
      using ok
    proof (rule conc_okI)
      show "c_pull c' = c_pull c \<or> pull_pc_ok (heap_of c') (c_pull c')"
        using pc give by (simp add: c' conc_simps)
      show "m' \<in> set (c_held c') \<Longrightarrow> m' \<in> set (c_held c) \<or> msg_ok (heap_of c') m'" for m'
        using pc give by (auto simp: c' conc_simps)
    qed (use ex conc_ok_parts(2) [OF ok] in \<open>simp_all add: c' conc_simps\<close>)
  next
    case watch
    then obtain vec' s where w: "watch_message it now msg vec (c_sys c) = (Inr vec', s)"
      and c': "c' = c\<lparr>c_sys := s, c_pull := P_Watch start it now msgs vec' todo\<rparr>"
      using step by (auto split: prod.splits sum.splits)
    let ?p = "pi_ackIterator it" and ?f = "AddDeadlineWatcher (recv_ack_id msg) (first_deadline now)"
    obtain m where m: "vec' = vec @ [m]" "mi_iterator m = Some ?p" and s: "s = upd_exec (upd_iterator ?p ?f) (c_sys c)"
      using w by (rule watch_message_result) (rule that)
    have p: "?p < length (heap_of c)" and todo: "todo_ok (heap_of c) todo" and vec: "\<forall>m\<in>set vec. msg_ok (heap_of c) m"
      using pc watch by auto
    note it = heap_okD [OF conc_ok_parts(2) [OF ok] p]
    have hp: "heap_of c' = (heap_of c)[?p := ?f (heap_of c ! ?p)]" by (simp add: c' s conc_simps)
    then have le: "heap_le (heap_of c) (heap_of c')" by (simp add: heap_le_upd)
    show ?thesis
      using ok le
    proof (rule conc_okI)
      show "heap_ok (heap_of c')"
        unfolding hp using conc_ok_parts(2) [OF ok] p it by (intro heap_ok_upd iterator_ok_AddDeadlineWatcher) simp_all
      show "exec_ok (c_exec c')"
        using exec_ok_upd_iterator [of "c_exec c" ?f ?p] ex by (simp add: c' s conc_simps)
      have "\<forall>m\<in>set vec'. msg_ok (heap_of c') m"
        using vec heap_le_entries(3) [OF le] p m by (auto simp: msg_ok_def hp)
      then show "c_pull c' = c_pull c \<or> pull_pc_ok (heap_of c') (c_pull c')"
        using heap_le_todo(1) [OF le todo] p by (simp add: c' hp [unfolded c'])
    qed (simp_all add: c' s conc_simps)
  qed
qed

text \<open>A step of the ack thread that replaces one iterator.\<close>

lemma conc_ok_replace:
  assumes ok: "conc_ok c" and p: "p < length (heap_of c)"
    and ex: "c_exec c' = upd_iterator p (\<lambda>_. it) (c_exec c)"
    and it: "iterator_ok it" "executorAlive it" "subscriptionName it = subscriptionName (heap_of c ! p)"
    and rest: "c_pull c' = c_pull c" "c_halves c' = c_halves c"
      "ack_pc_ok (heap_of c') (c_ack c')"
      "\<And>m. m \<in> set (c_held c') \<Longrightarrow> m \<in> set (c_held c) \<or> msg_ok (heap_of c') m"
  shows "conc_ok c'"
proof -
  have hp: "heap_of c' = (heap_of c)[p := it]" by (simp add: heap_of_def ex)
  have "heap_le (heap_of c) (heap_of c')"
    unfolding hp using heap_le_upd [of "\<lambda>_. it" "heap_of c" p] it(3) by simp
  with ok show ?thesis
  proof (rule conc_okI)
    show "heap_ok (heap_of c')"
      unfolding hp using heap_ok_upd [of "heap_of c" p "\<lambda>_. it"] conc_ok_parts(2) [OF ok] p it by simp
    show "exec_ok (c_exec c')"
      unfolding ex using exec_ok_upd_iterator [of "c_exec c" "\<lambda>_. it" p] conc_ok_parts(1) [OF ok] it(3)
      by (simp add: iterator_at_def heap_of_def)
  qed (use rest in auto)
qed

lemma ack_next_ok:
  assumes step: "ack_next E st (c_ack c) c = Some c'" and ok: "conc_ok c"
  shows "conc_ok c'"
proof -
  note ex = conc_ok_parts(1) [OF ok]
  note hp = conc_ok_parts(2) [OF ok]
  note pc = conc_ok_parts(4) [OF ok]
  consider (merge) "c' = (with_exec ack_merge c)\<lparr>c_ack := A_Begin\<rparr>"
    | (swap) n p todo sleep where "c_ack c = A_Process ((n, p) # todo) sleep"
    | (send) p acks nacks todo sleep where "c_ack c = A_Send p acks nacks todo sleep"
    | (calm) "heap_of c' = heap_of c" "exec_ok (c_exec c')" "c_held c' = c_held c" "c_halves c' = c_halves c"
        "ack_pc_ok (heap_of c') (c_ack c')" "c_pull c' = c_pull c"
    using step ex exec_ok_todo(2) [OF ex]
    by (cases "(E, st, c_ack c, c)" rule: ack_next.cases)
      (auto simp: Let_def conc_simps split: if_splits)
  then show ?thesis
  proof cases
    case calm
    then show ?thesis by (intro conc_ok_calm [OF ok]) simp_all
  next
    case merge
    have m: "exec_ok (ack_merge (c_exec c))" "heap_ok (ack_heap (ack_merge (c_exec c)))"
      "quiet (heap_of c) (ack_heap (ack_merge (c_exec c)))"
      using ack_merge_ok [of "c_exec c"] ex hp by (simp_all add: heap_of_def)
    show ?thesis
      using ok quiet_le [of "heap_of c" "heap_of c'"] m
      by (intro conc_okI [OF ok]) (simp_all add: merge conc_simps)
  next
    case swap
    then have p: "p < length (heap_of c)" and todo: "ack_todo_ok (heap_of c) todo"
      using pc by (auto simp: ack_todo_ok_def ack_entry_ok_def)
    obtain acks nacks it where s: "swap_pending (heap_of c ! p) = (acks, nacks, it)"
      by (cases "swap_pending (heap_of c ! p)")
    have c': "c' = (with_exec (upd_iterator p (\<lambda>_. it)) c)\<lparr>c_ack := A_Send p acks nacks todo sleep\<rparr>"
      using step swap s by (simp add: iterator_at_def heap_of_def)
    note it = heap_okD [OF hp p]
    note swapped = swap_pending_simps [OF s] iterator_ok_swap_pending [OF s]
    have hp': "heap_of c' = (heap_of c)[p := it]" by (simp add: c' conc_simps)
    have "heap_le (heap_of c) (heap_of c')"
      using swapped(3) it heap_le_upd [of "\<lambda>_. it" "heap_of c" p] by (simp add: hp')
    from heap_le_todo(2) [OF this todo] show ?thesis
      using swapped it p hp'
      by (intro conc_ok_replace [OF ok p, where it = it]) (simp_all add: c' conc_simps)
  next
    case send
    then have p: "p < length (heap_of c)" and todo: "ack_todo_ok (heap_of c) todo"
      using pc by auto
    let ?it = "heap_of c ! p"
    obtain r it w where s: "process_swapped E (iterator_call E ?it) acks nacks ?it (c_world c) = Some (r, it, w)"
      using step send by (auto simp: iterator_at_def heap_of_def Let_def split: option.splits)
    let ?c = "with_world w (with_exec (upd_iterator p (\<lambda>_. it)) c)"
    have c': "c' = ?c\<lparr>c_ack := c_ack c', c_failed := c_failed c'\<rparr>"
      and a: "c_ack c' = A_Top kSoManyMilliseconds False \<or> (\<exists>ms. c_ack c' = A_Process todo ms)"
      using step send s by (auto simp: iterator_at_def heap_of_def Let_def split: sum.splits if_splits)
    note it = heap_okD [OF hp p]
    note call = s [unfolded iterator_call_def]
    have new: "it = ?it\<lparr>keepAliveAckIDs := keepAliveAckIDs it\<rparr>" "iterator_ok it"
      using stub.process_swapped_frame(1) [OF call] stub.iterator_ok_process_swapped [OF call] it by simp_all
    have names: "subscriptionName it = subscriptionName ?it" "executorAlive it"
      using arg_cong [OF new(1), of subscriptionName] arg_cong [OF new(1), of executorAlive] it by simp_all
    have ex': "c_exec c' = upd_iterator p (\<lambda>_. it) (c_exec c)" by (subst c') (simp add: conc_simps)
    then have hp': "heap_of c' = (heap_of c)[p := it]" by (simp add: heap_of_def)
    have "heap_le (heap_of c) (heap_of c')"
      using names heap_le_upd [of "\<lambda>_. it" "heap_of c" p] by (simp add: hp')
    from heap_le_todo(2) [OF this todo] a have "ack_pc_ok (heap_of c') (c_ack c')" by auto
    moreover have "c_pull c' = c_pull c" "c_halves c' = c_halves c" "c_held c' = c_held c"
      by (subst c', simp add: conc_simps)+
    ultimately show ?thesis
      using new names ex' by (intro conc_ok_replace [OF ok p, where it = it]) simp_all
  qed
qed

subsection \<open>The steps of the user\<close>

text \<open>What an answer does to the process.\<close>

lemma message_done_result:
  assumes "message_done E a m s = (Inr u, m', s')"
    and len: "\<forall>p. mi_iterator m = Some p \<longrightarrow> length (ackDist (iterator_at (sy_exec s) p)) = HighLimit \<and>
      executorAlive (iterator_at (sy_exec s) p)"
  obtains (ignored) "m' = m" and "s' = s"
    | (answered) p d w where "mi_iterator m = Some p" and "owned (sy_exec s) p" and "m' = m\<lparr>mi_iterator := None\<rparr>"
        and "length d = HighLimit" and "w_log w = w_log (sy_world s)" and "w_time (sy_world s) \<le> w_time w"
        and "s' = s\<lparr>sy_exec := upd_iterator p (\<lambda>it. mark_done (mi_ackID m) a (it\<lparr>ackDist := d\<rparr>)) (sy_exec s),
          sy_world := w\<rparr>"
proof (cases "\<exists>p. mi_iterator m = Some p \<and> owned (sy_exec s) p")
  case False
  with assms(1) have "m' = m" "s' = s" by (auto simp: message_done_def split: option.splits)
  then show thesis by (rule ignored)
next
  case True
  then obtain p where p: "mi_iterator m = Some p" "owned (sy_exec s) p" by blast
  let ?it = "iterator_at (sy_exec s) p"
  obtain r w where d: "Done E (mi_ackID m) (mi_receiveTime m) a ?it (sy_world s) = (r, w)"
    by (cases "Done E (mi_ackID m) (mi_receiveTime m) a ?it (sy_world s)")
  note it = len [rule_format, OF p(1)]
  obtain h where h: "length h = HighLimit" "w_log w = w_log (sy_world s)" "w_time (sy_world s) \<le> w_time w"
    and r: "r = Inr (if executorAlive ?it then mark_done (mi_ackID m) a (?it\<lparr>ackDist := h\<rparr>) else ?it\<lparr>ackDist := h\<rparr>)"
    using conjunct1 [OF it] d by (rule Done_result)
  have "m' = m\<lparr>mi_iterator := None\<rparr>"
    "s' = s\<lparr>sy_exec := upd_iterator p (\<lambda>it. mark_done (mi_ackID m) a (it\<lparr>ackDist := h\<rparr>)) (sy_exec s), sy_world := w\<rparr>"
    using assms(1) p d r it by (auto simp: message_done_def iterator_at_def upd_iterator_def)
  with p h show thesis by (intro answered) simp_all
qed

lemma mark_done_simps [simp]:
  "subscriptionName (mark_done k a it) = subscriptionName it" "executorAlive (mark_done k a it) = executorAlive it"
  "watched_ids (mark_done k a it) = watched_ids it"
  by (cases a; simp add: mark_done_def watched_ids_def)+

lemma iterator_ok_ackDist: "iterator_ok it \<Longrightarrow> length d = HighLimit \<Longrightarrow> iterator_ok (it\<lparr>ackDist := d\<rparr>)"
  by (simp add: iterator_ok_def)

text \<open>A step of the user that answers: the effect on the state, or nothing but a message less.\<close>

lemma user_done_result:
  assumes step: "user_done E a keep i c = Some c'" and ok: "conc_ok c"
  obtains (ignored) "heap_of c' = heap_of c" and "c_exec c' = c_exec c" and "w_log (c_world c') = w_log (c_world c)"
      and "c_answered c' = c_answered c" and "set (c_held c') \<subseteq> set (c_held c)"
      and "c_pull c' = c_pull c" and "c_ack c' = c_ack c" and "c_halves c' = c_halves c" and "c_failed c' = c_failed c"
    | (answered) m p it where "m \<in> set (c_held c)" and "mi_iterator m = Some p" and "p < length (heap_of c)"
      and "c_exec c' = upd_iterator p (\<lambda>_. it) (c_exec c)" and "iterator_ok it" and "executorAlive it"
      and "subscriptionName it = subscriptionName (heap_of c ! p)"
      and "answers it = (answers (heap_of c ! p))(mi_ackID m \<mapsto> a)"
      and "watched_ids it = watched_ids (heap_of c ! p)"
      and "w_log (c_world c') = w_log (c_world c)" and "c_answered c' = (p, mi_ackID m, a) # c_answered c"
      and "\<And>x q. x \<in> set (c_held c') \<Longrightarrow> mi_iterator x = Some q \<Longrightarrow> x \<in> set (c_held c)"
      and "c_pull c' = c_pull c" and "c_ack c' = c_ack c" and "c_halves c' = c_halves c" and "c_failed c' = c_failed c"
proof -
  let ?m = "c_held c ! i"
  have i: "i < length (c_held c)" and mem: "?m \<in> set (c_held c)"
    using step by (auto simp: user_done_def split: if_splits)
  have m: "p < length (heap_of c) \<and> iterator_ok (heap_of c ! p) \<and> executorAlive (heap_of c ! p)"
    if "mi_iterator ?m = Some p" for p
    using that conc_ok_parts(6) [OF ok mem] heap_okD [OF conc_ok_parts(2) [OF ok]] by (simp add: msg_ok_def)
  obtain u m' s where d: "message_done E a ?m (c_sys c) = (Inr u, m', s)"
    and c': "c' = c\<lparr>c_sys := s\<lparr>sy_user := (if keep then (c_held c)[i := m'] else take i (c_held c) @ drop (Suc i) (c_held c))\<rparr>,
      c_answered := record_answer ?m m' a (c_answered c)\<rparr>"
    using step i by (auto simp: user_done_def split: prod.splits sum.splits)
  have less: "set (take i (c_held c) @ drop (Suc i) (c_held c)) \<subseteq> set (c_held c)"
    by (auto dest: in_set_takeD in_set_dropD)
  have len: "\<forall>p. mi_iterator ?m = Some p \<longrightarrow>
      length (ackDist (iterator_at (sy_exec (c_sys c)) p)) = HighLimit \<and> executorAlive (iterator_at (sy_exec (c_sys c)) p)"
    using m by (simp add: iterator_ok_def iterator_at_def conc_simps)
  from d len show thesis
  proof (cases rule: message_done_result)
    case ignored
    have "record_answer ?m ?m a (c_answered c) = c_answered c"
      by (auto simp: record_answer_def split: option.splits)
    with ignored less show thesis
      by (intro that(1)) (auto simp: c' conc_simps)
  next
    case (answered p h w)
    let ?it = "mark_done (mi_ackID ?m) a ((heap_of c ! p)\<lparr>ackDist := h\<rparr>)"
    note it = m [OF answered(1)]
    have h: "iterator_ok ((heap_of c ! p)\<lparr>ackDist := h\<rparr>)" using it answered(4) by (simp add: iterator_ok_ackDist)
    have "watched_ids ((heap_of c ! p)\<lparr>ackDist := h\<rparr>) = watched_ids (heap_of c ! p)"
      "answers ((heap_of c ! p)\<lparr>ackDist := h\<rparr>) = answers (heap_of c ! p)"
      by (simp_all add: watched_ids_def answers_def)
    moreover have "c_exec c' = upd_iterator p (\<lambda>_. ?it) (c_exec c)"
      by (simp add: c' answered conc_simps upd_iterator_def)
    moreover have "c_answered c' = (p, mi_ackID ?m, a) # c_answered c"
      using answered(1) by (simp add: c' answered(3) record_answer_def)
    moreover have "x \<in> set (c_held c)" if "x \<in> set (c_held c')" "mi_iterator x = Some q" for x q
    proof -
      have "x \<in> set ((c_held c)[i := m']) \<or> x \<in> set (take i (c_held c) @ drop (Suc i) (c_held c))"
        using that(1) by (auto simp: c' conc_simps split: if_splits)
      then show ?thesis
        using that(2) less set_update_subset_insert [of "c_held c" i m'] by (auto simp: answered(3))
    qed
    ultimately show thesis
      using mem answered(1,5) it h pending.answer_of_answer [OF h, of "mi_ackID ?m" a]
      by (intro that(2) [of ?m p ?it]) (simp_all add: c' answered conc_simps iterator_ok_mark_done)
  qed
qed

lemma user_done_ok:
  assumes "user_done E a keep i c = Some c'" and ok: "conc_ok c"
  shows "conc_ok c'"
  using assms
proof (cases rule: user_done_result)
  case ignored
  then show ?thesis using conc_ok_parts [OF ok] by (intro conc_okI [OF ok]) auto
next
  case (answered m p it)
  have len: "length (heap_of c') = length (heap_of c)" by (simp add: heap_of_def answered(4))
  have "x \<in> set (c_held c) \<or> msg_ok (heap_of c') x" if "x \<in> set (c_held c')" for x
    using answered(12) [OF that] by (cases "mi_iterator x") (auto simp: msg_ok_def)
  moreover have "ack_pc_ok (heap_of c') (c_ack c')"
  proof -
    have "heap_le (heap_of c) (heap_of c')"
      using heap_le_upd [of "\<lambda>_. it" "heap_of c" p] answered(7) by (simp add: heap_of_def answered(4))
    then show ?thesis using conc_ok_parts(4) [OF ok] answered(14) by (simp add: heap_le_pcs)
  qed
  ultimately show ?thesis
    using answered by (intro conc_ok_replace [OF ok answered(3,4)]) auto
qed

lemma AddIterator_ack_heap: "ack_heap (AddIterator_ack name p ex) = ack_heap ex"
  by (simp add: AddIterator_ack_def)

lemma finish_half_heap: "ack_heap (finish_half h ex) = ack_heap ex"
  by (cases h) (simp_all add: finish_half_def AddIterator_ack_heap)

lemma new_ModAckIterator_alive: "executorAlive (new_ModAckIterator name memory cp tp bp)"
  by (simp add: new_ModAckIterator_def)

lemma EnsureConnected_log [simp]: "w_log (snd (EnsureConnected E w)) = w_log w"
  using EnsureConnected_frame(1) [of E w] by (cases "EnsureConnected E w") simp

text \<open>The calls of the user change the world only, and the log by requests of their own.\<close>

lemma user_world_step:
  assumes "user_next E op c = Some c'" and "case op of U_Call t req \<Rightarrow> True | U_Connect \<Rightarrow> True | U_Sleep d \<Rightarrow> True | _ \<Rightarrow> False"
  obtains w evs where "c' = with_world w c" and "w_log w = evs @ w_log (c_world c)"
    and "list_all (\<lambda>ev. user_request (ev_request ev)) evs"
proof (cases op)
  case (U_Call t req)
  then obtain r w where call: "entity_call E t req (c_world c) = Some (r, w)" and req: "user_request req"
    and c': "c' = with_world w c"
    using assms(1) by (auto split: if_splits option.splits)
  from entity_call_made [OF call] obtain evs where "call_done req kDefaultRPCTimeout (c_world c) evs r w" ..
  then have "w_log w = evs @ w_log (c_world c)" "\<forall>ev\<in>set evs. ev_request ev = req"
    by (cases r; auto simp: call_done_simps list_all_iff)+
  with c' req show thesis by (intro that) (auto simp: list_all_iff)
next
  case U_Connect
  with assms(1) show thesis
    by (intro that [of "snd (EnsureConnected E (c_world c))" "[]"]) (auto simp: connect_def conc_simps)
next
  case (U_Sleep d)
  with assms(1) show thesis
    by (intro that [of "sleep_for E d (c_world c)" "[]"]) (auto simp: sleep_for_def)
qed (use assms(2) in simp_all)

lemma user_next_ok:
  assumes step: "user_next E op c = Some c'" and ok: "conc_ok c"
  shows "conc_ok c'"
proof -
  note ex = conc_ok_parts(1) [OF ok]
  note hp = conc_ok_parts(2) [OF ok]
  note halves = conc_ok_parts(5) [OF ok]
  have finish: "exec_ok (finish_half h (c_exec c)) \<and> ack_heap (finish_half h (c_exec c)) = heap_of c"
    if "h \<in> set (c_halves c)" for h
    using halves [OF that] ex
    by (cases h) (auto simp: finish_half_def heap_of_def intro: exec_ok_AddIterator_ack
        simp: AddIterator_ack_heap)
  show ?thesis
  proof (cases op)
    case (U_Add memory name cb)
    show ?thesis
    proof (cases "\<exists>r. AddIterator_pull memory name (Some cb) (c_exec c) = Inr r")
      case False
      with step U_Add ok show ?thesis by (auto split: if_splits sum.splits)
    next
      case True
      then obtain p x where add: "AddIterator_pull memory name (Some cb) (c_exec c) = Inr (p, x)" by auto
      have c': "c' = (with_exec (\<lambda>_. x) c)\<lparr>c_halves := AddHalf name p # c_halves c\<rparr>" and len: "length memory = HighLimit"
        using step U_Add add by (auto split: if_splits)
      let ?it = "new_ModAckIterator name memory (exec_countPolicy (c_exec c)) (exec_timePolicy (c_exec c))
        (exec_backoffPolicy (c_exec c))"
      have x: "ack_heap x = heap_of c @ [?it]" using add by (auto simp: heap_of_def elim: AddIterator_pull_result)
      note new = exec_ok_AddIterator_pull [OF ex add]
      have "heap_ok (ack_heap x)"
        using hp iterator_ok_new [OF len] by (simp add: x heap_ok_def new_ModAckIterator_alive)
      with new x heap_le_new [of "heap_of c" ?it] show ?thesis
        by (intro conc_okI [OF ok]) (auto simp: c' conc_simps)
    qed
  next
    case (U_Finish i)
    then have i: "c_halves c ! i \<in> set (c_halves c)" and c': "c' = (with_exec (finish_half (c_halves c ! i)) c)
        \<lparr>c_halves := take i (c_halves c) @ drop (Suc i) (c_halves c)\<rparr>"
      using step by (auto split: if_splits)
    from finish [OF i] hp show ?thesis
      by (intro conc_okI [OF ok]) (auto simp: c' conc_simps dest: in_set_takeD in_set_dropD)
  next
    case (U_Remove name)
    with step have c': "c' = (with_exec (upd_pullThread (block_RemoveIterator name)) c)
        \<lparr>c_halves := RemoveHalf name # c_halves c\<rparr>" by simp
    with ex hp show ?thesis by (intro conc_okI [OF ok]) (auto simp: conc_simps)
  next
    case (U_Policies cp tp bp)
    with step ex show ?thesis by (intro conc_ok_calm [OF ok]) (auto simp: conc_simps, simp add: ApplyPolicies_def)
  next
    case (U_Call t req)
    show ?thesis by (rule user_world_step [OF step]) (use U_Call in \<open>auto intro!: conc_ok_calm [OF ok] simp: conc_simps ex [unfolded conc_simps]\<close>)
  next
    case U_Connect
    show ?thesis by (rule user_world_step [OF step]) (use U_Connect in \<open>auto intro!: conc_ok_calm [OF ok] simp: conc_simps ex [unfolded conc_simps]\<close>)
  next
    case (U_Sleep d)
    show ?thesis by (rule user_world_step [OF step]) (use U_Sleep in \<open>auto intro!: conc_ok_calm [OF ok] simp: conc_simps ex [unfolded conc_simps]\<close>)
  qed (use step ok user_done_ok ex in
      \<open>auto simp: conc_simps conc_ok_parts split: if_splits intro!: conc_ok_calm [OF ok]\<close>)
qed

lemma step_ok: "step E c c' \<Longrightarrow> conc_ok c \<Longrightarrow> conc_ok c'"
  by (erule step_cases) (auto intro: pull_next_ok ack_next_ok user_next_ok)

lemma reachable_ok: "reachable E opts w c \<Longrightarrow> conc_ok c"
  by (induction rule: reachable.induct) (auto intro: conc_ok_initial step_ok)

section \<open>The abstraction\<close>

text \<open>
  A message is out if the user holds it or the pull thread is about to deliver it, and if it can still
  be answered. An acknowledgement asks with \<open>Acknowledge\<close>, a refusal with a deadline of zero.
\<close>

fun pc_messages :: "pull_pc \<Rightarrow> MessageImpl list" where
  "pc_messages (P_Watch start it now msgs vec todo) = vec"
| "pc_messages (P_Deliver start rvec todo) = rvec"
| "pc_messages pc = []"

definition out_messages :: "conc \<Rightarrow> MessageImpl list" where
  "out_messages c = c_held c @ pc_messages (c_pull c)"

fun asked_ids :: "string \<Rightarrow> DoneAction \<Rightarrow> rpc_request \<Rightarrow> AckID list" where
  "asked_ids s Ack q = ack_ids_of s q"
| "asked_ids s Nack q = modack_ids_of s 0 q"

definition asked_in :: "rpc_event list \<Rightarrow> (string \<times> AckID \<times> DoneAction) set" where
  "asked_in evs = {(s, k, a). \<exists>ev\<in>set evs. k \<in> set (asked_ids s a (ev_request ev))}"

definition told_in :: "rpc_event list \<Rightarrow> (string \<times> AckID \<times> DoneAction) set" where
  "told_in evs = {(s, k, a). k \<in> set (ok_ids (asked_ids s a) evs)}"

fun flight_of :: "ack_pc \<Rightarrow> (iterator_ref \<times> (AckID \<Rightarrow> DoneAction option)) option" where
  "flight_of (A_Send p acks nacks todo sleep) = Some (p, verdict acks nacks)"
| "flight_of pc = None"

definition out_of :: "MessageImpl list \<Rightarrow> (nat \<times> AckID) set" where
  "out_of ms = {(p, mi_ackID m) | p m. m \<in> set ms \<and> mi_iterator m = Some p}"

definition watched_of :: "ModAckIterator list \<Rightarrow> nat \<Rightarrow> AckID set" where
  "watched_of hp p = (if p < length hp then watched_ids (hp ! p) else {})"

definition pending_of :: "ModAckIterator list \<Rightarrow> nat \<Rightarrow> AckID \<Rightarrow> DoneAction option" where
  "pending_of hp p = (if p < length hp then answers (hp ! p) else Map.empty)"

definition proto_of :: "conc \<Rightarrow> proto" where
  "proto_of c = \<lparr>pr_names = map subscriptionName (heap_of c), pr_out = out_of (out_messages c),
     pr_watched = watched_of (heap_of c), pr_pending = pending_of (heap_of c), pr_flight = flight_of (c_ack c),
     pr_asked = asked_in (w_log (c_world c)), pr_told = told_in (w_log (c_world c)),
     pr_answered = c_answered c, pr_failed = set (c_failed c)\<rparr>"

lemma asked_in_append [simp]: "asked_in (evs @ evs') = asked_in evs \<union> asked_in evs'"
  by (auto simp: asked_in_def)

lemma told_in_append [simp]: "told_in (evs @ evs') = told_in evs \<union> told_in evs'"
  by (auto simp: told_in_def)

lemma asked_ids_Pull [simp]: "asked_ids s a (PullRequest n k b) = []"
  by (cases a) simp_all

lemma asked_Pull: "asked_in ((PullRequest n k b, t, r) # evs) = asked_in evs"
    "told_in ((PullRequest n k b, t, r) # evs) = told_in evs"
  by (auto simp: asked_in_def told_in_def ok_ids_def)

lemma proto_eqI:
  assumes "pr_names s = pr_names s'" "pr_out s = pr_out s'" "pr_watched s = pr_watched s'"
    "pr_pending s = pr_pending s'" "pr_flight s = pr_flight s'" "pr_asked s = pr_asked s'" "pr_told s = pr_told s'"
    "pr_answered s = pr_answered s'" "pr_failed s = pr_failed s'"
  shows "s = (s' :: proto)"
  using assms by simp

text \<open>A step that the protocol does not see.\<close>

lemma quiet_step:
  assumes q: "quiet (heap_of c) (heap_of c')"
    and log: "asked_in (w_log (c_world c')) = asked_in (w_log (c_world c))"
      "told_in (w_log (c_world c')) = told_in (w_log (c_world c))"
    and "flight_of (c_ack c') = flight_of (c_ack c)" "c_answered c' = c_answered c" "c_failed c' = c_failed c"
    and out: "out_of (out_messages c') \<subseteq> out_of (out_messages c)"
  shows "proto_step (proto_of c) (proto_of c')"
proof -
  have "map subscriptionName (heap_of c') = map subscriptionName (heap_of c)"
    "watched_of (heap_of c') = watched_of (heap_of c)" "pending_of (heap_of c') = pending_of (heap_of c)"
    using q by (auto simp: quiet_def watched_of_def pending_of_def fun_eq_iff intro: nth_equalityI)
  then have "proto_of c' = (proto_of c)\<lparr>pr_out := out_of (out_messages c')\<rparr>"
    using assms by (simp add: proto_of_def)
  moreover have "proto_step (proto_of c) ((proto_of c)\<lparr>pr_out := out_of (out_messages c')\<rparr>)"
    using out by (intro forget) (simp add: proto_of_def)
  ultimately show ?thesis by simp
qed

lemma pull_call_log:
  assumes "pull_call E it w = (r, w')"
  shows "asked_in (w_log w') = asked_in (w_log w)" "told_in (w_log w') = told_in (w_log w)"
  using assms
  by (auto simp: pull_call_def rpc_call_def Let_def steady_now_def pull_request_def asked_Pull
      split: option.splits if_splits)

lemma watched_of_upd:
  "p < length hp \<Longrightarrow> watched_of (hp[p := it]) = (watched_of hp)(p := watched_ids it)"
  by (auto simp: watched_of_def fun_eq_iff nth_list_update)

lemma pending_of_upd:
  "p < length hp \<Longrightarrow> pending_of (hp[p := it]) = (pending_of hp)(p := answers it)"
  by (auto simp: pending_of_def fun_eq_iff nth_list_update)

lemma names_upd: "subscriptionName it = subscriptionName (hp ! p) \<Longrightarrow>
    map subscriptionName (hp[p := it]) = map subscriptionName hp"
  by (metis list_update_id map_update)

section \<open>The simulation\<close>

lemma pull_sim:
  assumes step: "pull_next E st (c_pull c) c = Some c'" and ok: "conc_ok c"
  shows "proto_step (proto_of c) (proto_of c')"
proof -
  note pc = conc_ok_parts(3) [OF ok]
  consider (watch) start it now msg msgs vec todo where "c_pull c = P_Watch start it now (msg # msgs) vec todo"
    | (quiet) "heap_of c' = heap_of c" "asked_in (w_log (c_world c')) = asked_in (w_log (c_world c))"
      "told_in (w_log (c_world c')) = told_in (w_log (c_world c))" "c_ack c' = c_ack c"
      "c_answered c' = c_answered c" "c_failed c' = c_failed c"
      "\<forall>m\<in>set (out_messages c'). m \<in> set (out_messages c)"
    using step
    by (cases "(E, st, c_pull c, c)" rule: pull_next.cases)
      (auto simp: Let_def conc_simps out_messages_def pull_call_log ball_Un split: if_splits sum.splits prod.splits dest!: hires_now_log)
  then show ?thesis
  proof cases
    case quiet
    then show ?thesis by (intro quiet_step) (simp_all, fastforce simp: out_of_def)
  next
    case watch
    then obtain vec' s where w: "watch_message it now msg vec (c_sys c) = (Inr vec', s)"
      and c': "c' = c\<lparr>c_sys := s, c_pull := P_Watch start it now msgs vec' todo\<rparr>"
      using step by (auto split: prod.splits sum.splits)
    let ?p = "pi_ackIterator it" and ?k = "recv_ack_id msg"
    let ?it = "AddDeadlineWatcher ?k (first_deadline now) (heap_of c ! ?p)"
    obtain m where m: "vec' = vec @ [m]" "mi_iterator m = Some ?p" "mi_ackID m = ?k"
      and s: "s = upd_exec (upd_iterator ?p (AddDeadlineWatcher ?k (first_deadline now))) (c_sys c)"
      using w by (rule watch_message_result) (rule that)
    have p: "?p < length (heap_of c)" using pc watch by simp
    note it = heap_okD [OF conc_ok_parts(2) [OF ok] p]
    have hp: "heap_of c' = (heap_of c)[?p := ?it]" by (simp add: c' s conc_simps)
    have out: "out_of (out_messages c') \<subseteq> insert (?p, ?k) (out_of (out_messages c))"
      using watch m by (auto simp: c' s out_messages_def out_of_def conc_simps)
    have "proto_of c' = (proto_of c)\<lparr>pr_watched := (pr_watched (proto_of c))(?p := insert ?k (pr_watched (proto_of c) ?p)),
        pr_out := out_of (out_messages c')\<rparr>"
    proof (rule proto_eqI)
      show "pr_watched (proto_of c') = pr_watched ((proto_of c)\<lparr>pr_watched :=
          (pr_watched (proto_of c))(?p := insert ?k (pr_watched (proto_of c) ?p)), pr_out := out_of (out_messages c')\<rparr>)"
        using p it by (simp add: proto_of_def hp watched_of_upd) (simp add: watched_of_def)
      show "pr_pending (proto_of c') = pr_pending ((proto_of c)\<lparr>pr_watched :=
          (pr_watched (proto_of c))(?p := insert ?k (pr_watched (proto_of c) ?p)), pr_out := out_of (out_messages c')\<rparr>)"
        using p by (simp add: proto_of_def hp pending_of_upd) (simp add: pending_of_def fun_eq_iff)
    qed (use names_upd [of ?it "heap_of c" ?p] in \<open>simp_all add: proto_of_def hp\<close>, simp_all add: c' s conc_simps)
    moreover have "proto_step (proto_of c) ((proto_of c)\<lparr>pr_watched :=
        (pr_watched (proto_of c))(?p := insert ?k (pr_watched (proto_of c) ?p)), pr_out := out_of (out_messages c')\<rparr>)"
      using p out by (intro proto_step.watch) (simp_all add: proto_of_def)
    ultimately show ?thesis by simp
  qed
qed

lemma user_done_sim:
  assumes "user_done E a keep i c = Some c'" and ok: "conc_ok c"
  shows "proto_step (proto_of c) (proto_of c')"
  using assms
proof (cases rule: user_done_result)
  case ignored
  then show ?thesis by (intro quiet_step) (auto simp: out_of_def out_messages_def)
next
  case (answered m p it)
  let ?k = "mi_ackID m" and ?P = "proto_of c"
  let ?Q = "?P\<lparr>pr_pending := (pr_pending ?P)(p := (pr_pending ?P p)(?k \<mapsto> a)),
      pr_answered := (p, ?k, a) # pr_answered ?P, pr_out := out_of (out_messages c')\<rparr>"
  have hp: "heap_of c' = (heap_of c)[p := it]" by (simp add: heap_of_def answered(4))
  have out: "out_of (out_messages c') \<subseteq> out_of (out_messages c)"
    using answered(12,13) by (fastforce simp: out_of_def out_messages_def)
  have mem: "(p, ?k) \<in> out_of (out_messages c)"
    using answered(1,2) by (auto simp: out_of_def out_messages_def)
  have "proto_of c' = ?Q"
  proof (rule proto_eqI)
    show "pr_pending (proto_of c') = pr_pending ?Q"
      using answered(3,8) by (simp add: proto_of_def hp pending_of_upd) (simp add: pending_of_def)
    show "pr_watched (proto_of c') = pr_watched ?Q"
      using answered(3,9) by (simp add: proto_of_def hp watched_of_upd) (simp add: watched_of_def fun_eq_iff)
  qed (use names_upd [OF answered(7)] answered in \<open>simp_all add: proto_of_def hp\<close>)
  moreover have "proto_step ?P ?Q"
    using answered(3) mem out by (intro proto_step.answer) (simp_all add: proto_of_def)
  ultimately show ?thesis by simp
qed

text \<open>What the user's own calls add to the log is none of the requests of the threads.\<close>

lemma asked_user: "list_all (\<lambda>ev. user_request (ev_request ev)) evs \<Longrightarrow> asked_in evs = {} \<and> told_in evs = {}"
proof -
  assume user: "list_all (\<lambda>ev. user_request (ev_request ev)) evs"
  have "asked_ids s a req = []" if "user_request req" for s a req
    using that by (cases a; cases req) simp_all
  with user show ?thesis by (auto simp: asked_in_def told_in_def ok_ids_def list_all_iff)
qed

lemma user_sim:
  assumes step: "user_next E op c = Some c'" and ok: "conc_ok c"
  shows "proto_step (proto_of c) (proto_of c')"
proof -
  consider (answer) a keep i where "user_done E a keep i c = Some c'"
    | (new) memory name cb p ex where "AddIterator_pull memory name (Some cb) (c_exec c) = Inr (p, ex)"
        "c' = (with_exec (\<lambda>_. ex) c)\<lparr>c_halves := AddHalf name p # c_halves c\<rparr>"
    | (quiet) "heap_of c' = heap_of c" "c_world c' = c_world c" "c_ack c' = c_ack c" "c_pull c' = c_pull c"
      "c_answered c' = c_answered c" "c_failed c' = c_failed c" "c_held c' = c_held c"
    | (world) w evs where "c' = with_world w c" "w_log w = evs @ w_log (c_world c)"
      "list_all (\<lambda>ev. user_request (ev_request ev)) evs"
  proof (cases op)
    case (U_Add memory name cb)
    show thesis
    proof (cases "AddIterator_pull memory name (Some cb) (c_exec c)")
      case (Inl e)
      with step U_Add have "c' = c" by (simp split: if_splits)
      then show thesis by (intro quiet) simp_all
    next
      case (Inr r)
      obtain p ex where r: "r = (p, ex)" by (cases r)
      with step U_Add Inr show thesis by (intro new [of memory name cb p ex]) (simp_all split: if_splits)
    qed
  next
    case (U_Finish i)
    then have c': "c' = (with_exec (finish_half (c_halves c ! i)) c)
        \<lparr>c_halves := take i (c_halves c) @ drop (Suc i) (c_halves c)\<rparr>"
      using step by (simp split: if_splits)
    show thesis by (rule quiet) (simp_all add: c' conc_simps finish_half_heap)
  next
    case U_StopAck
    then have c': "c' = with_exec (upd_ackThread set_needStop) c" using step by (simp split: if_splits)
    show thesis by (rule quiet) (simp_all add: c' conc_simps)
  next
    case U_Clear
    then have c': "c' = with_exec (\<lambda>ex. upd_ackThread clear_block (upd_pullThread clear_block ex)) c"
      using step by (simp split: if_splits)
    show thesis by (rule quiet) (simp_all add: c' conc_simps)
  next
    case U_StopPull
    then have c': "c' = with_exec (upd_pullThread set_needStop) c" using step by simp
    show thesis by (rule quiet) (simp_all add: c' conc_simps)
  next
    case (U_Remove name)
    then have c': "c' = (with_exec (upd_pullThread (block_RemoveIterator name)) c)
        \<lparr>c_halves := RemoveHalf name # c_halves c\<rparr>" using step by simp
    show thesis by (rule quiet) (simp_all add: c' conc_simps)
  next
    case (U_Policies cp tp bp)
    then have c': "c' = with_exec (ApplyPolicies cp tp bp) c" using step by simp
    show thesis by (rule quiet) (simp_all add: c' conc_simps ApplyPolicies_def)
  next
    case (U_Call t req)
    show thesis by (rule user_world_step [OF step]) (use U_Call in \<open>auto intro: world\<close>)
  next
    case U_Connect
    show thesis by (rule user_world_step [OF step]) (use U_Connect in \<open>auto intro: world\<close>)
  next
    case (U_Sleep d)
    show thesis by (rule user_world_step [OF step]) (use U_Sleep in \<open>auto intro: world\<close>)
  qed (use step in \<open>simp_all add: answer\<close>)
  then show ?thesis
  proof cases
    case answer
    then show ?thesis using ok by (rule user_done_sim)
  next
    case quiet
    then show ?thesis by (intro quiet_step) (simp_all add: out_messages_def)
  next
    case world
    with asked_user [OF world(3)] show ?thesis
      by (intro quiet_step) (auto simp: out_messages_def conc_simps out_of_def)
  next
    case new
    let ?it = "new_ModAckIterator name memory (exec_countPolicy (c_exec c)) (exec_timePolicy (c_exec c))
      (exec_backoffPolicy (c_exec c))"
    let ?P = "proto_of c"
    have hp: "heap_of c' = heap_of c @ [?it]"
      using new by (auto simp: conc_simps elim: AddIterator_pull_result)
    have it: "watched_ids ?it = {}" "answers ?it = Map.empty" "subscriptionName ?it = name"
      by (simp_all add: new_ModAckIterator_def watched_ids_def answers_def um_keys_def)
    have "proto_of c' = ?P\<lparr>pr_names := pr_names ?P @ [name]\<rparr>"
    proof (rule proto_eqI)
      show "pr_watched (proto_of c') = pr_watched (?P\<lparr>pr_names := pr_names ?P @ [name]\<rparr>)"
        by (simp add: proto_of_def hp watched_of_def fun_eq_iff nth_append less_Suc_eq it)
      show "pr_pending (proto_of c') = pr_pending (?P\<lparr>pr_names := pr_names ?P @ [name]\<rparr>)"
        by (simp add: proto_of_def hp pending_of_def fun_eq_iff nth_append less_Suc_eq it)
    qed (simp_all add: proto_of_def hp it, simp_all add: new(2) out_messages_def conc_simps)
    moreover have "proto_step ?P (?P\<lparr>pr_names := pr_names ?P @ [name]\<rparr>)"
      by (intro proto_step.receiver) (simp_all add: proto_of_def watched_of_def pending_of_def)
    ultimately show ?thesis by simp
  qed
qed

text \<open>What a round tells the service, in the terms of the protocol.\<close>

lemma asked_in_round:
  assumes "asks_only sub acks nacks evs" and "set acks \<inter> set nacks = {}"
  shows "asked_in evs \<subseteq> batch_of sub (verdict acks nacks)"
proof
  fix x
  assume "x \<in> asked_in evs"
  then obtain s k a ev where x: "x = (s, k, a)" "ev \<in> set evs" "k \<in> set (asked_ids s a (ev_request ev))"
    by (auto simp: asked_in_def)
  with assms show "x \<in> batch_of sub (verdict acks nacks)"
    by (cases a) (auto simp: asks_only_def batch_of_def verdict_simps)
qed

lemma asked_ids_eq: "asked_ids s Ack = ack_ids_of s" "asked_ids s Nack = modack_ids_of s 0"
  by (simp_all add: fun_eq_iff)

lemma told_in_round:
  assumes "set acks \<subseteq> set (ok_ids (ack_ids_of sub) evs)" and "set nacks \<subseteq> set (ok_ids (modack_ids_of sub 0) evs)"
    and "set acks \<inter> set nacks = {}"
  shows "batch_of sub (verdict acks nacks) \<subseteq> told_in evs"
proof
  fix x
  assume "x \<in> batch_of sub (verdict acks nacks)"
  then obtain k a where x: "x = (sub, k, a)" "verdict acks nacks k = Some a" by (auto simp: batch_of_def)
  with assms have "k \<in> set (ok_ids (asked_ids sub a) evs)"
    by (cases a) (auto simp: verdict_simps asked_ids_eq)
  with x show "x \<in> told_in evs" by (simp add: told_in_def)
qed

lemma swap_sim:
  assumes ok: "conc_ok c" and p: "p < length (heap_of c)" and none: "flight_of (c_ack c) = None"
    and s: "swap_pending (heap_of c ! p) = (acks, nacks, it)"
    and c': "c' = (with_exec (upd_iterator p (\<lambda>_. it)) c)\<lparr>c_ack := A_Send p acks nacks todo sleep\<rparr>"
  shows "proto_step (proto_of c) (proto_of c')"
proof -
  let ?P = "proto_of c"
  let ?Q = "?P\<lparr>pr_flight := Some (p, pr_pending ?P p), pr_pending := (pr_pending ?P)(p := Map.empty)\<rparr>"
  note alive = heap_okD [OF conc_ok_parts(2) [OF ok] p]
  have it: "acks = pendingAckIDs (heap_of c ! p)" "nacks = pendingNackIDs (heap_of c ! p)"
    "it = (heap_of c ! p)\<lparr>pendingAckIDs := [], pendingNackIDs := []\<rparr>"
    using swap_pending_simps [OF s] alive by simp_all
  have v: "answers it = Map.empty" "watched_ids it = watched_ids (heap_of c ! p)"
    "verdict acks nacks = answers (heap_of c ! p)" "subscriptionName it = subscriptionName (heap_of c ! p)"
    by (simp_all add: it answers_def watched_ids_def)
  have hp: "heap_of c' = (heap_of c)[p := it]" by (simp add: c' conc_simps)
  have "proto_of c' = ?Q"
  proof (rule proto_eqI)
    show "pr_watched (proto_of c') = pr_watched ?Q"
      using p v by (simp add: proto_of_def hp watched_of_upd) (simp add: watched_of_def fun_eq_iff)
    show "pr_pending (proto_of c') = pr_pending ?Q"
      using p v by (simp add: proto_of_def hp pending_of_upd)
    show "pr_flight (proto_of c') = pr_flight ?Q"
      using p v by (simp add: proto_of_def c' pending_of_def)
    show "pr_out (proto_of c') = pr_out ?Q" by (simp add: proto_of_def c' out_messages_def conc_simps)
  qed (use names_upd [OF v(4)] in \<open>simp_all add: proto_of_def hp\<close>, simp_all add: c' conc_simps)
  moreover have "proto_step ?P ?Q"
    using p none by (intro proto_step.collect) (simp_all add: proto_of_def)
  ultimately show ?thesis by simp
qed

lemma send_sim:
  assumes step: "ack_next E st (c_ack c) c = Some c'" and ok: "conc_ok c"
    and pc: "c_ack c = A_Send p acks nacks todo sleep"
  shows "proto_step (proto_of c) (proto_of c')"
proof -
  let ?P = "proto_of c" and ?it = "heap_of c ! p" and ?b = "verdict acks nacks"
  let ?sub = "subscriptionName ?it"
  have p: "p < length (heap_of c)" and sets: "us_ok id acks" "us_ok id nacks" "set acks \<inter> set nacks = {}"
    using conc_ok_parts(4) [OF ok] pc by auto
  obtain r it w where s: "process_swapped E (iterator_call E ?it) acks nacks ?it (c_world c) = Some (r, it, w)"
    using step pc by (auto simp: iterator_at_def heap_of_def Let_def split: option.splits)
  let ?c = "with_world w (with_exec (upd_iterator p (\<lambda>_. it)) c)"
  have c': "c' = ?c\<lparr>c_ack := c_ack c', c_failed := c_failed c'\<rparr>" and a: "flight_of (c_ack c') = None"
    and f: "c_failed c' = (case r of Inl e \<Rightarrow> p # c_failed c | Inr ms \<Rightarrow> c_failed c)"
    using step pc s
    by (auto simp: iterator_at_def heap_of_def Let_def with_world_def with_exec_def split: sum.splits if_splits)
  note it = heap_okD [OF conc_ok_parts(2) [OF ok] p]
  note call = s [unfolded iterator_call_def]
  have frame: "it = ?it\<lparr>keepAliveAckIDs := keepAliveAckIDs it\<rparr>"
    "set (um_keys (keepAliveAckIDs it)) \<subseteq> set (um_keys (keepAliveAckIDs ?it)) - set acks"
    "set (um_keys (keepAliveAckIDs ?it)) - set acks - set nacks \<subseteq> set (um_keys (keepAliveAckIDs it))"
    using stub.process_swapped_frame [OF call] stub.process_swapped_keeps [OF call] by simp_all
  have same: "subscriptionName it = ?sub" "answers it = answers ?it" "inputAckIDs it = inputAckIDs ?it"
    using arg_cong [OF frame(1), of subscriptionName] arg_cong [OF frame(1), of answers]
      arg_cong [OF frame(1), of inputAckIDs] by (simp_all add: answers_def)
  have watched: "watched_ids ?it - dom ?b \<subseteq> watched_ids it" "watched_ids it \<subseteq> watched_ids ?it"
    using frame(2,3) same(3) by (auto simp: watched_ids_def dom_verdict)
  have hist: "ackDist ?it \<noteq> []" using it by (auto simp: iterator_ok_def HighLimit_def)
  obtain evs where log: "w_log w = evs @ w_log (c_world c)" and asks: "asks_only ?sub acks nacks evs"
    using stub.process_swapped_asks [OF call sets(1,2) hist] by auto
  have asked: "asked_in (w_log w) \<subseteq> pr_asked ?P \<union> batch_of ?sub ?b"
    using asked_in_round [OF asks sets(3)] by (auto simp: log proto_of_def)
  have told: "pr_told ?P \<subseteq> told_in (w_log w)" by (simp add: log proto_of_def)
  have hp: "heap_of c' = (heap_of c)[p := it]" by (subst c') (simp add: conc_simps)
  have keep: "c_world c' = w" "c_held c' = c_held c" "c_pull c' = c_pull c" "c_answered c' = c_answered c"
    by (subst c', simp add: conc_simps)+
  let ?Q = "?P\<lparr>pr_flight := None, pr_watched := (pr_watched ?P)(p := watched_ids it),
    pr_asked := asked_in (w_log w), pr_told := told_in (w_log w), pr_failed := set (c_failed c')\<rparr>"
  have Q: "proto_of c' = ?Q"
  proof (rule proto_eqI)
    show "pr_watched (proto_of c') = pr_watched ?Q"
      using p by (simp add: proto_of_def hp watched_of_upd)
    show "pr_pending (proto_of c') = pr_pending ?Q"
      using p same(2) by (simp add: proto_of_def hp pending_of_upd) (simp add: pending_of_def fun_eq_iff)
  qed (use names_upd [OF same(1)] keep a in \<open>simp_all add: proto_of_def hp out_messages_def\<close>)
  have P: "pr_flight ?P = Some (p, ?b)" "p < length (pr_names ?P)" "pr_names ?P ! p = ?sub"
    "pr_watched ?P p = watched_ids ?it" "pr_failed ?P = set (c_failed c)"
    using p pc by (simp_all add: proto_of_def watched_of_def)
  have "proto_step ?P ?Q"
  proof (cases r)
    case (Inl e)
    then have "?Q = ?P\<lparr>pr_flight := None, pr_watched := (pr_watched ?P)(p := watched_ids it),
      pr_asked := asked_in (w_log w), pr_told := told_in (w_log w), pr_failed := insert p (pr_failed ?P)\<rparr>"
      using f P by simp
    moreover have "proto_step ?P (?P\<lparr>pr_flight := None, pr_watched := (pr_watched ?P)(p := watched_ids it),
      pr_asked := asked_in (w_log w), pr_told := told_in (w_log w), pr_failed := insert p (pr_failed ?P)\<rparr>)"
      using asked told watched by (intro proto_step.fail [OF P(1,2)]) (simp_all add: P(3,4))
    ultimately show ?thesis by simp
  next
    case (Inr ms)
    obtain evsA evsN evsE where parts: "w_log w = evsE @ evsN @ evsA @ w_log (c_world c)"
      and m: "mset (ok_ids (ack_ids_of ?sub) evsA) = mset acks" "mset (ok_ids (modack_ids_of ?sub 0) evsN) = mset nacks"
      using call unfolding Inr by (rule stub.process_swapped_complete [OF _ sets(1,2)]) (rule that)
    have "evs = evsE @ evsN @ evsA" using log parts by simp
    moreover have "set acks = set (ok_ids (ack_ids_of ?sub) evsA)" "set nacks = set (ok_ids (modack_ids_of ?sub 0) evsN)"
      using m by (metis set_mset_mset)+
    ultimately have "batch_of ?sub ?b \<subseteq> told_in evs"
      using sets(3) by (intro told_in_round) auto
    then have told': "pr_told ?P \<union> batch_of (pr_names ?P ! p) ?b \<subseteq> told_in (w_log w)"
      using P by (auto simp: log proto_of_def)
    have "?Q = ?P\<lparr>pr_flight := None, pr_watched := (pr_watched ?P)(p := watched_ids it),
      pr_asked := asked_in (w_log w), pr_told := told_in (w_log w)\<rparr>"
      using f P Inr by simp
    moreover have "proto_step ?P (?P\<lparr>pr_flight := None, pr_watched := (pr_watched ?P)(p := watched_ids it),
      pr_asked := asked_in (w_log w), pr_told := told_in (w_log w)\<rparr>)"
      using asked told' watched by (intro proto_step.deliver [OF P(1,2)]) (simp_all add: P(3,4))
    ultimately show ?thesis by simp
  qed
  with Q show ?thesis by simp
qed

lemma ack_sim:
  assumes step: "ack_next E st (c_ack c) c = Some c'" and ok: "conc_ok c"
  shows "proto_step (proto_of c) (proto_of c')"
proof -
  note ex = conc_ok_parts(1) [OF ok]
  note hp = conc_ok_parts(2) [OF ok]
  consider (swap) n p todo sleep where "c_ack c = A_Process ((n, p) # todo) sleep"
    | (send) p acks nacks todo sleep where "c_ack c = A_Send p acks nacks todo sleep"
    | (merge) "c' = (with_exec ack_merge c)\<lparr>c_ack := A_Begin\<rparr>" "flight_of (c_ack c) = None"
    | (quiet) "heap_of c' = heap_of c" "w_log (c_world c') = w_log (c_world c)" "out_messages c' = out_messages c"
        "flight_of (c_ack c') = flight_of (c_ack c)" "c_answered c' = c_answered c" "c_failed c' = c_failed c"
    using step
    by (cases "(E, st, c_ack c, c)" rule: ack_next.cases)
      (auto simp: Let_def conc_simps out_messages_def split: if_splits)
  then show ?thesis
  proof cases
    case send
    then show ?thesis by (rule send_sim [OF step ok])
  next
    case swap
    then have p: "p < length (heap_of c)"
      using conc_ok_parts(4) [OF ok] by (auto simp: ack_todo_ok_def ack_entry_ok_def)
    obtain acks nacks it where s: "swap_pending (heap_of c ! p) = (acks, nacks, it)"
      by (cases "swap_pending (heap_of c ! p)")
    have "c' = (with_exec (upd_iterator p (\<lambda>_. it)) c)\<lparr>c_ack := A_Send p acks nacks todo sleep\<rparr>"
      using step swap s by (simp add: iterator_at_def heap_of_def)
    with s swap show ?thesis by (intro swap_sim [OF ok p]) simp_all
  next
    case merge
    have "quiet (heap_of c) (heap_of c')"
      using ack_merge_ok(3) [of "c_exec c"] ex hp by (simp add: merge conc_simps)
    then show ?thesis
      by (rule quiet_step) (use merge(2) in \<open>simp_all add: merge(1) conc_simps out_messages_def\<close>)
  next
    case quiet
    then show ?thesis by (intro quiet_step) (simp_all add: out_of_def)
  qed
qed

lemma step_sim: "step E c c' \<Longrightarrow> conc_ok c \<Longrightarrow> proto_step (proto_of c) (proto_of c')"
  by (erule step_cases) (auto intro: pull_sim ack_sim user_sim)

lemma told_in_iff: "(s, k, a) \<in> told_in evs \<longleftrightarrow>
    (\<exists>ev\<in>set evs. status_ok (ev_reply ev) \<and> k \<in> set (asked_ids s a (ev_request ev)))"
  by (simp add: told_in_def ok_ids_def status_ok_def) blast

lemma in_flight_proto: "in_flight (proto_of c) p k = Some a \<longleftrightarrow>
    (\<exists>acks nacks todo sleep. c_ack c = A_Send p acks nacks todo sleep \<and> verdict acks nacks k = Some a)"
  by (cases "c_ack c") (auto simp: in_flight_def proto_of_def)

interpretation threads: protocol_implementation "step E" conc_ok proto_of for E
  by unfold_locales (auto intro: step_ok step_sim)

lemma reachable_steps: "reachable E opts w c \<Longrightarrow> (step E)\<^sup>*\<^sup>* (initial opts w) c"
  by (induction rule: reachable.induct) (auto intro: rtranclp.rtrancl_into_rtrancl)

lemma proto_ok_initial: "w_log w = [] \<Longrightarrow> proto_ok (proto_of (initial opts w))"
  by (intro proto_ok_reachable proto_start)
    (simp_all add: proto_of_def initial_def conc_simps out_messages_def out_of_def watched_of_def pending_of_def
      asked_in_def fun_eq_iff)

lemma reachable_promises: "reachable E opts w c \<Longrightarrow> w_log w = [] \<Longrightarrow> proto_ok (proto_of c)"
  by (rule threads.keeps_promises [OF reachable_steps conc_ok_initial proto_ok_initial])

text \<open>The last answer to a message, and where it is.\<close>

lemma last_answer_kept:
  assumes "reachable E opts w c" and "w_log w = []"
    and "c_answered c = later @ (p, k, a) # before" and "\<forall>a'. (p, k, a') \<notin> set later" and "p \<notin> set (c_failed c)"
  shows "answers (heap_of c ! p) k = Some a \<or>
    (\<exists>acks nacks todo sleep. c_ack c = A_Send p acks nacks todo sleep \<and> verdict acks nacks k = Some a) \<or>
    (\<exists>ev\<in>set (w_log (c_world c)). status_ok (ev_reply ev) \<and>
       k \<in> set (asked_ids (subscriptionName (heap_of c ! p)) a (ev_request ev)))"
proof -
  note ok = reachable_promises [OF assms(1,2)]
  have "map_of (map (\<lambda>(p, k, a). ((p, k), a)) later) (p, k) = None"
    using assms(4) by (force simp: map_of_eq_None_iff)
  then have last: "last_answer (proto_of c) p k = Some a"
    using assms(3) by (simp add: last_answer_def proto_of_def map_add_def)
  then have "(p, k, a) \<in> set (c_answered c)" using last_answer_answered [OF last] by (simp add: proto_of_def)
  then have p: "p < length (heap_of c)"
    using ok by (auto simp: proto_ok_def answers_genuine_def proto_of_def)
  have "kept (proto_of c) p k a" using ok last by (simp add: proto_ok_def answers_kept_def)
  with p assms(5) show ?thesis
    unfolding kept_def in_flight_proto by (auto simp: proto_of_def pending_of_def told_in_iff)
qed

end
