(* ===== verification/Race.thy ===== *)
theory Race
  imports Refinement
begin

text \<open>
  A run of the interleaved threads, step by step, in which a message is acknowledged between two
  critical sections of an ack round: the deadline watcher that the pull thread added is merged only
  after the ack was sent, and from then on nobody takes it out of the deadlines to extend.

  \<open>race_setup\<close> starts a receiver, brings the pull thread to a received message and the ack thread past
  its merge; in \<open>race_delivery\<close> the message is watched and delivered, \<open>race_answer\<close> acknowledges it, and
  \<open>race_round\<close> is the rest of the ack round and the merge of the next one. The states in between are
  the concrete instances of the properties of the threads.
\<close>

section \<open>The environment and the start\<close>

definition race_message :: received_message where
  "race_message =
     \<lparr>recv_ack_id = ''k'', recv_message = Some \<lparr>msg_data = ''x'', msg_attributes = []\<rparr>\<rparr>"

text \<open>The service hands the message out once and accepts every request.\<close>

definition race_server :: "rpc_event list \<Rightarrow> rpc_request \<Rightarrow> secs \<Rightarrow> rpc_reply" where
  "race_server evs req t =
     (case req of
        PullRequest n k b \<Rightarrow> demo_reply OK [] (if evs = [] then [race_message] else [])
      | _ \<Rightarrow> demo_reply OK [''id''] [])"

definition race_setup :: "action list" where
  "race_setup =
     [UserStep (U_Add (replicate HighLimit 0) ''s'' 0), UserStep (U_Finish 0),
      PullStep no_timeout, PullStep no_timeout, PullStep no_timeout, PullStep no_timeout,
      AckStep no_timeout, AckStep no_timeout, AckStep no_timeout, AckStep no_timeout, AckStep no_timeout]"

definition race_pull :: SubscriptionPullIterator where
  "race_pull = new_SubscriptionPullIterator ''s'' 4 0 0"

definition race_iterator :: ModAckIterator where
  "race_iterator = new_ModAckIterator ''s'' (replicate HighLimit 0) default_RetryCountPolicy
     default_MaxRetryTimePolicy default_ExponentialBackoffPolicy"

definition race_state ::
  "ModAckIterator \<Rightarrow> world \<Rightarrow> pull_pc \<Rightarrow> ack_pc \<Rightarrow> MessageImpl list \<Rightarrow> (iterator_ref \<times> AckID \<times> DoneAction) list \<Rightarrow> conc" where
  "race_state it w pc apc held ans =
     (let ex = (new_Executor (CreateDefault ''p''))
            \<lparr>ack_heap := [it], ackThread := new_ThreadDataBlock\<lparr>activeIterators := [(''s'', 0)]\<rparr>,
             pullThread := new_ThreadDataBlock\<lparr>activeIterators := [(''s'', race_pull)]\<rparr>\<rparr>
      in \<lparr>c_sys = \<lparr>sy_exec = ex, sy_world = w, sy_user = held\<rparr>, c_pull = pc, c_ack = apc, c_halves = [],
          c_answered = ans, c_failed = []\<rparr>)"

definition race_world :: world where
  "race_world = \<lparr>w_time = 5000, w_reads = 4, w_seeds = 0,
     w_log = [(PullRequest ''s'' 4 True, 20, demo_reply OK [] [race_message])]\<rparr>"

definition race_begin :: conc where
  "race_begin = race_state race_iterator race_world (P_Watch 2000 race_pull 4000 [race_message] [] [])
     (A_Process [(''s'', 0)] kSoManyMilliseconds) [] []"

lemmas race_eval = Let_def c_exec_def c_world_def c_held_def with_exec_def with_world_def upd_exec_def
  upd_ackThread_def upd_pullThread_def AddIterator_pull_def AddIterator_ack_def finish_half_def
  block_AddIterator_def um_insert_or_assign_def us_member_def new_ThreadDataBlock_def RemoveFromActive_def
  ExecuteUnderMutex_def MergeInputToActive_def um_merge_target_def pull_waits_def ack_waits_def
  connect_def EnsureConnected_def pull_call_def set_deadline_def kDefaultRPCTimeout_def ns_of_s_def rpc_call_def
  status_ok_def steady_now_def keep_alive_count_def input_count_def ReportKeepAliveMetric_def ack_merge_def
  ack_wait_again_def next_sleep_def kSoManyMilliseconds_def default_sleep_def hires_now_def

lemma race_merge: "MergeInput race_iterator = race_iterator"
  by (simp add: race_iterator_def new_ModAckIterator_def MergeInput_def um_merge_target_def)

lemma race_setup_run:
  "run (demo_env race_server) race_setup (initial (CreateDefault ''p'') demo_world) = Some race_begin"
  by (simp add: race_setup_def initial_def new_Executor_def race_eval demo_world_def race_server_def race_state_def
      race_pull_def race_world_def race_begin_def pull_request_def upd_iterator_def race_merge
      race_iterator_def [symmetric] new_SubscriptionPullIterator_def CreateDefault_def new_ClientOptions_def
      iterator_at_def)

section \<open>The message is watched and delivered\<close>

definition race_delivery :: "action list" where
  "race_delivery = [PullStep no_timeout, PullStep no_timeout, PullStep no_timeout]"

definition race_watched :: ModAckIterator where
  "race_watched = race_iterator\<lparr>inputAckIDs := [(''k'', \<lparr>nextAck = 9000004000\<rparr>)]\<rparr>"

definition race_mail :: MessageImpl where
  "race_mail = new_MessageImpl 0 ''s'' ''k'' \<lparr>msg_data = ''x'', msg_attributes = []\<rparr> 4000"

definition race_delivered :: conc where
  "race_delivered = race_state race_watched race_world (P_Deliver 2000 [] [])
     (A_Process [(''s'', 0)] kSoManyMilliseconds) [race_mail] []"

lemma race_delivery_run: "run (demo_env race_server) race_delivery race_begin = Some race_delivered"
  by (simp add: race_delivery_def race_begin_def race_delivered_def race_state_def race_eval race_message_def
      race_iterator_def new_ModAckIterator_def race_pull_def new_SubscriptionPullIterator_def watch_message_def
      first_deadline_def kMinAckDeadline_def upd_iterator_def iterator_at_def AddDeadlineWatcher_def race_watched_def
      race_mail_def)

section \<open>It is acknowledged\<close>

definition race_hist :: hist where
  "race_hist = (replicate HighLimit 0)[0 := 1]"

lemma race_Record: "Record 0 (replicate HighLimit 0) = Inr race_hist"
  using Record_bucket [of "replicate HighLimit 0" 0] by (simp add: race_hist_def HighLimit_def bucket_def)

definition race_after :: world where
  "race_after = race_world\<lparr>w_time := 6000, w_reads := 5\<rparr>"

definition race_answered :: conc where
  "race_answered = race_state (race_watched\<lparr>pendingAckIDs := [''k''], ackDist := race_hist\<rparr>) race_after
     (P_Deliver 2000 [] []) (A_Process [(''s'', 0)] kSoManyMilliseconds) [race_mail\<lparr>mi_iterator := None\<rparr>] [(0, ''k'', Ack)]"

definition race_answer :: "action list" where
  "race_answer = [UserStep (U_Ack 0)]"

lemma race_answer_run: "run (demo_env race_server) race_answer race_delivered = Some race_answered"
  by (simp add: race_answer_def race_delivered_def race_answered_def race_after_def race_state_def race_eval race_iterator_def
      new_ModAckIterator_def upd_iterator_def iterator_at_def race_watched_def race_mail_def user_done_def
      message_done_def Done_def new_MessageImpl_def mark_done_def race_Record us_erase_def us_emplace_def owned_def
      ack_refs_def pull_refs_def race_world_def s_of_ns_def record_answer_def)

section \<open>The ack round\<close>

definition race_round :: "action list" where
  "race_round = [AckStep no_timeout, AckStep no_timeout, AckStep no_timeout, AckStep no_timeout, AckStep no_timeout,
     AckStep no_timeout]"

definition race_leaked :: ModAckIterator where
  "race_leaked = race_iterator\<lparr>keepAliveAckIDs := [(''k'', \<lparr>nextAck = 9000004000\<rparr>)], ackDist := race_hist\<rparr>"

definition race_end :: world where
  "race_end = answered_world (AcknowledgeRequest ''s'' [''k'']) 20 (demo_reply OK [''id''] []) race_after"

definition race_final :: conc where
  "race_final = race_state race_leaked race_end (P_Deliver 2000 [] []) A_Begin [race_mail\<lparr>mi_iterator := None\<rparr>]
     [(0, ''k'', Ack)]"

lemma race_deadline: "ackDist it = race_hist \<Longrightarrow> AckDeadline it = Inr 10"
proof -
  assume "ackDist it = race_hist"
  then have "record_all [0] (replicate HighLimit 0) = Inr (ackDist it)" by (simp add: race_Record)
  from AckDeadline_covers [OF _ this] obtain dl where dl: "AckDeadline it = Inr dl" "10 \<le> dl"
      "dl = 10 \<or> (\<forall>j<nat dl. 100 * length (filter (\<lambda>v. min (unat v) 600 \<le> j) [0 :: u64]) < 99 * length [0 :: u64])"
    by auto
  have "dl = 10" using dl(2) dl(3) by (elim disjE) (simp, drule spec [of _ 0], simp)
  with dl(1) show ?thesis by simp
qed

lemma race_call:
  "ackBackoffPolicy it = bp \<Longrightarrow> countPolicy it = default_RetryCountPolicy \<Longrightarrow>
    timePolicy it = default_MaxRetryTimePolicy \<Longrightarrow>
    iterator_call (demo_env race_server) it (AcknowledgeRequest ''s'' ids) race_after =
      Some (Inr (demo_reply OK [''id''] [], 9000),
        answered_world (AcknowledgeRequest ''s'' ids) 20 (demo_reply OK [''id''] []) race_after)"
  by (simp add: iterator_call_def kDefaultRPCTimeout_def demo_answered race_server_def race_after_def)

lemma race_sinks: "metricsSinks (new_Executor (CreateDefault ''p'')) = None"
  by (simp add: new_Executor_def Let_def CreateDefault_def new_ClientOptions_def)

lemma race_round_run: "run (demo_env race_server) race_round race_answered = Some race_final"
  by (simp add: race_round_def race_answered_def race_final_def race_state_def race_eval race_iterator_def
      new_ModAckIterator_def race_watched_def iterator_at_def upd_iterator_def swap_pending_def process_swapped_def
      SendAcks_def SendNacks_def batch_loop.simps split_eval AckMessages_def race_call demo_ack_status
      populate_ack_ids_set_eq erase_keys_def um_erase_def us_erase_def race_deadline ModifyAckDeadlines_def
      KeepAliveCount_def InputCount_def MergeInput_def race_leaked_def race_end_def race_sinks)

section \<open>The run\<close>

definition race :: "action list" where
  "race = race_setup @ race_delivery @ race_answer @ race_round"

lemma race_run: "run (demo_env race_server) race (initial (CreateDefault ''p'') demo_world) = Some race_final"
  by (simp add: race_def run_append race_setup_run race_delivery_run race_answer_run race_round_run)

lemma race_reachable:
  "reachable (demo_env race_server) (CreateDefault ''p'') demo_world race_delivered"
  "reachable (demo_env race_server) (CreateDefault ''p'') demo_world race_answered"
  "reachable (demo_env race_server) (CreateDefault ''p'') demo_world race_final"
proof -
  let ?R = "reachable (demo_env race_server) (CreateDefault ''p'') demo_world"
  have "?R race_begin" using run_reachable [OF reachable.start race_setup_run] .
  then show d: "?R race_delivered" using race_delivery_run by (rule run_reachable)
  from d race_answer_run show a: "?R race_answered" by (rule run_reachable)
  from a race_round_run show "?R race_final" by (rule run_reachable)
qed

lemma race_facts:
  "out_messages race_delivered = [race_mail]" "c_answered race_delivered = []" "c_failed race_answered = []"
  "out_messages race_final = [race_mail\<lparr>mi_iterator := None\<rparr>]" "c_answered race_final = [(0, ''k'', Ack)]"
  "heap_of race_final = [race_leaked]" "c_ack race_final = A_Begin" "c_failed race_final = []"
  "w_log (c_world race_final) = (AcknowledgeRequest ''s'' [''k''], 20, demo_reply OK [''id''] []) # w_log race_world"
  by (simp_all add: race_delivered_def race_answered_def race_final_def race_state_def Let_def out_messages_def
      c_held_def heap_of_def c_exec_def c_world_def race_end_def race_after_def)

end
