(* ===== verification/Sequential.thy ===== *)
theory Sequential
  imports Race
begin

text \<open>
  The steps of one thread, run while the other thread and the user rest, are the functions of
  \<open>Executor.cpp\<close> they were cut from: the steps of the pull thread are \<open>Executor::Pull\<close> with its
  \<open>try\<close> block, those of the ack thread \<open>Executor::ProcessModAcks\<close> with its \<open>try\<close> block.

  \<open>leads E a c res\<close> says that repeating the step \<open>a\<close> from \<open>c\<close> comes to \<open>res\<close>, which is \<open>None\<close> where
  the thread blocks for ever or an exception leaves it.
\<close>

section \<open>Repeated steps\<close>

definition leads :: "env \<Rightarrow> action \<Rightarrow> conc \<Rightarrow> conc option \<Rightarrow> bool" where
  "leads E a c res \<longleftrightarrow> (\<exists>n. run E (replicate n a) c = res)"

lemma leads_now: "leads E a c (Some c)"
  unfolding leads_def by (intro exI [of _ 0]) simp

lemma leads_step: "next_state E a c = Some c' \<Longrightarrow> leads E a c' res \<Longrightarrow> leads E a c res"
  unfolding leads_def by (elim exE, rule_tac x = "Suc n" in exI) simp

lemma leads_last: "next_state E a c = res \<Longrightarrow> leads E a c res"
  unfolding leads_def by (intro exI [of _ 1]) (auto split: option.splits)

lemmas leads_stop = leads_last [of _ _ _ None]

lemma leads_trans: "leads E a c (Some c') \<Longrightarrow> leads E a c' res \<Longrightarrow> leads E a c res"
  unfolding leads_def by (elim exE, rule_tac x = "n + na" in exI) (simp add: replicate_add run_append)

section \<open>The pull thread\<close>

definition after_pull :: "(msecs outcome \<times> MessageImpl list sys) option \<Rightarrow> conc \<Rightarrow> conc option" where
  "after_pull res c =
     (case res of
        None \<Rightarrow> None
      | Some (Inr sleep, s) \<Rightarrow>
          Some (c\<lparr>c_sys := s, c_pull := (if sleep \<noteq> kSoManyMilliseconds then P_Sleep else P_Top)\<rparr>)
      | Some (Inl e, s) \<Rightarrow> if caught e then Some (c\<lparr>c_sys := s, c_pull := P_Top\<rparr>) else None)"

lemma watch_messages_uncaught: "watch_messages it now msgs vec s = (Inl e, s') \<Longrightarrow> \<not> caught e"
  by (induction msgs arbitrary: vec s)
    (auto simp: watch_message_def Let_def split: prod.splits sum.splits option.splits)

lemma leads_watch:
  "leads E (PullStep st) (c\<lparr>c_sys := s, c_pull := P_Watch start it now msgs vec todo\<rparr>)
     (case watch_messages it now msgs vec s of
        (Inl e, s') \<Rightarrow> None
      | (Inr vec', s') \<Rightarrow> Some (c\<lparr>c_sys := s', c_pull := P_Deliver start (rev vec') todo\<rparr>))"
proof (induction msgs arbitrary: s vec)
  case Nil
  have "next_state E (PullStep st) (c\<lparr>c_sys := s, c_pull := P_Watch start it now [] vec todo\<rparr>) =
      Some (c\<lparr>c_sys := s, c_pull := P_Deliver start (rev vec) todo\<rparr>)" by simp
  from leads_step [OF this leads_now] show ?case by simp
next
  case (Cons msg msgs)
  obtain r s1 where w: "watch_message it now msg vec s = (r, s1)" by (cases "watch_message it now msg vec s")
  show ?case
  proof (cases r)
    case (Inl e)
    with w show ?thesis by (simp add: leads_stop)
  next
    case (Inr vec')
    with w have "next_state E (PullStep st) (c\<lparr>c_sys := s, c_pull := P_Watch start it now (msg # msgs) vec todo\<rparr>) =
        Some (c\<lparr>c_sys := s1, c_pull := P_Watch start it now msgs vec' todo\<rparr>)" by simp
    from leads_step [OF this Cons.IH] w Inr show ?thesis by simp
  qed
qed

lemma leads_deliver:
  "leads E (PullStep st) (c\<lparr>c_sys := s, c_pull := P_Deliver start ms todo\<rparr>)
     (Some (c\<lparr>c_sys := s\<lparr>sy_user := sy_user s @ ms\<rparr>, c_pull := P_Pull start todo\<rparr>))"
proof (induction ms arbitrary: s)
  case Nil
  have "next_state E (PullStep st) (c\<lparr>c_sys := s, c_pull := P_Deliver start [] todo\<rparr>) =
      Some (c\<lparr>c_sys := s, c_pull := P_Pull start todo\<rparr>)" by simp
  from leads_step [OF this leads_now] show ?case by simp
next
  case (Cons m ms)
  have "next_state E (PullStep st) (c\<lparr>c_sys := s, c_pull := P_Deliver start (m # ms) todo\<rparr>) =
      Some (c\<lparr>c_sys := s\<lparr>sy_user := sy_user s @ [m]\<rparr>, c_pull := P_Deliver start ms todo\<rparr>)"
    by (simp add: c_held_def)
  from leads_step [OF this Cons.IH] show ?case by simp
qed

text \<open>The pull of one subscription, then the loop over all of them.\<close>

definition pull_kept :: "env \<Rightarrow> string \<times> SubscriptionPullIterator \<Rightarrow> MessageImpl list sys
    \<Rightarrow> (unit outcome \<times> MessageImpl list sys) option" where
  "pull_kept E = (\<lambda>(name, it) s. Some (iterator_Pull E (\<lambda>_. keep_message) it s))"

lemma leads_pull:
  "leads E (PullStep st) (c\<lparr>c_sys := s, c_pull := P_Pull start ((n, it) # todo)\<rparr>)
     (case iterator_Pull E (\<lambda>_. keep_message) it s of
        (Inl e, s') \<Rightarrow> if caught e then Some (c\<lparr>c_sys := s', c_pull := P_Top\<rparr>) else None
      | (Inr u, s') \<Rightarrow> Some (c\<lparr>c_sys := s', c_pull := P_Pull start todo\<rparr>))"
    (is "leads E ?a ?c ?res")
proof -
  obtain r w where call: "pull_call E it (sy_world s) = (r, w)" by (cases "pull_call E it (sy_world s)")
  show ?thesis
  proof (cases r)
    case (Inl e)
    show ?thesis
    proof (cases "caught e")
      case True
      with call Inl have "next_state E ?a ?c = Some (c\<lparr>c_sys := s\<lparr>sy_world := w\<rparr>, c_pull := P_Top\<rparr>)"
        by (simp add: c_world_def with_world_def)
      from leads_step [OF this leads_now] call Inl True show ?thesis by (simp add: iterator_Pull_def)
    next
      case False
      with call Inl show ?thesis by (simp add: iterator_Pull_def c_world_def leads_stop)
    qed
  next
    case (Inr q)
    obtain msgs now where q: "q = (msgs, now)" by (cases q)
    let ?s = "s\<lparr>sy_world := w\<rparr>"
    obtain v s1 where watch: "watch_messages it now msgs [] ?s = (v, s1)" by (cases "watch_messages it now msgs [] ?s")
    have first: "next_state E ?a ?c = Some (c\<lparr>c_sys := ?s, c_pull := P_Watch start it now msgs [] todo\<rparr>)"
      using call Inr q by (simp add: c_world_def with_world_def)
    show ?thesis
    proof (cases v)
      case (Inl e)
      with watch_messages_uncaught [of it now msgs "[]" ?s e s1] watch have "\<not> caught e" by simp
      with leads_step [OF first leads_watch] watch call Inr q Inl show ?thesis
        by (simp add: iterator_Pull_def)
    next
      case (Inr vec)
      with leads_step [OF first leads_watch] watch
      have "leads E ?a ?c (Some (c\<lparr>c_sys := s1, c_pull := P_Deliver start (rev vec) todo\<rparr>))" by simp
      from leads_trans [OF this leads_deliver] watch call \<open>r = Inr q\<close> q Inr show ?thesis
        by (simp add: iterator_Pull_def deliver_keep)
    qed
  qed
qed

lemma leads_pulls:
  "leads E (PullStep st) (c\<lparr>c_sys := s, c_pull := P_Pull start todo\<rparr>)
     (after_pull
        (case for_each (pull_kept E) todo s of
           None \<Rightarrow> None
         | Some (Inl e, s1) \<Rightarrow> Some (Inl e, s1)
         | Some (Inr u, s1) \<Rightarrow>
             (case hires_now E (sy_world s1) of (t, w2) \<Rightarrow> Some (Inr (pull_sleep (t - start)), s1\<lparr>sy_world := w2\<rparr>))) c)"
proof (induction todo arbitrary: s)
  case Nil
  obtain t w where t: "hires_now E (sy_world s) = (t, w)" by (cases "hires_now E (sy_world s)")
  then have "next_state E (PullStep st) (c\<lparr>c_sys := s, c_pull := P_Pull start []\<rparr>) =
      after_pull (Some (Inr (pull_sleep (t - start)), s\<lparr>sy_world := w\<rparr>)) c"
    by (simp add: after_pull_def c_world_def with_world_def)
  from leads_step [OF this [unfolded after_pull_def option.case prod.case sum.case] leads_now] t
  show ?case by (simp add: after_pull_def)
next
  case (Cons x todo)
  obtain n it where x: "x = (n, it)" by (cases x)
  obtain r s' where pull: "iterator_Pull E (\<lambda>_. keep_message) it s = (r, s')"
    by (cases "iterator_Pull E (\<lambda>_. keep_message) it s")
  note here = leads_pull [where E = E and st = st and c = c and s = s and start = start and n = n and it = it and todo = todo,
    unfolded pull prod.case]
  show ?case
  proof (cases r)
    case (Inl e)
    with here pull x show ?thesis by (simp add: pull_kept_def after_pull_def)
  next
    case (Inr u)
    with here have "leads E (PullStep st) (c\<lparr>c_sys := s, c_pull := P_Pull start (x # todo)\<rparr>)
        (Some (c\<lparr>c_sys := s', c_pull := P_Pull start todo\<rparr>))" by (simp add: x)
    from leads_trans [OF this Cons.IH] Inr pull x show ?thesis by (simp add: pull_kept_def)
  qed
qed

lemma leads_Pull:
  assumes "c_pull c = P_Begin"
  shows "leads E (PullStep st) c (after_pull (exec_Pull E (\<lambda>_. keep_message) (c_sys c)) c)"
proof -
  let ?s = "connect E (c_sys c)"
  obtain start w where start: "hires_now E (sy_world ?s) = (start, w)" by (cases "hires_now E (sy_world ?s)")
  have "next_state E (PullStep st) c =
      Some (c\<lparr>c_sys := ?s\<lparr>sy_world := w\<rparr>, c_pull := P_Pull start (activeIterators (pullThread (sy_exec ?s)))\<rparr>)"
    using assms start by (simp add: c_world_def c_exec_def with_world_def Let_def)
  from leads_step [OF this leads_pulls] start show ?thesis
    by (simp add: exec_Pull_def ForEachActive_def pull_kept_def Let_def)
qed

section \<open>The ack thread\<close>

definition after_ack :: "(msecs outcome \<times> MessageImpl list sys) option \<Rightarrow> iterator_ref list \<Rightarrow> conc \<Rightarrow> conc option" where
  "after_ack res failed c =
     (case res of
        None \<Rightarrow> None
      | Some (Inr sleep, s) \<Rightarrow> Some (c\<lparr>c_sys := s, c_ack := A_Top sleep (sleep \<noteq> kSoManyMilliseconds)\<rparr>)
      | Some (Inl e, s) \<Rightarrow>
          if caught e then Some (c\<lparr>c_sys := s, c_ack := A_Top kSoManyMilliseconds False, c_failed := failed @ c_failed c\<rparr>)
          else None)"

text \<open>The body of the loop, and what the loop returns.\<close>

definition ack_one :: "env \<Rightarrow> string \<times> iterator_ref \<Rightarrow> msecs \<times> 'u sys \<Rightarrow> (unit outcome \<times> msecs \<times> 'u sys) option" where
  "ack_one E = (\<lambda>(name, p) (sleep, s).
     case ProcessModAcks E (iterator_at (sy_exec s) p) (sy_world s) of
       None \<Rightarrow> None
     | Some (r, it, w) \<Rightarrow>
         (let s' = s\<lparr>sy_exec := upd_iterator p (\<lambda>_. it) (sy_exec s), sy_world := w\<rparr>
          in case r of
               Inl e \<Rightarrow> Some (Inl e, sleep, s')
             | Inr ms \<Rightarrow> Some (Inr (), min ms sleep, s')))"

definition ack_loop_result :: "(unit outcome \<times> msecs \<times> 'u sys) option \<Rightarrow> (msecs outcome \<times> 'u sys) option" where
  "ack_loop_result res =
     (case res of
        None \<Rightarrow> None
      | Some (Inl e, _, s') \<Rightarrow> Some (Inl e, s')
      | Some (Inr u, sleep, s') \<Rightarrow> Some (Inr sleep, s'))"

lemma exec_ProcessModAcks_loop:
  "exec_ProcessModAcks E s =
     ack_loop_result (for_each (ack_one E) (activeIterators (ackThread (sy_exec s))) (kSoManyMilliseconds, s))"
  by (simp add: exec_ProcessModAcks_def ack_loop_result_def ack_one_def ForEachActive_def)

lemma upd_iterator_twice: "upd_iterator p (\<lambda>_. b) (upd_iterator p (\<lambda>_. a) ex) = upd_iterator p (\<lambda>_. b) ex"
  by (simp add: upd_iterator_def)

lemma swap_pending_call: "swap_pending it = (acks, nacks, it') \<Longrightarrow> iterator_call E it' = iterator_call E it"
  by (auto simp: swap_pending_def iterator_call_def split: if_splits)

text \<open>The two steps that make one round of one iterator.\<close>

lemma leads_round:
  assumes "p < length (ack_heap (sy_exec s))"
  shows "\<exists>failed. leads E (AckStep st) (c\<lparr>c_sys := s, c_ack := A_Process ((n, p) # todo) sleep\<rparr>)
     (case ack_one E (n, p) (sleep, s) of
        None \<Rightarrow> None
      | Some (Inl e, _, s') \<Rightarrow> after_ack (Some (Inl e, s')) failed c
      | Some (Inr u, sleep', s') \<Rightarrow> Some (c\<lparr>c_sys := s', c_ack := A_Process todo sleep'\<rparr>))"
proof -
  let ?a = "AckStep st" and ?it = "iterator_at (sy_exec s) p"
  obtain acks nacks it1 where swap: "swap_pending ?it = (acks, nacks, it1)" by (cases "swap_pending ?it")
  let ?s1 = "upd_exec (upd_iterator p (\<lambda>_. it1)) s"
  let ?c1 = "c\<lparr>c_sys := ?s1, c_ack := A_Send p acks nacks todo sleep\<rparr>"
  have first: "next_state E ?a (c\<lparr>c_sys := s, c_ack := A_Process ((n, p) # todo) sleep\<rparr>) = Some ?c1"
    using swap by (simp add: c_exec_def with_exec_def)
  have at: "iterator_at (sy_exec ?s1) p = it1" using assms by (simp add: upd_exec_def)
  have round: "ProcessModAcks E ?it (sy_world s) = process_swapped E (iterator_call E it1) acks nacks it1 (sy_world ?s1)"
    using swap by (simp add: ProcessModAcks_def upd_exec_def swap_pending_call)
  show ?thesis
  proof (cases "ProcessModAcks E ?it (sy_world s)")
    case None
    with round at have "next_state E ?a ?c1 = None" by (simp add: c_exec_def c_world_def)
    from leads_step [OF first leads_stop [OF this]] None show ?thesis by (simp add: ack_one_def)
  next
    case (Some q)
    obtain r it2 w where q: "q = (r, it2, w)" by (cases q)
    let ?s2 = "s\<lparr>sy_exec := upd_iterator p (\<lambda>_. it2) (sy_exec s), sy_world := w\<rparr>"
    have second: "next_state E ?a ?c1 =
        (case r of
           Inr ms \<Rightarrow> Some (c\<lparr>c_sys := ?s2, c_ack := A_Process todo (min ms sleep)\<rparr>)
         | Inl e \<Rightarrow> after_ack (Some (Inl e, ?s2)) [p] c)"
      using Some q round at
      by (simp add: c_exec_def c_world_def with_world_def with_exec_def upd_exec_def upd_iterator_twice after_ack_def Let_def
          split: sum.split)
    show ?thesis
    proof (cases r)
      case (Inr ms)
      with second have "next_state E ?a ?c1 = Some (c\<lparr>c_sys := ?s2, c_ack := A_Process todo (min ms sleep)\<rparr>)" by simp
      from leads_step [OF first leads_step [OF this leads_now]] Some q Inr show ?thesis
        by (simp add: ack_one_def)
    next
      case (Inl e)
      with second have "leads E ?a ?c1 (after_ack (Some (Inl e, ?s2)) [p] c)" by (intro leads_last) simp
      from leads_step [OF first this] Some q Inl show ?thesis
        by (intro exI [of _ "[p]"]) (simp add: ack_one_def)
    qed
  qed
qed

lemma ack_one_heap:
  "ack_one E x (sleep, s) = Some (r, sleep', s') \<Longrightarrow> length (ack_heap (sy_exec s')) = length (ack_heap (sy_exec s))"
  by (auto simp: ack_one_def Let_def split: prod.splits option.splits sum.splits)

lemma leads_rounds:
  assumes "\<forall>(n, p)\<in>set todo. p < length (ack_heap (sy_exec s))"
  shows "\<exists>failed. leads E (AckStep st) (c\<lparr>c_sys := s, c_ack := A_Process todo sleep\<rparr>)
    (after_ack (ack_loop_result (for_each (ack_one E) todo (sleep, s))) failed c)"
  using assms
proof (induction todo arbitrary: sleep s)
  case Nil
  show ?case by (intro exI leads_last) (simp add: after_ack_def ack_loop_result_def)
next
  case (Cons x todo)
  obtain n p where x: "x = (n, p)" by (cases x)
  with Cons.prems have "p < length (ack_heap (sy_exec s))" by simp
  from leads_round [where E = E and st = st and c = c and n = n and todo = todo and sleep = sleep, OF this] obtain failed where
    one: "leads E (AckStep st) (c\<lparr>c_sys := s, c_ack := A_Process (x # todo) sleep\<rparr>)
     (case ack_one E x (sleep, s) of
        None \<Rightarrow> None
      | Some (Inl e, _, s') \<Rightarrow> after_ack (Some (Inl e, s')) failed c
      | Some (Inr u, sleep', s') \<Rightarrow> Some (c\<lparr>c_sys := s', c_ack := A_Process todo sleep'\<rparr>))"
    unfolding x by (elim exE)
  show ?case
  proof (cases "ack_one E x (sleep, s)")
    case None
    with one show ?thesis by (auto simp: ack_loop_result_def after_ack_def)
  next
    case (Some q)
    obtain r sleep' s' where q: "q = (r, sleep', s')" by (cases q)
    show ?thesis
    proof (cases r)
      case (Inl e)
      with one Some q show ?thesis by (auto simp: ack_loop_result_def)
    next
      case (Inr u)
      from Some q have "length (ack_heap (sy_exec s')) = length (ack_heap (sy_exec s))" by (auto dest: ack_one_heap)
      with Cons.prems have "\<forall>(n, p)\<in>set todo. p < length (ack_heap (sy_exec s'))" by simp
      from Cons.IH [OF this, of sleep'] obtain failed' where
        "leads E (AckStep st) (c\<lparr>c_sys := s', c_ack := A_Process todo sleep'\<rparr>)
          (after_ack (ack_loop_result (for_each (ack_one E) todo (sleep', s'))) failed' c)" ..
      from leads_trans [OF _ this] one Some q Inr show ?thesis by (intro exI [of _ failed']) simp
    qed
  qed
qed

lemma leads_ProcessModAcks:
  assumes "c_ack c = A_Begin" and "\<forall>(n, p)\<in>set (activeIterators (ackThread (c_exec c))). p < length (ack_heap (c_exec c))"
  shows "\<exists>failed. leads E (AckStep st) c (after_ack (exec_ProcessModAcks E (connect E (c_sys c))) failed c)"
proof -
  let ?s = "connect E (c_sys c)"
  have same: "sy_exec ?s = c_exec c" by (simp add: connect_def c_exec_def)
  have first: "next_state E (AckStep st) c =
      Some (c\<lparr>c_sys := ?s, c_ack := A_Process (activeIterators (ackThread (sy_exec ?s))) kSoManyMilliseconds\<rparr>)"
    using assms(1) by (simp add: c_exec_def Let_def)
  obtain failed where "leads E (AckStep st)
      (c\<lparr>c_sys := ?s, c_ack := A_Process (activeIterators (ackThread (sy_exec ?s))) kSoManyMilliseconds\<rparr>)
      (after_ack (ack_loop_result (for_each (ack_one E) (activeIterators (ackThread (sy_exec ?s))) (kSoManyMilliseconds, ?s)))
        failed c)"
    using leads_rounds [of _ ?s] assms(2) by (metis same)
  from leads_step [OF first this] show ?thesis by (auto simp: exec_ProcessModAcks_loop)
qed

text \<open>What a round takes out of the pending sets does not come back while the other threads rest.\<close>

definition quiet_heap :: "'u sys \<Rightarrow> iterator_ref set \<Rightarrow> bool" where
  "quiet_heap s P \<longleftrightarrow> (\<forall>it\<in>set (ack_heap (sy_exec s)). executorAlive it) \<and>
     (\<forall>p\<in>P. p < length (ack_heap (sy_exec s)) \<and> answers (iterator_at (sy_exec s) p) = Map.empty)"

lemma ProcessModAcks_takes:
  "executorAlive it \<Longrightarrow> ProcessModAcks E it w = Some (r, it', w') \<Longrightarrow>
    executorAlive it' \<and> answers it' = Map.empty"
  by (auto simp: ProcessModAcks_def process_swapped_def swap_pending_def answers_def Let_def
      split: option.splits sum.splits)

lemma ack_one_takes:
  assumes "ack_one E (n, p) (sleep, s) = Some (r, sleep', s')" and "quiet_heap s P"
    and p: "p < length (ack_heap (sy_exec s))"
  shows "quiet_heap s' (insert p P)"
proof -
  obtain r0 it w where round: "ProcessModAcks E (iterator_at (sy_exec s) p) (sy_world s) = Some (r0, it, w)"
    and s': "s' = s\<lparr>sy_exec := upd_iterator p (\<lambda>_. it) (sy_exec s), sy_world := w\<rparr>"
    using assms(1) by (auto simp: ack_one_def Let_def split: option.splits prod.splits sum.splits)
  have "executorAlive (iterator_at (sy_exec s) p)" using assms(2) p by (simp add: quiet_heap_def iterator_at_def)
  from ProcessModAcks_takes [OF this round] assms(2) p show ?thesis
    by (auto simp: quiet_heap_def s' upd_iterator_def iterator_at_def nth_list_update dest: set_update_subset_insert [THEN subsetD])
qed

lemma ack_loop_takes:
  assumes "for_each (ack_one E) todo (sleep, s) = Some (Inr u, sleep', s')" and "quiet_heap s P"
    and "\<forall>(n, p)\<in>set todo. p < length (ack_heap (sy_exec s))"
  shows "quiet_heap s' (snd ` set todo \<union> P)"
  using assms
proof (induction todo arbitrary: sleep s P)
  case Nil
  then show ?case by simp
next
  case (Cons x todo)
  obtain n p where x: "x = (n, p)" by (cases x)
  obtain s1 sleep1 where one: "ack_one E x (sleep, s) = Some (Inr (), sleep1, s1)"
    and rest: "for_each (ack_one E) todo (sleep1, s1) = Some (Inr u, sleep', s')"
    using Cons.prems(1) by (auto split: option.splits sum.splits)
  have "length (ack_heap (sy_exec s1)) = length (ack_heap (sy_exec s))" using one by (auto dest: ack_one_heap)
  with Cons.prems(3) have todo: "\<forall>(n, p)\<in>set todo. p < length (ack_heap (sy_exec s1))" by simp
  have "quiet_heap s1 (insert p P)"
    by (rule ack_one_takes [OF one [unfolded x] Cons.prems(2)]) (use Cons.prems(3) x in simp)
  from Cons.IH [OF rest this todo] show ?case by (simp add: x)
qed

text \<open>So after a round that ends normally nothing is pending or in flight: the service was told.\<close>

lemma round_reaches:
  assumes "reachable E opts w c" and "c_ack c = A_Begin"
    and "exec_ProcessModAcks E (connect E (c_sys c)) = Some (Inr sleep, s)"
  obtains m where "run E (replicate m (AckStep st)) c =
      Some (c\<lparr>c_sys := s, c_ack := A_Top sleep (sleep \<noteq> kSoManyMilliseconds)\<rparr>)"
    and "quiet_heap s (snd ` set (activeIterators (ackThread (c_exec c))))"
proof -
  note ok = reachable_ok [OF assms(1)]
  have refs: "\<forall>(n, p)\<in>set (activeIterators (ackThread (c_exec c))). p < length (ack_heap (c_exec c))"
    using exec_ok_todo(2) [OF conc_ok_parts(1) [OF ok]] by (auto simp: ack_todo_ok_def ack_entry_ok_def)
  have same: "sy_exec (connect E (c_sys c)) = c_exec c" by (simp add: connect_def c_exec_def)
  have "quiet_heap (connect E (c_sys c)) {}"
    using conc_ok_parts(2) [OF ok] by (simp add: quiet_heap_def same heap_ok_def heap_of_def)
  moreover obtain u where "for_each (ack_one E) (activeIterators (ackThread (c_exec c)))
      (kSoManyMilliseconds, connect E (c_sys c)) = Some (Inr u, sleep, s)"
    using assms(3) by (auto simp: exec_ProcessModAcks_loop ack_loop_result_def same split: option.splits sum.splits)
  ultimately have "quiet_heap s (snd ` set (activeIterators (ackThread (c_exec c))))"
    using ack_loop_takes [of E _ _ _ u sleep s "{}"] refs same by fastforce
  moreover obtain failed where "leads E (AckStep st) c (after_ack (Some (Inr sleep, s)) failed c)"
    using leads_ProcessModAcks [OF assms(2) refs, of E st] assms(3) by auto
  ultimately show thesis using that by (auto simp: leads_def after_ack_def)
qed

section \<open>An example\<close>

text \<open>A pull in the state before the run of \<open>Race\<close>, and an ack round in its last state.\<close>

definition race_idle :: "MessageImpl list sys" where
  "race_idle = c_sys (race_state race_iterator demo_world P_Begin A_Begin [] [])"

definition race_time :: "nsecs \<Rightarrow> nat \<Rightarrow> rpc_event list \<Rightarrow> world" where
  "race_time t n evs = \<lparr>w_time = t, w_reads = n, w_seeds = 0, w_log = evs\<rparr>"

lemma race_pull_once:
  "iterator_Pull (demo_env race_server) (\<lambda>_. keep_message) race_pull (race_idle\<lparr>sy_world := race_time 2000 2 []\<rparr>) =
    (Inr (), (upd_exec (upd_iterator 0 (AddDeadlineWatcher ''k'' 9000004000)) race_idle)
      \<lparr>sy_world := race_time 4000 3 (w_log race_world), sy_user := [race_mail]\<rparr>)"
  by (simp add: iterator_Pull_def race_idle_def race_state_def race_eval race_time_def race_pull_def race_message_def
      new_SubscriptionPullIterator_def pull_request_def race_server_def watch_message_def race_world_def
      keep_message_def race_mail_def first_deadline_def kMinAckDeadline_def)

lemma race_pull_round:
  "exec_Pull (demo_env race_server) (\<lambda>_. keep_message) race_idle =
    Some (Inr 249, (upd_exec (upd_iterator 0 (AddDeadlineWatcher ''k'' 9000004000)) race_idle)
      \<lparr>sy_world := race_time 5000 4 (w_log race_world), sy_user := [race_mail]\<rparr>)"
proof -
  have idle: "sy_world race_idle = race_time 0 0 []" "activeIterators (pullThread (sy_exec race_idle)) = [(''s'', race_pull)]"
    by (simp_all add: race_idle_def race_state_def race_time_def demo_world_def Let_def)
  then show ?thesis
    using race_pull_once [unfolded race_time_def numeral_2_eq_2]
    by (simp add: exec_Pull_def ForEachActive_def race_eval race_time_def pull_sleep_def kLowPullLimit_def)
qed

text \<open>The watched deadline is not due yet, so the thread may sleep half the time up to it.\<close>

lemma race_ack_iterator:
  assumes "w_time w = 11000"
  shows "ProcessModAcks (demo_env race_server) race_leaked w =
    Some (Inr 4499, race_leaked, snd (steady_now (demo_env race_server) w))"
  using assms
  by (simp add: ProcessModAcks_def swap_pending_def race_leaked_def race_iterator_def new_ModAckIterator_def
      process_swapped_def SendAcks_def SendNacks_def erase_keys_def race_deadline ModifyAckDeadlines_def
      due_def ExtendIn_def steady_now_def Let_def ms_of_ns_def ms_of_s_def kMinAckDeadline_def
      kSoManyMilliseconds_def signed_divide_int_def)

lemma race_ack_round:
  "\<exists>s. exec_ProcessModAcks (demo_env race_server) (connect (demo_env race_server) (c_sys race_final)) = Some (Inr 4499, s)"
proof -
  let ?s = "connect (demo_env race_server) (c_sys race_final)"
  have "activeIterators (ackThread (sy_exec ?s)) = [(''s'', 0)]" "iterator_at (sy_exec ?s) 0 = race_leaked"
    "w_time (sy_world ?s) = 11000"
    by (simp_all add: connect_def race_final_def race_state_def Let_def iterator_at_def race_end_def race_after_def
        EnsureConnected_def)
  then show ?thesis
    by (simp add: exec_ProcessModAcks_loop ack_one_def race_ack_iterator ack_loop_result_def kSoManyMilliseconds_def)
qed

text \<open>The run of \<open>Race\<close> with the ack thread one step behind, so that the answer waits for its round.\<close>

definition race_waiting :: conc where
  "race_waiting = race_state (race_watched\<lparr>pendingAckIDs := [''k''], ackDist := race_hist\<rparr>)
     (race_time 5000 4 (w_log race_world)) (P_Deliver 2000 [] []) A_Begin [race_mail\<lparr>mi_iterator := None\<rparr>] [(0, ''k'', Ack)]"

lemma race_waiting_setup:
  "run (demo_env race_server) (butlast race_setup) (initial (CreateDefault ''p'') demo_world) =
    Some (race_state race_iterator (race_time 4000 3 (w_log race_world)) (P_Watch 2000 race_pull 4000 [race_message] [] [])
      A_Begin [] [])"
  by (simp add: race_setup_def initial_def new_Executor_def race_eval demo_world_def race_server_def race_state_def
      race_pull_def race_world_def race_time_def pull_request_def upd_iterator_def race_merge
      race_iterator_def [symmetric] new_SubscriptionPullIterator_def CreateDefault_def new_ClientOptions_def
      iterator_at_def)

lemma race_waiting_answer:
  "run (demo_env race_server) (race_delivery @ race_answer) (race_state race_iterator (race_time 4000 3 (w_log race_world))
      (P_Watch 2000 race_pull 4000 [race_message] [] []) A_Begin [] []) = Some race_waiting"
  by (simp add: race_delivery_def race_answer_def race_waiting_def race_state_def race_eval race_message_def race_time_def
      race_iterator_def new_ModAckIterator_def race_pull_def new_SubscriptionPullIterator_def watch_message_def
      first_deadline_def kMinAckDeadline_def upd_iterator_def iterator_at_def AddDeadlineWatcher_def race_watched_def
      race_mail_def user_done_def message_done_def Done_def new_MessageImpl_def mark_done_def race_Record us_erase_def
      us_emplace_def owned_def ack_refs_def pull_refs_def race_world_def s_of_ns_def record_answer_def)

lemma race_waiting_reachable: "reachable (demo_env race_server) (CreateDefault ''p'') demo_world race_waiting"
  by (rule run_reachable [OF run_reachable [OF reachable.start race_waiting_setup] race_waiting_answer])

lemma race_waiting_iterator:
  "ProcessModAcks (demo_env race_server) (race_watched\<lparr>pendingAckIDs := [''k''], ackDist := race_hist\<rparr>) race_after =
    Some (Inr kSoManyMilliseconds, race_watched\<lparr>ackDist := race_hist\<rparr>, race_end)"
  by (simp add: ProcessModAcks_def swap_pending_def race_watched_def race_iterator_def new_ModAckIterator_def
      process_swapped_def SendAcks_def SendNacks_def batch_loop.simps split_eval AckMessages_def race_call demo_ack_status
      populate_ack_ids_set_eq erase_keys_def um_erase_def us_erase_def race_deadline ModifyAckDeadlines_def race_end_def
      Let_def)

lemma race_waiting_round:
  "\<exists>s. exec_ProcessModAcks (demo_env race_server) (connect (demo_env race_server) (c_sys race_waiting)) =
    Some (Inr kSoManyMilliseconds, s)"
proof -
  let ?s = "connect (demo_env race_server) (c_sys race_waiting)"
  have "activeIterators (ackThread (sy_exec ?s)) = [(''s'', 0)]" "sy_world ?s = race_after"
    "iterator_at (sy_exec ?s) 0 = race_watched\<lparr>pendingAckIDs := [''k''], ackDist := race_hist\<rparr>"
    by (simp_all add: connect_def race_waiting_def race_state_def Let_def iterator_at_def race_time_def race_after_def
        race_world_def EnsureConnected_def)
  then show ?thesis
    by (simp add: exec_ProcessModAcks_loop ack_one_def race_waiting_iterator ack_loop_result_def)
qed

section \<open>Properties\<close>



text \<open>
  C20. The steps of the ack thread from the start of a round, with nobody else running, are
  \<open>Executor::ProcessModAcks\<close> with its \<open>try\<close> block: they reach the state \<open>exec_ProcessModAcks\<close> computes on a
  connected channel and leave the sleep time and the flag for the next round, which a caught exception
  resets; where the round never returns the thread never does.
\<close>

theorem ack_steps_are_ProcessModAcks:
  assumes "reachable E opts w c" and "c_ack c = A_Begin"
  shows "\<exists>n failed. run E (replicate n (AckStep st)) c =
    (case exec_ProcessModAcks E (connect E (c_sys c)) of
       None \<Rightarrow> None
     | Some (Inr sleep, s) \<Rightarrow> Some (c\<lparr>c_sys := s, c_ack := A_Top sleep (sleep \<noteq> kSoManyMilliseconds)\<rparr>)
     | Some (Inl e, s) \<Rightarrow>
         if caught e then Some (c\<lparr>c_sys := s, c_ack := A_Top kSoManyMilliseconds False, c_failed := failed @ c_failed c\<rparr>)
         else None)"
proof -
  have "\<forall>(n, p)\<in>set (activeIterators (ackThread (c_exec c))). p < length (ack_heap (c_exec c))"
    using exec_ok_todo(2) [OF conc_ok_parts(1) [OF reachable_ok [OF assms(1)]]]
    by (auto simp: ack_todo_ok_def ack_entry_ok_def)
  from leads_ProcessModAcks [OF assms(2) this] show ?thesis unfolding leads_def after_ack_def by blast
qed

theorem ack_steps_are_ProcessModAcks_witness:
  "\<exists>n s. run (demo_env race_server) (replicate n (AckStep no_timeout)) race_final =
    Some (race_final\<lparr>c_sys := s, c_ack := A_Top 4499 True\<rparr>)"
proof -
  obtain s where s: "exec_ProcessModAcks (demo_env race_server) (connect (demo_env race_server) (c_sys race_final)) =
      Some (Inr 4499, s)"
    using race_ack_round ..
  from ack_steps_are_ProcessModAcks [OF race_reachable(3), of no_timeout]
  obtain n where "run (demo_env race_server) (replicate n (AckStep no_timeout)) race_final =
      Some (race_final\<lparr>c_sys := s, c_ack := A_Top 4499 True\<rparr>)"
    unfolding s by (auto simp: race_facts kSoManyMilliseconds_def)
  then show ?thesis by (intro exI)
qed

end
