(* ===== verification/Served.thy ===== *)
theory Served
  imports Sequential
begin

text \<open>
  All the ids a state of the library contains are ids the service handed out with a message:
  \<open>known_ids\<close> collects those of the iterators, of the messages that are out, of the response the pull
  thread works on and of the batch the ack thread sends, and no step adds an id but the call that
  receives it.
\<close>

section \<open>The ids of a state\<close>

definition served_ids :: "env \<Rightarrow> AckID set" where
  "served_ids E = {k. \<exists>evs q t. k \<in> recv_ack_id ` set (resp_received_messages (rep_response (e_server E evs q t)))}"

fun received_ids :: "pull_pc \<Rightarrow> AckID set" where
  "received_ids (P_Watch start it now msgs vec todo) = recv_ack_id ` set msgs"
| "received_ids pc = {}"

definition heap_ids :: "ModAckIterator list \<Rightarrow> AckID set" where
  "heap_ids hp = (\<Union>p<length hp. watched_ids (hp ! p) \<union> dom (answers (hp ! p)))"

definition flight_ids :: "ack_pc \<Rightarrow> AckID set" where
  "flight_ids pc = (case flight_of pc of None \<Rightarrow> {} | Some (p, f) \<Rightarrow> dom f)"

definition known_ids :: "conc \<Rightarrow> AckID set" where
  "known_ids c = heap_ids (heap_of c) \<union> snd ` out_of (out_messages c) \<union> received_ids (c_pull c) \<union> flight_ids (c_ack c)"

lemma heap_ids_quiet: "quiet hp hp' \<Longrightarrow> heap_ids hp' = heap_ids hp"
  by (auto simp: heap_ids_def quiet_def)

lemma heap_ids_upd: "p < length hp \<Longrightarrow>
    heap_ids (hp[p := it]) \<subseteq> heap_ids hp \<union> watched_ids it \<union> dom (answers it)"
  by (auto simp: heap_ids_def nth_list_update split: if_splits)

lemma heap_ids_nth: "p < length hp \<Longrightarrow> watched_ids (hp ! p) \<union> dom (answers (hp ! p)) \<subseteq> heap_ids hp"
  by (auto simp: heap_ids_def)

lemma pull_call_served: "pull_call E it w = (Inr (msgs, now), w') \<Longrightarrow> recv_ack_id ` set msgs \<subseteq> served_ids E"
  by (auto simp: pull_call_def rpc_call_def served_ids_def Let_def steady_now_def split: option.splits if_splits)

lemma pull_known:
  assumes step: "pull_next E st (c_pull c) c = Some c'" and ok: "conc_ok c"
  shows "known_ids c' \<subseteq> known_ids c \<union> served_ids E"
proof -
  consider (watch) start it now msg msgs vec todo where "c_pull c = P_Watch start it now (msg # msgs) vec todo"
    | (quiet) "heap_of c' = heap_of c" "c_ack c' = c_ack c" "received_ids (c_pull c') \<subseteq> received_ids (c_pull c) \<union> served_ids E"
      "\<forall>m\<in>set (out_messages c'). m \<in> set (out_messages c)"
    using step
    by (cases "(E, st, c_pull c, c)" rule: pull_next.cases)
      (auto simp: Let_def conc_simps out_messages_def ball_Un split: if_splits sum.splits prod.splits dest!: pull_call_served)
  then show ?thesis
  proof cases
    case quiet
    then have "snd ` out_of (out_messages c') \<subseteq> snd ` out_of (out_messages c)" by (fastforce simp: out_of_def)
    with quiet show ?thesis by (auto simp: known_ids_def)
  next
    case watch
    then obtain vec' s where w: "watch_message it now msg vec (c_sys c) = (Inr vec', s)"
      and c': "c' = c\<lparr>c_sys := s, c_pull := P_Watch start it now msgs vec' todo\<rparr>"
      using step by (auto split: prod.splits sum.splits)
    let ?p = "pi_ackIterator it" and ?k = "recv_ack_id msg"
    let ?it = "AddDeadlineWatcher ?k (first_deadline now) (heap_of c ! ?p)"
    obtain m where m: "vec' = vec @ [m]" "mi_iterator m = Some ?p" "mi_ackID m = ?k"
      and s: "s = upd_exec (upd_iterator ?p (AddDeadlineWatcher ?k (first_deadline now))) (c_sys c)"
      using w by (rule watch_message_result) (rule that)
    have p: "?p < length (heap_of c)" using conc_ok_parts(3) [OF ok] watch by simp
    note it = heap_okD [OF conc_ok_parts(2) [OF ok] p]
    have hp: "heap_of c' = (heap_of c)[?p := ?it]" by (simp add: c' s conc_simps)
    have "heap_ids (heap_of c') \<subseteq> insert ?k (heap_ids (heap_of c))"
      using heap_ids_upd [OF p, of ?it] heap_ids_nth [OF p] it by (auto simp: hp)
    moreover have "snd ` out_of (out_messages c') \<subseteq> insert ?k (snd ` out_of (out_messages c))"
      using watch m by (auto simp: c' s out_messages_def out_of_def conc_simps)
    moreover have "received_ids (c_pull c) = insert ?k (received_ids (c_pull c'))" using watch by (simp add: c')
    moreover have "c_ack c' = c_ack c" by (simp add: c')
    ultimately show ?thesis by (auto simp: known_ids_def)
  qed
qed

text \<open>A step that replaces one iterator.\<close>

lemma replaced_known:
  assumes p: "p < length (heap_of c)" and hp: "heap_of c' = (heap_of c)[p := it]"
    and "watched_ids it \<subseteq> watched_ids (heap_of c ! p)" and "dom (answers it) \<subseteq> known_ids c"
    and "snd ` out_of (out_messages c') \<subseteq> snd ` out_of (out_messages c)" and "c_pull c' = c_pull c"
    and "flight_ids (c_ack c') \<subseteq> known_ids c"
  shows "known_ids c' \<subseteq> known_ids c"
proof -
  have "heap_ids (heap_of c') \<subseteq> known_ids c"
    using heap_ids_upd [OF p, of it] heap_ids_nth [OF p] assms(3,4) unfolding hp known_ids_def by blast
  with assms(5-7) show ?thesis by (auto simp: known_ids_def)
qed

lemma ack_known:
  assumes step: "ack_next E st (c_ack c) c = Some c'" and ok: "conc_ok c"
  shows "known_ids c' \<subseteq> known_ids c"
proof -
  note ex = conc_ok_parts(1) [OF ok]
  note hp = conc_ok_parts(2) [OF ok]
  consider (swap) n p todo sleep where "c_ack c = A_Process ((n, p) # todo) sleep"
    | (send) p acks nacks todo sleep where "c_ack c = A_Send p acks nacks todo sleep"
    | (merge) "c' = (with_exec ack_merge c)\<lparr>c_ack := A_Begin\<rparr>"
    | (quiet) "heap_of c' = heap_of c" "out_messages c' = out_messages c" "c_pull c' = c_pull c"
        "flight_of (c_ack c') = flight_of (c_ack c)"
    using step
    by (cases "(E, st, c_ack c, c)" rule: ack_next.cases)
      (auto simp: Let_def conc_simps out_messages_def split: if_splits)
  then show ?thesis
  proof cases
    case quiet
    then show ?thesis by (simp add: known_ids_def flight_ids_def)
  next
    case merge
    then have "quiet (heap_of c) (heap_of c')"
      using ack_merge_ok(3) [of "c_exec c"] ex hp by (simp add: conc_simps)
    from heap_ids_quiet [OF this] merge show ?thesis
      by (auto simp: known_ids_def flight_ids_def out_messages_def conc_simps)
  next
    case swap
    then have p: "p < length (heap_of c)"
      using conc_ok_parts(4) [OF ok] by (auto simp: ack_todo_ok_def ack_entry_ok_def)
    obtain acks nacks it where s: "swap_pending (heap_of c ! p) = (acks, nacks, it)"
      by (cases "swap_pending (heap_of c ! p)")
    have c': "c' = (with_exec (upd_iterator p (\<lambda>_. it)) c)\<lparr>c_ack := A_Send p acks nacks todo sleep\<rparr>"
      using step swap s by (simp add: iterator_at_def heap_of_def)
    have it: "acks = pendingAckIDs (heap_of c ! p)" "nacks = pendingNackIDs (heap_of c ! p)"
      "it = (heap_of c ! p)\<lparr>pendingAckIDs := [], pendingNackIDs := []\<rparr>"
      using swap_pending_simps [OF s] heap_okD [OF hp p] by simp_all
    have v: "answers it = Map.empty" "watched_ids it = watched_ids (heap_of c ! p)"
      "verdict acks nacks = answers (heap_of c ! p)"
      by (simp_all add: it answers_def watched_ids_def)
    have "flight_ids (c_ack c') \<subseteq> known_ids c"
      using heap_ids_nth [OF p] v by (auto simp: c' flight_ids_def known_ids_def)
    with p v show ?thesis
      by (intro replaced_known [of p c c' it]) (simp_all add: c' conc_simps out_messages_def)
  next
    case send
    then have p: "p < length (heap_of c)" using conc_ok_parts(4) [OF ok] by simp
    let ?it = "heap_of c ! p"
    obtain r it w where s: "process_swapped E (iterator_call E ?it) acks nacks ?it (c_world c) = Some (r, it, w)"
      using step send by (auto simp: iterator_at_def heap_of_def Let_def split: option.splits)
    let ?c = "with_world w (with_exec (upd_iterator p (\<lambda>_. it)) c)"
    have c': "c' = ?c\<lparr>c_ack := c_ack c', c_failed := c_failed c'\<rparr>" and a: "flight_of (c_ack c') = None"
      using step send s by (auto simp: iterator_at_def heap_of_def Let_def split: sum.splits if_splits)
    note call = s [unfolded iterator_call_def]
    note frame = stub.process_swapped_frame [OF call]
    have "inputAckIDs it = inputAckIDs ?it" "answers it = answers ?it"
      using arg_cong [OF frame(1), of inputAckIDs] arg_cong [OF frame(1), of answers] by (simp_all add: answers_def)
    moreover have "heap_of c' = (heap_of c)[p := it]" "c_held c' = c_held c" "c_pull c' = c_pull c"
      by (subst c', simp add: conc_simps)+
    ultimately show ?thesis
      using frame(2) a heap_ids_nth [OF p]
      by (intro replaced_known [OF p, of c' it])
        (auto simp: watched_ids_def known_ids_def flight_ids_def out_messages_def)
  qed
qed

lemma user_known:
  assumes step: "user_next E op c = Some c'" and ok: "conc_ok c"
  shows "known_ids c' \<subseteq> known_ids c"
proof -
  consider (answer) a keep i where "user_done E a keep i c = Some c'"
    | (new) it where "heap_of c' = heap_of c @ [it]" "watched_ids it = {}" "answers it = Map.empty"
        "c_held c' = c_held c" "c_pull c' = c_pull c" "c_ack c' = c_ack c"
    | (quiet) "heap_of c' = heap_of c" "c_held c' = c_held c" "c_pull c' = c_pull c" "c_ack c' = c_ack c"
  proof (cases op)
    case (U_Add memory name cb)
    show thesis
    proof (cases "AddIterator_pull memory name (Some cb) (c_exec c)")
      case (Inl e)
      with step U_Add have "c' = c" by (simp split: if_splits)
      then show thesis by (intro quiet) simp_all
    next
      case (Inr r)
      obtain p ex where r: "r = (p, ex)" by (cases r)
      with step U_Add Inr have c': "c' = (with_exec (\<lambda>_. ex) c)\<lparr>c_halves := AddHalf name p # c_halves c\<rparr>"
        by (simp split: if_splits)
      let ?it = "new_ModAckIterator name memory (exec_countPolicy (c_exec c)) (exec_timePolicy (c_exec c))
        (exec_backoffPolicy (c_exec c))"
      have "ack_heap ex = ack_heap (c_exec c) @ [?it]" using Inr r by (auto elim: AddIterator_pull_result)
      then show thesis
        by (intro new [of ?it])
          (simp_all add: c' conc_simps new_ModAckIterator_def watched_ids_def answers_def um_keys_def)
    qed
  next
    case (U_Call t req)
    show thesis by (rule user_world_step [OF step]) (use U_Call in \<open>auto simp: conc_simps intro!: quiet\<close>)
  next
    case U_Connect
    show thesis by (rule user_world_step [OF step]) (use U_Connect in \<open>auto simp: conc_simps intro!: quiet\<close>)
  next
    case (U_Sleep d)
    show thesis by (rule user_world_step [OF step]) (use U_Sleep in \<open>auto simp: conc_simps intro!: quiet\<close>)
  next
    case (U_Finish i)
    with step show thesis by (intro quiet) (auto simp: conc_simps finish_half_heap split: if_splits)
  next
    case (U_Policies cp tp bp)
    with step show thesis by (intro quiet) (auto simp: conc_simps ApplyPolicies_def)
  next
    case (U_Remove name)
    with step show thesis by (intro quiet) (auto simp: conc_simps)
  next
    case U_StopPull
    with step show thesis by (intro quiet) (auto simp: conc_simps)
  next
    case U_StopAck
    with step show thesis by (intro quiet) (auto simp: conc_simps split: if_splits)
  next
    case U_Clear
    with step show thesis by (intro quiet) (auto simp: conc_simps split: if_splits)
  qed (use step in \<open>simp_all add: answer\<close>)
  then show ?thesis
  proof cases
    case quiet
    then show ?thesis by (simp add: known_ids_def out_messages_def)
  next
    case new
    then have "heap_ids (heap_of c') \<subseteq> heap_ids (heap_of c)"
      by (auto simp: heap_ids_def nth_append less_Suc_eq split: if_splits)
    with new show ?thesis by (auto simp: known_ids_def out_messages_def)
  next
    case answer
    from answer ok show ?thesis
    proof (cases rule: user_done_result)
      case ignored
      then have "snd ` out_of (out_messages c') \<subseteq> snd ` out_of (out_messages c)"
        by (auto simp: out_of_def out_messages_def)
      with ignored show ?thesis by (auto simp: known_ids_def)
    next
      case (answered m p it)
      have "mi_ackID m \<in> known_ids c"
        using answered(1,2) by (force simp: known_ids_def out_of_def out_messages_def)
      moreover have "out_of (out_messages c') \<subseteq> out_of (out_messages c)"
        using answered(12,13) by (fastforce simp: out_of_def out_messages_def)
      then have "snd ` out_of (out_messages c') \<subseteq> snd ` out_of (out_messages c)" by (rule image_mono)
      moreover have "heap_of c' = (heap_of c)[p := it]" by (simp add: heap_of_def answered(4))
      ultimately show ?thesis
        using answered heap_ids_nth [OF answered(3)]
        by (intro replaced_known [OF answered(3), of c' it]) (auto simp: known_ids_def)
    qed
  qed
qed

text \<open>The library never handles an id that the service did not hand out.\<close>

lemma step_known: "step E c c' \<Longrightarrow> conc_ok c \<Longrightarrow> known_ids c' \<subseteq> known_ids c \<union> served_ids E"
  by (erule step_cases) (use pull_known ack_known user_known in blast)+

lemma reachable_known: "reachable E opts w c \<Longrightarrow> known_ids c \<subseteq> served_ids E"
proof (induction rule: reachable.induct)
  case start
  show ?case
    by (simp add: known_ids_def initial_def conc_simps heap_ids_def out_messages_def out_of_def flight_ids_def)
next
  case (step c c')
  then show ?case using step_known [OF step.hyps(2) reachable_ok [OF step.hyps(1)]] by blast
qed

end
