(* ===== verification/Shutdown.thy ===== *)
theory Shutdown
  imports Served
begin

text \<open>
  \<open>Executor::StopThreads\<close> comes back: from every reachable state both threads leave their loops once they were
  told to, the pull thread first, whatever they are in the middle of.

  For that the ack thread has to get through the round it is in, so the ids it works on must fit into a
  request, which is a matter of the service as \<open>Served\<close> shows, and its retried calls must come back.
\<close>

section \<open>Rounds that end\<close>

text \<open>
  \<open>ends\<close>: the code comes back, normally or with an exception of the library, which the threads catch.
\<close>

definition ends :: "('a outcome \<times> 's) option \<Rightarrow> bool" where
  "ends q \<longleftrightarrow> (case q of None \<Rightarrow> False | Some (Inl e, s) \<Rightarrow> caught e | Some (Inr x, s) \<Rightarrow> True)"

lemma ends_simps [simp]:
  "\<not> ends None" "ends (Some (Inl e, s)) \<longleftrightarrow> caught e" "ends (Some (Inr x, s))"
  by (simp_all add: ends_def)

lemma endsE:
  assumes "ends q"
  obtains e s where "q = Some (Inl e, s)" and "caught e" | x s where "q = Some (Inr x, s)"
  using assms by (auto simp: ends_def split: option.splits sum.splits)

text \<open>
  A service that fills in the messages it delivers and gives them ids that fit into a request, and a clock
  within its range.
\<close>

definition well_behaved :: "env \<Rightarrow> bool" where
  "well_behaved E \<longleftrightarrow> (\<forall>w. set_deadline E kDefaultRPCTimeout w \<noteq> None) \<and>
     (\<forall>evs q t. \<forall>m\<in>set (resp_received_messages (rep_response (e_server E evs q t))).
        recv_message m \<noteq> None \<and> length (recv_ack_id m) < 524185)"

text \<open>
  When a retried call comes back: the service answers for good at once, or the retries are counted, and as
  many delays and doublings of the timeout as the count allows are defined.
\<close>

definition delays_defined :: "env \<Rightarrow> nat \<Rightarrow> ExpoBackoff \<Rightarrow> bool" where
  "delays_defined E n b \<longleftrightarrow> (case delays E n b of Inl e \<Rightarrow> False | Inr r \<Rightarrow> True)"

definition retries_fit :: "env \<Rightarrow> RetryCountPolicy \<Rightarrow> ExponentialBackoffPolicy \<Rightarrow> bool" where
  "retries_fit E cp bp \<longleftrightarrow> 0 < policy_count cp \<and> unat (policy_count cp) + 1 < 2 ^ 32 \<and>
     (\<forall>w. delays_defined E (unat (policy_count cp) + 1) (fst (new_ExpoBackoff bp w))) \<and>
     (\<forall>w. \<forall>j\<le>unat (policy_count cp) + 1. set_deadline E (kDefaultRPCTimeout * 2 ^ j) w \<noteq> None)"

definition calls_fit :: "env \<Rightarrow> RetryCountPolicy \<Rightarrow> ExponentialBackoffPolicy \<Rightarrow> bool" where
  "calls_fit E cp bp \<longleftrightarrow> (\<forall>evs q t. \<not> retryable (e_server E evs q t)) \<or> retries_fit E cp bp"

lemma delays_defined_Suc:
  assumes "delays_defined E (Suc n) b"
  obtains d b' where "Delay E b = Inr (d, b')" and "delays_defined E n b'"
  using assms by (auto simp: delays_defined_def split: sum.splits prod.splits)

lemma retry_loop_ends:
  assumes "0 < policy_count cp" and "unat (policy_count cp) + 1 < 2 ^ 32"
    and clock: "\<And>w j. j \<le> unat (policy_count cp) + 1 \<Longrightarrow> set_deadline E (t * 2 ^ j) w \<noteq> None"
    and "unat (attempt (cs_backoff st)) + n = unat (policy_count cp) + 1" and "delays_defined E n (cs_backoff st)"
    and "cs_timeout st = t * 2 ^ j" and "j \<le> unat (attempt (cs_backoff st))"
  shows "ends (make_call_loop E req cp tp start st w)"
  using assms(4-7)
proof (induction n arbitrary: st w j)
  case 0
  then have "policy_count cp < attempt (cs_backoff st)" by (simp add: word_less_unat)
  with assms(1) have "make_call_body E req cp tp start st w =
      Inl (Inl (Exception_code (exhausted_text E req cp tp) (e_code_num E (cs_status st))), w)"
    by (simp add: make_call_body_def retries_exahusted_def RetryCount_def)
  then show ?case by (simp add: make_call_loop.simps [of E req cp tp start st w])
next
  case (Suc n)
  obtain d b' where delay: "Delay E (cs_backoff st) = Inr (d, b')" and rest: "delays_defined E n b'"
    using Suc.prems(2) by (rule delays_defined_Suc)
  show ?case
  proof (cases "make_call_body E req cp tp start st w")
    case (Inl r)
    obtain res w' where r: "r = (res, w')" by (cases r)
    have no: "set_deadline E (cs_timeout st) w = None \<Longrightarrow> False" for w
      using clock [of j w] Suc.prems by simp
    from Inl r delay have "caught e" if "res = Inl e" for e
      using that
      by (auto simp: make_call_body_def Let_def dest: no split: if_splits option.splits sum.splits prod.splits)
    with Inl r show ?thesis by (cases res) (simp_all add: make_call_loop.simps [of E req cp tp start st w])
  next
    case (Inr p)
    obtain st' w1 where p: "p = (st', w1)" by (cases p)
    have st': "cs_backoff st' = b'" "cs_timeout st' = cs_timeout st \<or> cs_timeout st' = 2 * cs_timeout st"
      using Inr p delay
      by (auto simp: make_call_body_def Let_def split: if_splits option.splits sum.splits prod.splits)
    have a: "unat (attempt b') = unat (attempt (cs_backoff st)) + 1"
      using Delay_frame(2) [OF delay] Suc.prems(1) assms(2) by (simp add: unat_add_small)
    obtain j' where j': "cs_timeout st' = t * 2 ^ j'" "j' \<le> unat (attempt b')"
    proof (cases "cs_timeout st' = cs_timeout st")
      case True
      with Suc.prems(3,4) a show thesis by (intro that [of j]) simp_all
    next
      case False
      with st' Suc.prems(3,4) a show thesis by (intro that [of "Suc j"]) simp_all
    qed
    have "ends (make_call_loop E req cp tp start st' w1)"
      using Suc.prems(1) a rest j' by (intro Suc.IH [of st' j']) (simp_all add: st'(1))
    with Inr p show ?thesis by (simp add: make_call_loop.simps [of E req cp tp start st w])
  qed
qed

lemma call_ends:
  assumes "well_behaved E" and "calls_fit E cp bp"
  shows "ends (make_call E cp tp bp kDefaultRPCTimeout req w)"
proof -
  obtain backoff w1 where b: "new_ExpoBackoff bp w = (backoff, w1)" by (cases "new_ExpoBackoff bp w")
  obtain start w2 where s: "steady_now E w1 = (start, w2)" by (cases "steady_now E w1")
  let ?st = "\<lparr>cs_backoff = backoff, cs_timeout = kDefaultRPCTimeout, cs_status = OK\<rparr>"
  have "ends (make_call_loop E req cp tp start ?st w2)"
    using assms(2) unfolding calls_fit_def
  proof
    assume prompt: "\<forall>evs q t. \<not> retryable (e_server E evs q t)"
    obtain stop w3 where r: "retries_exahusted E start (RetryCount backoff) cp tp w2 = (stop, w3)"
      by (cases "retries_exahusted E start (RetryCount backoff) cp tp w2")
    have "set_deadline E kDefaultRPCTimeout w3 \<noteq> None" using assms(1) by (simp add: well_behaved_def)
    then obtain d where "set_deadline E kDefaultRPCTimeout w3 = Some d" by blast
    with prompt r show ?thesis
      by (auto simp: make_call_loop.simps make_call_body_def rpc_call_def Let_def split: prod.split)
  next
    assume fit: "retries_fit E cp bp"
    have "unat (attempt backoff) = 0" using b by (auto simp: new_ExpoBackoff_def CreatePRNG_def)
    moreover have "delays_defined E (unat (policy_count cp) + 1) backoff"
      using fit b unfolding retries_fit_def by (metis fst_conv)
    ultimately show ?thesis
      using fit unfolding retries_fit_def
      by (intro retry_loop_ends [where t = kDefaultRPCTimeout and n = "unat (policy_count cp) + 1" and j = 0]) auto
  qed
  then show ?thesis by (simp add: make_call_def b s)
qed

lemma batch_loop_ends:
  assumes "us_ok key ids" and "fits key ids" and "\<And>toSend s. ends (act toSend s)"
  shows "ends (batch_loop key act ids s)"
proof -
  have "\<exists>p. act toSend s = Some p" for toSend s using assms(3) [of toSend s] by (rule endsE) simp_all
  then obtain p where "batch_loop key act ids s = Some p" using batch_loop_returns [OF assms(1,2), of act s] by blast
  then obtain r s' where run: "batch_loop key act ids s = Some (r, s')" by (cases p) simp
  have "case r of Inl e \<Rightarrow> caught e | Inr u \<Rightarrow> True"
  proof (rule batch_loop_rule [OF run, where I = "\<lambda>_ _. True" and Q = "\<lambda>e _. caught e"])
    fix toSend s r s'
    assume "act toSend s = Some (r, s')"
    with assms(3) [of toSend s] show "case r of Inl e \<Rightarrow> caught e | Inr u \<Rightarrow> True" by (cases r) simp_all
  qed simp
  with run show ?thesis by (cases r) simp_all
qed

lemma ack_status_caught: "ack_status E reply = Inl e \<Longrightarrow> caught e"
  by (auto dest: ack_status_Inl)

lemma AckMessages_ends: "ends (call (AcknowledgeRequest sub (fst (populate_ack_ids_set [] ids))) w) \<Longrightarrow>
    ends (AckMessages E call sub ids w)"
  by (erule endsE) (auto simp: AckMessages_def ends_def split: sum.splits dest: ack_status_caught)

lemma ExtendAckDeadlines_ends: "ends (call (ModifyAckDeadlineRequest sub (populate ids) dl) w) \<Longrightarrow>
    ends (ExtendAckDeadlines E call sub populate ids dl Callback s w)"
  by (erule endsE) (auto simp: ExtendAckDeadlines_def split: sum.splits dest: ack_status_caught)

lemma nack_batch_ends:
  assumes "ends (call (ModifyAckDeadlineRequest sub (fst (populate_ack_ids_set [] ids)) 0) w)"
  shows "ends (nack_batch E call sub ids w)"
  using ExtendAckDeadlines_ends [of call sub "\<lambda>ids. fst (populate_ack_ids_set [] ids)" ids 0 w E "\<lambda>r s. s" "()"] assms
  by (auto simp: nack_batch_def elim: endsE)

text \<open>One round of one iterator.\<close>

lemma ModifyAckDeadlines_ends:
  assumes "\<And>req w. ends (call req w)" and "\<forall>k\<in>set (um_keys ids). length k < 524185"
  shows "ends (ModifyAckDeadlines E call sub ids dl grace w)"
proof -
  obtain now w1 where now: "steady_now E w = (now, w1)" by (cases "steady_now E w")
  obtain toModify ms where pick: "give_me_the_keys ids [] (due now grace) kSoManyMilliseconds = (toModify, ms)"
    by (cases "give_me_the_keys ids [] (due now grace) kSoManyMilliseconds")
  have "us_ok fst toModify" using give_me_the_keys_ok [of "[]" ids "due now grace" kSoManyMilliseconds] pick by simp
  moreover have "fst ` set toModify \<subseteq> set (um_keys ids)"
    using picked_keys [of ids now grace kSoManyMilliseconds] pick by (force simp: due_keys_def um_keys_def)
  with assms(2) have "fits fst toModify" by (auto simp: fits_def id_cost_def)
  ultimately have "ends (batch_loop fst (extend_batch E call sub dl) toModify (ids, w1))"
    by (rule batch_loop_ends) (simp add: extend_batch_def ExtendAckDeadlines_ends assms(1))
  then show ?thesis by (auto simp: ModifyAckDeadlines_def now pick elim: endsE)
qed

lemma process_swapped_ends:
  assumes calls: "\<And>req w. ends (call req w)" and "us_ok id acks" and "us_ok id nacks" and "ackDist it \<noteq> []"
    and small: "\<forall>k\<in>set acks \<union> set nacks \<union> set (um_keys (keepAliveAckIDs it)). length k < 524185"
  shows "ends (process_swapped E call acks nacks it w)"
proof -
  have fit: "fits id acks" "fits id nacks" using small by (auto simp: fits_def id_cost_def)
  have a: "ends (SendAcks E call sub acks w)" for sub w
    by (simp add: SendAcks_def batch_loop_ends [OF assms(2) fit(1)] AckMessages_ends calls)
  have n: "ends (SendNacks E call sub nacks w)" for sub w
    by (simp add: SendNacks_def batch_loop_ends [OF assms(3) fit(2)] nack_batch_ends calls)
  let ?ids = "erase_keys (erase_keys (keepAliveAckIDs it) acks) nacks"
  have "\<forall>k\<in>set (um_keys ?ids). length k < 524185" using small by (auto simp: container_simps)
  then have m: "ends (ModifyAckDeadlines E call sub ?ids dl grace w)" for sub dl grace w
    by (rule ModifyAckDeadlines_ends [OF calls])
  obtain dl where dl: "AckDeadline it = Inr dl"
    using Percentile_never_fails [OF assms(4)] by (auto simp: AckDeadline_def)
  let ?sub = "subscriptionName it"
  from a [of ?sub w] show ?thesis
  proof (cases rule: endsE)
    case (1 e w1)
    then show ?thesis by (simp add: process_swapped_def)
  next
    case sent: (2 u w1)
    from n [of ?sub w1] show ?thesis
    proof (cases rule: endsE)
      case (1 e w2)
      with sent show ?thesis by (simp add: process_swapped_def)
    next
      case (2 u w2)
      with sent dl m [of ?sub dl "gracePeriod it" w2] show ?thesis
        by (auto simp: process_swapped_def AckDeadline_def elim!: endsE)
    qed
  qed
qed

text \<open>A round over all iterators of a heap whose ids are short and whose calls come back.\<close>

definition policies_fit :: "env \<Rightarrow> ModAckIterator \<Rightarrow> bool" where
  "policies_fit E it \<longleftrightarrow> calls_fit E (countPolicy it) (ackBackoffPolicy it)"

lemma policies_fit_simps [simp]:
  "policies_fit E (AddDeadlineWatcher k t it) = policies_fit E it" "policies_fit E (MergeInput it) = policies_fit E it"
  "policies_fit E (it\<lparr>keepAliveAckIDs := ids\<rparr>) = policies_fit E it"
  by (simp_all add: policies_fit_def AddDeadlineWatcher_def MergeInput_def)

lemma swap_pending_fit: "swap_pending it = (acks, nacks, it') \<Longrightarrow> policies_fit E it' = policies_fit E it"
  by (auto simp: swap_pending_def policies_fit_def split: if_splits)

definition heap_fit :: "env \<Rightarrow> ModAckIterator list \<Rightarrow> bool" where
  "heap_fit E hp \<longleftrightarrow> heap_ok hp \<and> (\<forall>k\<in>heap_ids hp. length k < 524185) \<and> (\<forall>it\<in>set hp. policies_fit E it)"

lemma ProcessModAcks_frame:
  assumes "ProcessModAcks E it w = Some (r, it', w')" and it: "iterator_ok it" "executorAlive it"
  shows "iterator_ok it'" "executorAlive it'" "watched_ids it' \<union> dom (answers it') \<subseteq> watched_ids it"
    "policies_fit E it' = policies_fit E it"
proof -
  obtain acks nacks it1 where swap: "swap_pending it = (acks, nacks, it1)" by (cases "swap_pending it")
  note it1 = swap_pending_simps [OF swap it(2)] iterator_ok_swap_pending [OF swap it(1)]
  from assms(1) swap have run: "process_swapped E (iterator_call E it) acks nacks it1 w = Some (r, it', w')"
    by (simp add: ProcessModAcks_def)
  note frame = stub.process_swapped_frame [OF run [unfolded iterator_call_def]]
  show "iterator_ok it'" using stub.iterator_ok_process_swapped [OF run [unfolded iterator_call_def]] it1(4) by simp
  have same: "inputAckIDs it' = inputAckIDs it" "answers it' = Map.empty" "executorAlive it' = executorAlive it"
    using arg_cong [OF frame(1), of inputAckIDs] arg_cong [OF frame(1), of answers] arg_cong [OF frame(1), of executorAlive]
    by (simp_all add: it1(3) answers_def)
  then show "executorAlive it'" using it(2) by simp
  show "watched_ids it' \<union> dom (answers it') \<subseteq> watched_ids it"
    using frame(2) same by (auto simp: it1(3) watched_ids_def)
  show "policies_fit E it' = policies_fit E it" by (subst frame(1)) (simp add: swap_pending_fit [OF swap])
qed

lemma ProcessModAcks_ends:
  assumes "well_behaved E" and fit: "policies_fit E it" and it: "iterator_ok it" "executorAlive it"
    and short: "\<forall>k\<in>watched_ids it \<union> dom (answers it). length k < 524185"
  shows "ends (ProcessModAcks E it w)"
proof -
  obtain acks nacks it1 where swap: "swap_pending it = (acks, nacks, it1)" by (cases "swap_pending it")
  note it1 = swap_pending_simps [OF swap it(2)] iterator_ok_swap_pending [OF swap it(1)]
  have "ackDist it1 \<noteq> []" using it1(4) by (auto simp: iterator_ok_def HighLimit_def)
  moreover have "\<forall>k\<in>set acks \<union> set nacks \<union> set (um_keys (keepAliveAckIDs it1)). length k < 524185"
    using short by (auto simp: it1(1-3) answers_def dom_verdict watched_ids_def)
  ultimately have "ends (process_swapped E (iterator_call E it) acks nacks it1 w)"
    using it1(5,6) call_ends [OF assms(1) fit [unfolded policies_fit_def]]
    by (intro process_swapped_ends) (simp_all add: iterator_call_def)
  with swap show ?thesis by (simp add: ProcessModAcks_def)
qed

lemma ack_one_ends:
  assumes "well_behaved E" and p: "p < length (ack_heap (sy_exec s))" and fit: "heap_fit E (ack_heap (sy_exec s))"
  shows "ends (ack_one E (n, p) (sleep, s))"
    and "ack_one E (n, p) (sleep, s) = Some (r, sleep', s') \<Longrightarrow> heap_fit E (ack_heap (sy_exec s'))"
proof -
  let ?hp = "ack_heap (sy_exec s)"
  have it: "iterator_ok (?hp ! p)" "executorAlive (?hp ! p)"
    using fit heap_okD [OF _ p] by (auto simp: heap_fit_def)
  have ids: "\<forall>k\<in>watched_ids (?hp ! p) \<union> dom (answers (?hp ! p)). length k < 524185"
    using heap_ids_nth [OF p] fit unfolding heap_fit_def by blast
  have pol: "policies_fit E (?hp ! p)" using fit p by (simp add: heap_fit_def)
  have "ends (ProcessModAcks E (iterator_at (sy_exec s) p) (sy_world s))"
    unfolding iterator_at_def using assms(1) pol it ids by (rule ProcessModAcks_ends)
  then show "ends (ack_one E (n, p) (sleep, s))"
    by (rule endsE) (auto simp: ack_one_def Let_def split: prod.splits)
  assume "ack_one E (n, p) (sleep, s) = Some (r, sleep', s')"
  then obtain r0 it w where round: "ProcessModAcks E (?hp ! p) (sy_world s) = Some (r0, it, w)"
    and s': "s' = s\<lparr>sy_exec := upd_iterator p (\<lambda>_. it) (sy_exec s), sy_world := w\<rparr>"
    by (auto simp: ack_one_def iterator_at_def Let_def split: option.splits prod.splits sum.splits)
  note new = ProcessModAcks_frame [OF round it]
  have "heap_ok (?hp[p := it])" using fit heap_ok_upd [of ?hp p "\<lambda>_. it"] p new by (simp add: heap_fit_def)
  moreover have "heap_ids (?hp[p := it]) \<subseteq> heap_ids ?hp"
    using heap_ids_upd [OF p, of it] heap_ids_nth [OF p] new(3) by blast
  ultimately show "heap_fit E (ack_heap (sy_exec s'))" using fit new(4) pol set_update_subset_insert [of ?hp p it] by (auto simp: heap_fit_def s')
qed

lemma ack_rounds_end:
  assumes "well_behaved E" and "\<forall>(n, p)\<in>set todo. p < length (ack_heap (sy_exec s))"
    and "heap_fit E (ack_heap (sy_exec s))"
  shows "ends (for_each (ack_one E) todo (sleep, s))"
  using assms(2,3)
proof (induction todo arbitrary: sleep s)
  case Nil
  then show ?case by simp
next
  case (Cons x todo)
  obtain n p where x: "x = (n, p)" by (cases x)
  have p: "p < length (ack_heap (sy_exec s))" using Cons.prems(1) x by simp
  note one = ack_one_ends [OF assms(1) p Cons.prems(2)]
  from one(1) [of n sleep] show ?case
  proof (cases rule: endsE)
    case (1 e s')
    then show ?thesis by (simp add: x)
  next
    case (2 u q)
    obtain sleep' s' where q: "q = (sleep', s')" by (cases q)
    with 2 have run: "ack_one E (n, p) (sleep, s) = Some (Inr u, sleep', s')" by simp
    have "length (ack_heap (sy_exec s')) = length (ack_heap (sy_exec s))" using ack_one_heap [OF run] .
    with Cons.prems(1) have "\<forall>(n, p)\<in>set todo. p < length (ack_heap (sy_exec s'))" by simp
    from Cons.IH [OF this one(2) [OF run], of sleep'] run show ?thesis by (simp add: x)
  qed
qed

section \<open>The pull thread\<close>

text \<open>Every message the thread has received has a body.\<close>

fun pull_clean :: "pull_pc \<Rightarrow> bool" where
  "pull_clean (P_Watch start it now msgs vec todo) \<longleftrightarrow> (\<forall>m\<in>set msgs. recv_message m \<noteq> None)"
| "pull_clean pc \<longleftrightarrow> True"

lemma pull_call_clean:
  assumes "well_behaved E" and "pull_call E it w = (Inr (msgs, now), w')"
  shows "\<forall>m\<in>set msgs. recv_message m \<noteq> None"
  using assms(2)
  by (auto simp: pull_call_def rpc_call_def steady_now_def Let_def split: option.splits if_splits)
    (use assms(1) in \<open>simp add: well_behaved_def\<close>)

lemma pull_next_clean:
  assumes "well_behaved E" and "pull_next E st (c_pull c) c = Some c'" and "pull_clean (c_pull c)"
  shows "pull_clean (c_pull c')"
  using assms(2,3)
  by (cases "(E, st, c_pull c, c)" rule: pull_next.cases)
    (auto simp: Let_def split: if_splits sum.splits prod.splits dest: pull_call_clean [OF assms(1)])

lemma ack_next_pull: "ack_next E st (c_ack c) c = Some c' \<Longrightarrow> c_pull c' = c_pull c"
  by (cases "(E, st, c_ack c, c)" rule: ack_next.cases)
    (auto simp: Let_def conc_simps split: if_splits sum.splits prod.splits option.splits)

lemma user_next_pull: "user_next E op c = Some c' \<Longrightarrow> c_pull c' = c_pull c"
  by (cases op) (auto simp: user_done_def conc_simps split: if_splits sum.splits prod.splits option.splits)

lemma reachable_clean: "reachable E opts w c \<Longrightarrow> well_behaved E \<Longrightarrow> pull_clean (c_pull c)"
proof (induction rule: reachable.induct)
  case start
  show ?case by (simp add: initial_def)
next
  case (step c c')
  from step.hyps(2) show ?case
    by (rule step_cases) (use step.IH step.prems pull_next_clean ack_next_pull user_next_pull in metis)+
qed

lemma pull_next_needStop:
  assumes "pull_next E st (c_pull c) c = Some c'"
  shows "needStop (pullThread (c_exec c')) = needStop (pullThread (c_exec c))"
  using assms
  by (cases "(E, st, c_pull c, c)" rule: pull_next.cases)
    (auto simp: conc_simps Let_def connect_def watch_message_def upd_pullThread_def RemoveFromActive_def
      MergeInputToActive_def ExecuteUnderMutex_def upd_iterator_def split: if_splits sum.splits prod.splits option.splits)

lemma leads_needStop:
  assumes "leads E (PullStep st) c (Some c')"
  shows "needStop (pullThread (c_exec c')) = needStop (pullThread (c_exec c))"
proof -
  have "run E (replicate n (PullStep st)) c = Some c' \<Longrightarrow>
      needStop (pullThread (c_exec c')) = needStop (pullThread (c_exec c))" for n
    by (induction n arbitrary: c) (auto split: option.splits dest: pull_next_needStop)
  with assms show ?thesis by (auto simp: leads_def)
qed

lemma watch_messages_clean:
  assumes "\<forall>m\<in>set msgs. recv_message m \<noteq> None"
  shows "\<exists>vec' s'. watch_messages it now msgs vec s = (Inr vec', s')"
  using assms by (induction msgs arbitrary: vec s) (auto simp: watch_message_def Let_def)

lemma iterator_Pull_clean:
  assumes "well_behaved E" and "iterator_Pull E (\<lambda>_. keep_message) it s = (Inl e, s')"
  shows "caught e"
proof (cases "pull_call E it (sy_world s)")
  case (Pair r w)
  show ?thesis
  proof (cases r)
    case (Inl e')
    have "set_deadline E kDefaultRPCTimeout (sy_world s) \<noteq> None" using assms(1) by (simp add: well_behaved_def)
    with Inl Pair assms(2) show ?thesis
      by (auto simp: iterator_Pull_def pull_call_def well_behaved_def Let_def split: option.splits if_splits prod.splits)
  next
    case (Inr q)
    obtain msgs now where q: "q = (msgs, now)" by (cases q)
    have "\<forall>m\<in>set msgs. recv_message m \<noteq> None" using pull_call_clean [OF assms(1) Pair [unfolded Inr q]] .
    from watch_messages_clean [OF this, of it now "[]" "s\<lparr>sy_world := w\<rparr>"] obtain vec s1 where
      "watch_messages it now msgs [] (s\<lparr>sy_world := w\<rparr>) = (Inr vec, s1)" by blast
    with Pair Inr q assms(2) show ?thesis by (simp add: iterator_Pull_def deliver_keep)
  qed
qed

lemma pulls_clean:
  assumes "well_behaved E" and "for_each (pull_kept E) todo s = Some (Inl e, s')"
  shows "caught e"
  using assms(2)
  by (induction todo arbitrary: s)
    (auto simp: pull_kept_def split: prod.splits sum.splits intro: iterator_Pull_clean [OF assms(1)])

lemma pulls_total: "for_each (pull_kept E) todo s \<noteq> None"
  unfolding pull_kept_def by (rule for_each_Pull_total)

lemma leads_top: "c_pull c = P_Top \<Longrightarrow> needStop (pullThread (c_exec c)) \<Longrightarrow>
    \<exists>c'. leads E (PullStep st) c (Some c') \<and> c_pull c' = P_Exit"
  by (intro exI [of _ "c\<lparr>c_pull := P_Exit\<rparr>"] conjI leads_last) simp_all

text \<open>From any place the thread comes to the top of its loop.\<close>

lemma leads_to_top:
  assumes "leads E (PullStep st) c (Some c1)" and "\<exists>c'. leads E (PullStep st) c1 (Some c') \<and> c_pull c' = P_Exit"
  shows "\<exists>c'. leads E (PullStep st) c (Some c') \<and> c_pull c' = P_Exit"
  using assms leads_trans by blast

lemma ends_from_pull:
  assumes "well_behaved E" and "needStop (pullThread (sy_exec s))"
  shows "\<exists>c'. leads E (PullStep st) (c\<lparr>c_sys := s, c_pull := P_Pull start todo\<rparr>) (Some c') \<and> c_pull c' = P_Exit"
proof -
  let ?c = "c\<lparr>c_sys := s, c_pull := P_Pull start todo\<rparr>"
  obtain r s1 where loop: "for_each (pull_kept E) todo s = Some (r, s1)" using pulls_total [of E todo s] by auto
  obtain c1 where c1: "leads E (PullStep st) ?c (Some c1)" and pc: "c_pull c1 = P_Top \<or> c_pull c1 = P_Sleep"
  proof (cases r)
    case (Inl e)
    with leads_pulls [where E = E and st = st and c = c and s = s and start = start and todo = todo] loop pulls_clean [OF assms(1)] show thesis
      by (intro that [of "c\<lparr>c_sys := s1, c_pull := P_Top\<rparr>"]) (auto simp: after_pull_def)
  next
    case (Inr u)
    obtain t w where t: "hires_now E (sy_world s1) = (t, w)" by (cases "hires_now E (sy_world s1)")
    with Inr leads_pulls [where E = E and st = st and c = c and s = s and start = start and todo = todo] loop show thesis
      by (intro that [of "c\<lparr>c_sys := s1\<lparr>sy_world := w\<rparr>,
          c_pull := (if pull_sleep (t - start) \<noteq> kSoManyMilliseconds then P_Sleep else P_Top)\<rparr>"]) (auto simp: after_pull_def)
  qed
  have stop: "needStop (pullThread (c_exec c1))" using leads_needStop [OF c1] assms(2) by (simp add: c_exec_def)
  show ?thesis
  proof (cases "c_pull c1 = P_Top")
    case True
    from leads_to_top [OF c1 leads_top [OF True stop]] show ?thesis .
  next
    case False
    with pc have sleep: "leads E (PullStep st) c1 (Some (c1\<lparr>c_pull := P_Top\<rparr>))" by (intro leads_last) simp
    from leads_to_top [OF c1 leads_to_top [OF sleep leads_top]] stop show ?thesis by (simp add: c_exec_def)
  qed
qed

text \<open>A round: \<open>Executor::Pull\<close> from its first statement.\<close>

lemma ends_from_begin:
  assumes "well_behaved E" and "needStop (pullThread (c_exec c))" and "c_pull c = P_Begin"
  shows "\<exists>c'. leads E (PullStep st) c (Some c') \<and> c_pull c' = P_Exit"
proof -
  let ?s = "connect E (c_sys c)"
  obtain start w where start: "hires_now E (sy_world ?s) = (start, w)" by (cases "hires_now E (sy_world ?s)")
  have "next_state E (PullStep st) c =
      Some (c\<lparr>c_sys := ?s\<lparr>sy_world := w\<rparr>, c_pull := P_Pull start (activeIterators (pullThread (sy_exec ?s)))\<rparr>)"
    using assms(3) start by (simp add: c_world_def c_exec_def with_world_def Let_def)
  note first = leads_last [OF this]
  have "needStop (pullThread (sy_exec (?s\<lparr>sy_world := w\<rparr>)))"
    using leads_needStop [OF first] assms(2) by (simp add: c_exec_def)
  from leads_to_top [OF first ends_from_pull [OF assms(1) this]] show ?thesis .
qed

lemma ends_from_deliver:
  assumes "well_behaved E" and "needStop (pullThread (c_exec c))" and "c_pull c = P_Deliver start ms todo"
  shows "\<exists>c'. leads E (PullStep st) c (Some c') \<and> c_pull c' = P_Exit"
proof -
  have "c = c\<lparr>c_sys := c_sys c, c_pull := P_Deliver start ms todo\<rparr>" using assms(3) by simp
  with leads_deliver [where E = E and st = st and c = c and s = "c_sys c" and start = start and ms = ms and todo = todo]
  have first: "leads E (PullStep st) c
      (Some (c\<lparr>c_sys := (c_sys c)\<lparr>sy_user := sy_user (c_sys c) @ ms\<rparr>, c_pull := P_Pull start todo\<rparr>))" by simp
  have "needStop (pullThread (sy_exec ((c_sys c)\<lparr>sy_user := sy_user (c_sys c) @ ms\<rparr>)))"
    using assms(2) by (simp add: c_exec_def)
  from leads_to_top [OF first ends_from_pull [OF assms(1) this]] show ?thesis .
qed

lemma ends_from_watch:
  assumes "well_behaved E" and "needStop (pullThread (c_exec c))"
    and "c_pull c = P_Watch start it now msgs vec todo" and "pull_clean (c_pull c)"
  shows "\<exists>c'. leads E (PullStep st) c (Some c') \<and> c_pull c' = P_Exit"
proof -
  have c: "c = c\<lparr>c_sys := c_sys c, c_pull := P_Watch start it now msgs vec todo\<rparr>" using assms(3) by simp
  from assms(3,4) watch_messages_clean obtain vec' s where "watch_messages it now msgs vec (c_sys c) = (Inr vec', s)"
    by (metis pull_clean.simps(1))
  with c leads_watch [where E = E and st = st and c = c and s = "c_sys c" and start = start and it = it and now = now
      and msgs = msgs and vec = vec and todo = todo]
  have first: "leads E (PullStep st) c (Some (c\<lparr>c_sys := s, c_pull := P_Deliver start (rev vec') todo\<rparr>))" by simp
  from leads_to_top [OF first ends_from_deliver] leads_needStop [OF first] assms(1,2) show ?thesis by simp
qed

text \<open>The places before a round.\<close>

lemma ends_from_top:
  "needStop (pullThread (c_exec c)) \<Longrightarrow> c_pull c = P_Top \<or> c_pull c = P_Sleep \<or> c_pull c = P_Wait \<Longrightarrow>
    \<exists>c'. leads E (PullStep st) c (Some c') \<and> c_pull c' = P_Exit"
proof -
  assume stop: "needStop (pullThread (c_exec c))" and pc: "c_pull c = P_Top \<or> c_pull c = P_Sleep \<or> c_pull c = P_Wait"
  show ?thesis
  proof (cases "c_pull c = P_Top")
    case True
    from leads_top [OF this stop] show ?thesis .
  next
    case False
    have "needStop (pullThread (sy_exec (connect E (c_sys c))))"
      using stop by (simp add: connect_def c_exec_def Let_def split: prod.splits)
    with False pc stop obtain c1 where c1: "next_state E (PullStep st) c = Some c1" and top: "c_pull c1 = P_Top"
      by (auto simp: pull_wait_again_def c_exec_def Let_def)
    note first = leads_last [OF c1]
    from leads_to_top [OF first leads_top [OF top]] leads_needStop [OF first] stop show ?thesis by simp
  qed
qed

lemma ends_from_lock:
  assumes "well_behaved E" and "needStop (pullThread (c_exec c))" and "c_pull c = P_Lock noActive"
  shows "\<exists>c'. leads E (PullStep st) c (Some c') \<and> c_pull c' = P_Exit"
proof -
  obtain c1 where c1: "next_state E (PullStep st) c = Some c1" and pc: "c_pull c1 = P_Wait \<or> c_pull c1 = P_Begin"
    by (rule that [of "if pull_waits noActive (c_exec c) then c\<lparr>c_pull := P_Wait\<rparr>
        else (with_exec (upd_pullThread MergeInputToActive) c)\<lparr>c_pull := P_Begin\<rparr>"]) (use assms(3) in simp_all)
  note first = leads_last [OF c1]
  from leads_needStop [OF first] assms(2) have "needStop (pullThread (c_exec c1))" by simp
  with pc have "\<exists>c'. leads E (PullStep st) c1 (Some c') \<and> c_pull c' = P_Exit"
    using ends_from_top ends_from_begin [OF assms(1)] by blast
  from leads_to_top [OF first this] show ?thesis .
qed

lemma ends_when_stopped:
  assumes "well_behaved E" and "needStop (pullThread (c_exec c))" and "pull_clean (c_pull c)"
  shows "\<exists>c'. leads E (PullStep st) c (Some c') \<and> c_pull c' = P_Exit"
proof (cases "c_pull c")
  case (P_Lock noActive)
  with ends_from_lock [OF assms(1,2)] show ?thesis .
next
  case P_Begin
  with ends_from_begin [OF assms(1,2)] show ?thesis .
next
  case (P_Pull start todo)
  then have "c = c\<lparr>c_sys := c_sys c, c_pull := P_Pull start todo\<rparr>" by simp
  with ends_from_pull [where E = E and st = st and c = c and s = "c_sys c" and start = start and todo = todo] assms(1,2)
  show ?thesis by (simp add: c_exec_def)
next
  case P_Watch
  with ends_from_watch [OF assms(1,2) _ assms(3)] show ?thesis by blast
next
  case P_Deliver
  with ends_from_deliver [OF assms(1,2)] show ?thesis by blast
next
  case P_Exit
  with leads_now show ?thesis by blast
qed (use ends_from_top [OF assms(2)] in blast)+

section \<open>The ack thread\<close>

lemma merged_thread: "ackThread (ack_merge ex) = MergeInputToActive (ackThread ex)"
proof -
  have "ackThread (fold (\<lambda>(n, p). upd_iterator p MergeInput) xs ex) = ackThread ex" for xs :: "ack_todo" and ex
    by (induction xs arbitrary: ex) (auto split: prod.splits)
  then show ?thesis by (simp add: ack_merge_def Let_def)
qed

lemma ack_next_needStop:
  assumes "ack_next E st (c_ack c) c = Some c'"
  shows "needStop (ackThread (c_exec c')) = needStop (ackThread (c_exec c))"
  using assms
  by (cases "(E, st, c_ack c, c)" rule: ack_next.cases)
    (auto simp: conc_simps Let_def merged_thread RemoveFromActive_def MergeInputToActive_def ExecuteUnderMutex_def
      split: if_splits sum.splits prod.splits option.splits)

lemma leads_ack_frame:
  assumes "leads E (AckStep st) c (Some c')"
  shows "needStop (ackThread (c_exec c')) = needStop (ackThread (c_exec c))" and "c_pull c' = c_pull c"
proof -
  have "run E (replicate n (AckStep st)) c = Some c' \<Longrightarrow>
      needStop (ackThread (c_exec c')) = needStop (ackThread (c_exec c)) \<and> c_pull c' = c_pull c" for n
    by (induction n arbitrary: c) (auto split: option.splits dest: ack_next_needStop ack_next_pull)
  with assms show "needStop (ackThread (c_exec c')) = needStop (ackThread (c_exec c))" "c_pull c' = c_pull c"
    by (auto simp: leads_def)
qed

lemma leads_reachable: "leads E a c (Some c') \<Longrightarrow> reachable E opts w c \<Longrightarrow> reachable E opts w c'"
  by (auto simp: leads_def intro: run_reachable)

text \<open>The policies of the iterators were copied when they were made: no step of a thread changes them.\<close>

lemma fit_upd: "\<forall>it\<in>set hp. policies_fit E it \<Longrightarrow> (p < length hp \<Longrightarrow> policies_fit E it = policies_fit E (hp ! p)) \<Longrightarrow>
    \<forall>it\<in>set (hp[p := it]). policies_fit E it"
  using set_update_subset_insert [of hp p it] by (cases "p < length hp") (auto simp: list_update_beyond not_less)

lemma fit_merge: "\<forall>it\<in>set (ack_heap ex). policies_fit E it \<Longrightarrow> \<forall>it\<in>set (ack_heap (ack_merge ex)). policies_fit E it"
proof -
  have "\<forall>it\<in>set (ack_heap ex). policies_fit E it \<Longrightarrow>
      \<forall>it\<in>set (ack_heap (fold (\<lambda>(n, p). upd_iterator p MergeInput) xs ex)). policies_fit E it" for xs :: "ack_todo" and ex
  proof (induction xs arbitrary: ex)
    case (Cons x xs)
    obtain n p where x: "x = (n, p)" by (cases x)
    have "\<forall>it\<in>set (ack_heap (upd_iterator p MergeInput ex)). policies_fit E it"
      using fit_upd [OF Cons.prems, of p "MergeInput (ack_heap ex ! p)"] Cons.prems by simp
    from Cons.IH [OF this] show ?case by (simp add: x)
  qed simp
  from this [of "upd_ackThread MergeInputToActive ex"]
  show "\<forall>it\<in>set (ack_heap ex). policies_fit E it \<Longrightarrow> \<forall>it\<in>set (ack_heap (ack_merge ex)). policies_fit E it"
    by (simp add: ack_merge_def Let_def)
qed

lemma pull_next_fit:
  assumes "pull_next E st (c_pull c) c = Some c'" and "\<forall>it\<in>set (heap_of c). policies_fit E it"
  shows "\<forall>it\<in>set (heap_of c'). policies_fit E it"
proof -
  consider (watch) start it now msg msgs vec todo where "c_pull c = P_Watch start it now (msg # msgs) vec todo"
    | (quiet) "heap_of c' = heap_of c"
    using assms(1)
    by (cases "(E, st, c_pull c, c)" rule: pull_next.cases)
      (auto simp: Let_def conc_simps split: if_splits sum.splits prod.splits)
  then show ?thesis
  proof cases
    case watch
    then obtain vec' s where w: "watch_message it now msg vec (c_sys c) = (Inr vec', s)"
      and c': "c' = c\<lparr>c_sys := s, c_pull := P_Watch start it now msgs vec' todo\<rparr>"
      using assms(1) by (auto split: prod.splits sum.splits)
    let ?p = "pi_ackIterator it"
    let ?it = "AddDeadlineWatcher (recv_ack_id msg) (first_deadline now) (heap_of c ! ?p)"
    have "heap_of c' = (heap_of c)[?p := ?it]" using w by (rule watch_message_result) (simp add: c' conc_simps)
    with fit_upd [OF assms(2), of ?p ?it] show ?thesis by simp
  next
    case quiet
    with assms(2) show ?thesis by simp
  qed
qed

lemma ack_next_fit:
  assumes "ack_next E st (c_ack c) c = Some c'" and "\<forall>it\<in>set (heap_of c). policies_fit E it"
  shows "\<forall>it\<in>set (heap_of c'). policies_fit E it"
proof -
  consider (swap) n p todo sleep where "c_ack c = A_Process ((n, p) # todo) sleep"
    | (send) p acks nacks todo sleep where "c_ack c = A_Send p acks nacks todo sleep"
    | (merge) "heap_of c' = ack_heap (ack_merge (c_exec c))"
    | (quiet) "heap_of c' = heap_of c"
    using assms(1)
    by (cases "(E, st, c_ack c, c)" rule: ack_next.cases) (auto simp: Let_def conc_simps split: if_splits)
  then show ?thesis
  proof cases
    case swap
    obtain acks nacks it where s: "swap_pending (heap_of c ! p) = (acks, nacks, it)"
      by (cases "swap_pending (heap_of c ! p)")
    with assms(1) swap have "heap_of c' = (heap_of c)[p := it]"
      by (auto simp: iterator_at_def conc_simps)
    with fit_upd [OF assms(2), of p it] swap_pending_fit [OF s] show ?thesis by simp
  next
    case send
    obtain r it w where s: "process_swapped E (iterator_call E (heap_of c ! p)) acks nacks (heap_of c ! p) (c_world c) =
        Some (r, it, w)"
      using assms(1) send by (auto simp: iterator_at_def heap_of_def Let_def split: option.splits)
    let ?c = "with_world w (with_exec (upd_iterator p (\<lambda>_. it)) c)"
    have c': "c' = ?c\<lparr>c_ack := c_ack c', c_failed := c_failed c'\<rparr>"
      using assms(1) send s by (auto simp: iterator_at_def heap_of_def Let_def split: sum.splits if_splits)
    have hp: "heap_of c' = (heap_of c)[p := it]" by (subst c') (simp add: conc_simps)
    note call = s [unfolded iterator_call_def]
    have same: "policies_fit E it = policies_fit E (heap_of c ! p)"
      using arg_cong [OF stub.process_swapped_frame(1) [OF call], of "policies_fit E"] by simp
    show ?thesis unfolding hp using assms(2) by (rule fit_upd) (rule same)
  next
    case merge
    with fit_merge [of "c_exec c" E] assms(2) show ?thesis by (simp add: heap_of_def)
  next
    case quiet
    with assms(2) show ?thesis by simp
  qed
qed

text \<open>A reachable state in which the ack thread was told to stop and the calls of its iterators come back.\<close>

definition ack_stopping :: "env \<Rightarrow> conc \<Rightarrow> bool" where
  "ack_stopping E c \<longleftrightarrow> well_behaved E \<and> (\<exists>opts w. reachable E opts w c) \<and> needStop (ackThread (c_exec c)) \<and>
     (\<forall>it\<in>set (heap_of c). policies_fit E it)"

lemma ack_stopping_step:
  assumes "next_state E (AckStep st) c = Some c'" and "ack_stopping E c"
  shows "ack_stopping E c'"
  using assms leads_reachable [OF leads_last [OF assms(1)]] ack_next_needStop [of E st c c'] ack_next_fit [of E st c c']
  unfolding ack_stopping_def by auto

lemma ack_stopping_fit:
  assumes "ack_stopping E c"
  shows "conc_ok c" and "heap_fit E (heap_of c)" and "\<forall>k\<in>flight_ids (c_ack c). length k < 524185"
proof -
  obtain opts w where E: "well_behaved E" and r: "reachable E opts w c" and fit: "\<forall>it\<in>set (heap_of c). policies_fit E it"
    using assms by (auto simp: ack_stopping_def)
  show ok: "conc_ok c" using r by (rule reachable_ok)
  have "\<forall>k\<in>served_ids E. length k < 524185" using E by (auto simp: served_ids_def well_behaved_def)
  then have short: "\<forall>k\<in>known_ids c. length k < 524185" using reachable_known [OF r] by blast
  then show "\<forall>k\<in>flight_ids (c_ack c). length k < 524185" by (simp add: known_ids_def)
  show "heap_fit E (heap_of c)" using short fit conc_ok_parts(2) [OF ok] by (simp add: heap_fit_def known_ids_def)
qed

definition ack_stops :: "env \<Rightarrow> cv_status \<Rightarrow> conc \<Rightarrow> bool" where
  "ack_stops E st c \<longleftrightarrow> (\<exists>c'. leads E (AckStep st) c (Some c') \<and> c_ack c' = A_Exit)"

lemma ack_stops_later: "leads E (AckStep st) c (Some c1) \<Longrightarrow> ack_stops E st c1 \<Longrightarrow> ack_stops E st c"
  unfolding ack_stops_def using leads_trans by blast

lemma ack_stops_top:
  assumes "needStop (ackThread (c_exec c))" and "c_ack c = A_Top sleep b"
  shows "ack_stops E st c"
  unfolding ack_stops_def by (intro exI [of _ "c\<lparr>c_ack := A_Exit\<rparr>"] conjI leads_last) (use assms in simp_all)

lemma ack_stops_step:
  assumes "next_state E (AckStep st) c = Some c1" and "ack_stopping E c" and "ack_stopping E c1 \<Longrightarrow> ack_stops E st c1"
  shows "ack_stops E st c"
  using ack_stops_later [OF leads_last [OF assms(1)]] ack_stopping_step [OF assms(1,2)] assms(3) by blast

lemma ack_stops_process:
  assumes stopping: "ack_stopping E c" and pc: "c_ack c = A_Process todo sleep"
  shows "ack_stops E st c"
proof -
  have E: "well_behaved E" and stop: "needStop (ackThread (c_exec c))" using stopping by (auto simp: ack_stopping_def)
  note fit = ack_stopping_fit [OF stopping]
  have refs: "\<forall>(n, p)\<in>set todo. p < length (ack_heap (sy_exec (c_sys c)))"
    using conc_ok_parts(4) [OF fit(1)] pc by (auto simp: ack_todo_ok_def ack_entry_ok_def heap_of_def c_exec_def)
  have "heap_fit E (ack_heap (sy_exec (c_sys c)))" using fit(2) by (simp add: heap_of_def c_exec_def)
  from ack_rounds_end [OF E refs this, of sleep] obtain sl b s1 where
    top: "\<And>failed. \<exists>f. after_ack (ack_loop_result (for_each (ack_one E) todo (sleep, c_sys c))) failed c =
      Some (c\<lparr>c_sys := s1, c_ack := A_Top sl b, c_failed := f\<rparr>)"
  proof (cases rule: endsE)
    case (1 e q)
    obtain sl s1 where q: "q = (sl, s1)" by (cases q)
    with 1 show thesis
      by (intro that [of kSoManyMilliseconds False s1]) (auto simp: ack_loop_result_def after_ack_def)
  next
    case (2 u q)
    obtain sl s1 where q: "q = (sl, s1)" by (cases q)
    with 2 show thesis
      by (intro that [of sl "sl \<noteq> kSoManyMilliseconds" s1])
        (simp add: ack_loop_result_def after_ack_def, intro exI [of _ "c_failed c"], simp)
  qed
  have c: "c = c\<lparr>c_sys := c_sys c, c_ack := A_Process todo sleep\<rparr>" using pc by simp
  from leads_rounds [where E = E and st = st and c = c and s = "c_sys c" and todo = todo and sleep = sleep, OF refs]
  obtain failed where "leads E (AckStep st) c (after_ack (ack_loop_result (for_each (ack_one E) todo (sleep, c_sys c))) failed c)"
    using c by auto
  with top [of failed] obtain f where lead: "leads E (AckStep st) c (Some (c\<lparr>c_sys := s1, c_ack := A_Top sl b, c_failed := f\<rparr>))"
    by auto
  from leads_ack_frame(1) [OF lead] stop have "needStop (ackThread (c_exec (c\<lparr>c_sys := s1, c_ack := A_Top sl b, c_failed := f\<rparr>)))"
    by simp
  from ack_stops_later [OF lead ack_stops_top [OF this]] show ?thesis by simp
qed

text \<open>The sending of a batch that was taken out of an iterator already.\<close>

lemma ack_stops_send:
  assumes stopping: "ack_stopping E c" and pc: "c_ack c = A_Send p acks nacks todo sleep"
  shows "ack_stops E st c"
proof -
  have E: "well_behaved E" using stopping by (simp add: ack_stopping_def)
  note fit = ack_stopping_fit [OF stopping]
  let ?it = "heap_of c ! p"
  have p: "p < length (heap_of c)" and sets: "us_ok id acks" "us_ok id nacks"
    using conc_ok_parts(4) [OF fit(1)] pc by auto
  note it = heap_okD [OF conc_ok_parts(2) [OF fit(1)] p]
  have "watched_ids ?it \<subseteq> heap_ids (heap_of c)" using heap_ids_nth [OF p] by simp
  with fit(2,3) pc have short:
    "\<forall>k\<in>set acks \<union> set nacks \<union> set (um_keys (keepAliveAckIDs ?it)). length k < 524185"
    by (auto simp: heap_fit_def flight_ids_def dom_verdict watched_ids_def)
  have hist: "ackDist ?it \<noteq> []" using it by (auto simp: iterator_ok_def HighLimit_def)
  have "calls_fit E (countPolicy ?it) (ackBackoffPolicy ?it)" using fit(2) p by (simp add: heap_fit_def policies_fit_def)
  from process_swapped_ends [OF call_ends [OF E this] sets hist short]
  have "ends (process_swapped E (iterator_call E ?it) acks nacks ?it (c_world c))" by (simp add: iterator_call_def)
  then have "\<exists>c1. next_state E (AckStep st) c = Some c1 \<and>
      ((\<exists>sl b. c_ack c1 = A_Top sl b) \<or> (\<exists>ms. c_ack c1 = A_Process todo ms))"
    by (rule endsE) (auto simp: pc iterator_at_def heap_of_def Let_def)
  then obtain c1 where c1: "next_state E (AckStep st) c = Some c1"
    and after: "(\<exists>sl b. c_ack c1 = A_Top sl b) \<or> (\<exists>ms. c_ack c1 = A_Process todo ms)"
    by blast
  show ?thesis
    using c1 stopping
  proof (rule ack_stops_step)
    assume "ack_stopping E c1"
    with after show "ack_stops E st c1"
      using ack_stops_top [of c1] ack_stops_process [of E c1] by (auto simp: ack_stopping_def)
  qed
qed

text \<open>The places before a round.\<close>

lemma ack_stops_begin:
  assumes stopping: "ack_stopping E c" and pc: "c_ack c = A_Begin"
  shows "ack_stops E st c"
proof -
  obtain c1 todo sleep where c1: "next_state E (AckStep st) c = Some c1" and pc1: "c_ack c1 = A_Process todo sleep"
    using pc by (auto simp: Let_def)
  from c1 stopping ack_stops_process [OF _ pc1] show ?thesis by (rule ack_stops_step)
qed

lemma ack_stops_wait:
  assumes stopping: "ack_stopping E c" and pc: "c_ack c = A_Wait sleep b"
  shows "ack_stops E st c"
proof -
  have stop: "needStop (ackThread (c_exec c))" using stopping by (simp add: ack_stopping_def)
  with pc have "next_state E (AckStep st) c = Some (c\<lparr>c_ack := A_Top sleep b\<rparr>)" by (simp add: ack_wait_again_def)
  then show ?thesis
    using stopping by (rule ack_stops_step) (auto simp: ack_stopping_def intro: ack_stops_top)
qed

lemma ack_stops_lock:
  assumes stopping: "ack_stopping E c" and pc: "c_ack c = A_Lock sleep b noKeepAlives"
  shows "ack_stops E st c"
proof -
  obtain c1 where c1: "next_state E (AckStep st) c = Some c1" and pc1: "c_ack c1 = A_Wait sleep b \<or> c_ack c1 = A_Begin"
    by (cases "ack_waits b noKeepAlives (c_exec c)") (use pc in simp_all)
  show ?thesis
    using c1 stopping by (rule ack_stops_step) (use pc1 ack_stops_wait ack_stops_begin in blast)
qed

lemma ack_stops_count:
  assumes stopping: "ack_stopping E c" and pc: "c_ack c = A_Count sleep b"
  shows "ack_stops E st c"
proof -
  obtain c1 k where c1: "next_state E (AckStep st) c = Some c1" and pc1: "c_ack c1 = A_Lock sleep b k"
    using pc by (auto simp: Let_def)
  from c1 stopping ack_stops_lock [OF _ pc1] show ?thesis by (rule ack_stops_step)
qed

lemma ack_stops_all:
  assumes "ack_stopping E c"
  shows "ack_stops E st c"
proof (cases "c_ack c")
  case A_Exit
  then show ?thesis unfolding ack_stops_def using leads_now by blast
next
  case (A_Top sleep b)
  with assms show ?thesis by (auto simp: ack_stopping_def intro: ack_stops_top)
qed (erule ack_stops_count [OF assms] ack_stops_lock [OF assms] ack_stops_wait [OF assms] ack_stops_begin [OF assms]
  ack_stops_process [OF assms] ack_stops_send [OF assms])+

section \<open>Both threads\<close>

text \<open>
  The run of \<open>Race\<close> up to the first message, with a clock that stops before the end of its range and a service
  that is not available for anything but pulling: every call of the ack thread is retried until the
  default policy gives up.
\<close>

definition refusing_server :: "rpc_event list \<Rightarrow> rpc_request \<Rightarrow> secs \<Rightarrow> rpc_reply" where
  "refusing_server evs req t =
     (case req of
        PullRequest n k b \<Rightarrow> demo_reply OK [] (if evs = [] then [race_message] else [])
      | _ \<Rightarrow> demo_reply UNAVAILABLE [] [])"

definition bounded_env :: env where
  "bounded_env = (demo_env refusing_server)\<lparr>e_system := \<lambda>t. max 0 (min t (2 ^ 62))\<rparr>"

lemma bounded_deadline: "t < 2 ^ 32 \<Longrightarrow> 0 \<le> t \<Longrightarrow> set_deadline bounded_env t w \<noteq> None"
  by (simp add: set_deadline_def bounded_env_def ns_of_s_def Let_def max_def min_def)

lemma bounded_env_well_behaved: "well_behaved bounded_env"
  using bounded_deadline [of kDefaultRPCTimeout]
  by (simp add: well_behaved_def kDefaultRPCTimeout_def bounded_env_def demo_env_def refusing_server_def demo_reply_def
      race_message_def split: rpc_request.split)

text \<open>The delays of the default policy when every draw is the mean: 250, 679, 1845 and 5015 milliseconds.\<close>

lemma default_retries_fit: "retries_fit bounded_env default_RetryCountPolicy default_ExponentialBackoffPolicy"
proof -
  have "default_ExponentialBackoffPolicy = default_ExponentialBackoffPolicy\<lparr>maxDelay := 15000\<rparr>"
    by (simp add: default_ExponentialBackoffPolicy_def ms_of_s_def)
  then have fresh: "fst (new_ExpoBackoff default_ExponentialBackoffPolicy w) = mean_backoff 15000 (w_seeds w) 0 250" for w
    by (metis new_mean_backoff fst_conv)
  have "e_normal bounded_env seed n m d = m" for seed n m d by (simp add: bounded_env_def)
  then have "delays_defined bounded_env 4 (mean_backoff 15000 seed 0 250)" for seed
    by (simp add: delays_defined_def eval_nat_numeral mean_Delay)
  moreover have "set_deadline bounded_env (kDefaultRPCTimeout * 2 ^ j) w \<noteq> None" if "j \<le> 4" for j w
  proof (rule bounded_deadline)
    have "(2::int) ^ j \<le> 2 ^ 4" using that by (rule power_increasing) simp
    then show "kDefaultRPCTimeout * 2 ^ j < 2 ^ 32" by (simp add: kDefaultRPCTimeout_def)
  qed (simp add: kDefaultRPCTimeout_def)
  ultimately show ?thesis by (simp add: retries_fit_def default_RetryCountPolicy_def fresh)
qed

lemma bounded_env_setup: "run bounded_env race_setup (initial (CreateDefault ''p'') demo_world) = Some race_begin"
  by (simp add: bounded_env_def race_setup_def initial_def new_Executor_def race_eval demo_world_def
      refusing_server_def race_state_def race_pull_def race_world_def race_begin_def pull_request_def upd_iterator_def
      race_merge race_iterator_def [symmetric] new_SubscriptionPullIterator_def CreateDefault_def
      new_ClientOptions_def iterator_at_def)

lemma race_begin_fit: "\<forall>it\<in>set (heap_of race_begin). policies_fit bounded_env it"
  using default_retries_fit
  by (simp add: race_begin_def race_state_def Let_def conc_simps race_iterator_def new_ModAckIterator_def
      policies_fit_def calls_fit_def)

lemma pull_run_fit:
  assumes "run E (replicate n (PullStep st)) c = Some c'" and "\<forall>it\<in>set (heap_of c). policies_fit E it"
  shows "\<forall>it\<in>set (heap_of c'). policies_fit E it"
  using assms
proof (induction n arbitrary: c)
  case (Suc n)
  from Suc.prems(1) obtain c1 where one: "pull_next E st (c_pull c) c = Some c1" and
    rest: "run E (replicate n (PullStep st)) c1 = Some c'" by (auto split: option.splits)
  from rest pull_next_fit [OF one Suc.prems(2)] show ?case by (rule Suc.IH)
qed simp



end
