(* ===== verification/Subscriptions.thy ===== *)
theory Subscriptions
  imports Topics
begin

text \<open>
  Subscriptions: \<open>SubscriptionImpl\<close> (\<open>pubsuber/src/SubscriptionImpl.h\<close>, \<open>SubscriptionImpl.cpp\<close>). The
  operations that look at the executor take what its weak pointer locks to: \<open>None\<close> once it is gone.
\<close>

section \<open>State\<close>

text \<open>\<open>ackDeadline\<close> is not set before the service was asked.\<close>

record SubscriptionImpl = EntityBase +
  ackDeadline :: "secs option"
  receiverActive :: bool

record CreationOptions =
  co_fullTopicName :: string
  co_ackDeadline :: secs

definition new_SubscriptionImpl ::
  "Executor option \<Rightarrow> string \<Rightarrow> string \<Rightarrow> RetryCountPolicy \<Rightarrow> MaxRetryTimePolicy \<Rightarrow> ExponentialBackoffPolicy
    \<Rightarrow> SubscriptionImpl outcome" where
  "new_SubscriptionImpl executor ident name cp tp bp =
     (case executor of
        Some exec \<Rightarrow>
          Inr \<lparr>entity_id = ident, fullName = name, entity_tr = exec_tr exec, entity_countPolicy = cp,
               entity_timePolicy = tp, entity_backoffPolicy = bp, ackDeadline = None, receiverActive = False\<rparr>
      | None \<Rightarrow> Inl (Exception ''Pubsuber: Executor object is not set''))"

section \<open>Requests\<close>

type_synonym 'a sub_result = "('a outcome \<times> SubscriptionImpl \<times> world) option"

text \<open>Like \<open>with_reply\<close>, for a switch that also writes the object.\<close>

definition with_reply_on ::
  "SubscriptionImpl \<Rightarrow> call_result option \<Rightarrow> (rpc_reply \<Rightarrow> 'a outcome \<times> SubscriptionImpl) \<Rightarrow> 'a sub_result" where
  "with_reply_on s res handle =
     (case res of
        None \<Rightarrow> None
      | Some (Inl e, w) \<Rightarrow> Some (Inl e, s, w)
      | Some (Inr (reply, now), w) \<Rightarrow> (case handle reply of (r, s') \<Rightarrow> Some (r, s', w)))"

definition Subscription_Exists :: "env \<Rightarrow> SubscriptionImpl \<Rightarrow> world \<Rightarrow> bool sub_result" where
  "Subscription_Exists E s w =
     with_reply_on s (entity_call E s (GetSubscriptionRequest (fullName s)) w)
       (\<lambda>reply. case rep_code reply of
          NOT_FOUND \<Rightarrow> (Inr False, s)
        | c \<Rightarrow> if \<not> status_ok reply then (Inl (request_failed E ''GetSubscription'' reply), s)
               else (Inr True, s\<lparr>ackDeadline := Some (resp_ack_deadline_seconds (rep_response reply))\<rparr>))"

text \<open>The deadline goes through the \<open>int32\<close> field of the request.\<close>

definition int32 :: "int \<Rightarrow> int" where
  "int32 i = sint (word_of_int i :: u32)"

definition Subscription_Create :: "env \<Rightarrow> CreationOptions \<Rightarrow> SubscriptionImpl \<Rightarrow> world \<Rightarrow> unit sub_result" where
  "Subscription_Create E opts s w =
     with_reply_on s
       (entity_call E s (CreateSubscriptionRequest (fullName s) (co_fullTopicName opts) (int32 (co_ackDeadline opts))) w)
       (\<lambda>reply. if \<not> status_ok reply then (Inl (request_failed E ''CreateSubscription'' reply), s)
                else (Inr (), s\<lparr>ackDeadline := Some (resp_ack_deadline_seconds (rep_response reply))\<rparr>))"

definition Subscription_Delete :: "env \<Rightarrow> SubscriptionImpl \<Rightarrow> world \<Rightarrow> unit sub_result" where
  "Subscription_Delete E s w =
     with_reply_on s (entity_call E s (DeleteSubscriptionRequest (fullName s)) w)
       (\<lambda>reply. case rep_code reply of
          NOT_FOUND \<Rightarrow> (Inr (), s)
        | c \<Rightarrow> if \<not> status_ok reply then (Inl (request_failed E ''DeleteSubscription'' reply), s)
               else (Inr (), s))"

section \<open>Receiving\<close>

text \<open>
  \<open>memory\<close> is that of \<open>AddIterator\<close>. The executor may have changed while \<open>Exists\<close> waited for the service,
  so \<open>exec\<close> is what the weak pointer locks to afterwards.
\<close>

definition Receive ::
  "env \<Rightarrow> hist \<Rightarrow> callback_ref option \<Rightarrow> SubscriptionImpl \<Rightarrow> Executor option \<Rightarrow> world
    \<Rightarrow> (unit outcome \<times> SubscriptionImpl \<times> Executor option \<times> world) option" where
  "Receive E memory cb s exec w =
     (case Subscription_Exists E s w of
        None \<Rightarrow> None
      | Some (Inl e, s1, w1) \<Rightarrow> Some (Inl e, s1, exec, w1)
      | Some (Inr there, s1, w1) \<Rightarrow>
          if \<not> there then
            Some (Inl (Exception (''Pubsuber: Subscription '' @ fullName s @ '' does not exit'')), s1, exec, w1)
          else if receiverActive s1 then
            Some (Inl (Exception ''Pubsuber: Subscription object supports only one receiver''), s1, exec, w1)
          else
            (case exec of
               None \<Rightarrow> Some (Inl (Exception ''Pubsuber: Executor object is not set''), s1, None, w1)
             | Some ex \<Rightarrow>
                 (case AddIterator memory (fullName s) cb ex of
                    (Inl e, ex') \<Rightarrow> Some (Inl e, s1, Some ex', w1)
                  | (Inr u, ex') \<Rightarrow> Some (Inr (), s1\<lparr>receiverActive := True\<rparr>, Some ex', w1))))"

definition Subscription_Stop ::
  "SubscriptionImpl \<Rightarrow> Executor option \<Rightarrow> unit outcome \<times> SubscriptionImpl \<times> Executor option" where
  "Subscription_Stop s exec =
     (case exec of
        Some ex \<Rightarrow>
          if receiverActive s
          then (Inr (), s\<lparr>receiverActive := False\<rparr>, Some (RemoveIterator (fullName s) ex))
          else (Inl (Exception ''Executor object is not set''), s, Some ex)
      | None \<Rightarrow> (Inl (Exception ''Executor object is not set''), s, None))"

definition destroy_SubscriptionImpl :: "SubscriptionImpl \<Rightarrow> Executor option \<Rightarrow> Executor option" where
  "destroy_SubscriptionImpl s exec =
     (case exec of
        None \<Rightarrow> None
      | Some ex \<Rightarrow> Some (if receiverActive s then RemoveIterator (fullName s) ex else ex))"

section \<open>What the requests did\<close>

lemma with_reply_on_with_reply:
  assumes "with_reply_on s res handle = Some (r, s', w')"
  shows "with_reply res (fst \<circ> handle) = Some (r, w')"
    and "s' = s \<or> (\<exists>reply. s' = snd (handle reply) \<and> r = fst (handle reply))"
  using assms
  by (auto simp: with_reply_on_def with_reply_def split: option.splits sum.splits prod.splits) (metis fst_conv snd_conv)+

lemma Subscription_Exists_done:
  assumes "Subscription_Exists E s w = Some (r, s', w')"
  shows "op_done (GetSubscriptionRequest (fullName s))
      (\<lambda>reply. if rep_code reply = NOT_FOUND then Inr False
        else if status_ok reply then Inr True else Inl (request_failed E ''GetSubscription'' reply)) w r w'"
    and "s' = s\<lparr>ackDeadline := ackDeadline s'\<rparr>"
proof -
  let ?h = "\<lambda>reply. case rep_code reply of
          NOT_FOUND \<Rightarrow> (Inr False, s)
        | c \<Rightarrow> if \<not> status_ok reply then (Inl (request_failed E ''GetSubscription'' reply), s)
               else (Inr True, s\<lparr>ackDeadline := Some (resp_ack_deadline_seconds (rep_response reply))\<rparr>)"
  have eq: "fst \<circ> ?h = (\<lambda>reply. if rep_code reply = NOT_FOUND then Inr False
      else if status_ok reply then Inr True else Inl (request_failed E ''GetSubscription'' reply))"
    by (rule ext) (auto split: grpc_code.splits)
  note w = with_reply_on_with_reply [OF assms [unfolded Subscription_Exists_def]]
  from entity.with_reply_done [OF w(1) [unfolded eq]]
  show "op_done (GetSubscriptionRequest (fullName s))
      (\<lambda>reply. if rep_code reply = NOT_FOUND then Inr False
        else if status_ok reply then Inr True else Inl (request_failed E ''GetSubscription'' reply)) w r w'" .
  show "s' = s\<lparr>ackDeadline := ackDeadline s'\<rparr>"
    using w(2)
  proof (elim disjE exE conjE)
    fix reply
    assume "s' = snd (?h reply)"
    then show ?thesis by (cases "rep_code reply") (auto split: if_splits)
  qed simp
qed

lemma AddIterator_refused: "AddIterator memory name cb ex = (Inl e, ex') \<Longrightarrow> ex' = ex"
  by (auto simp: AddIterator_def split: sum.splits)

lemma AddIterator_accepted: "AddIterator memory name cb ex = (Inr u, ex') \<Longrightarrow> cb \<noteq> None \<and> name \<noteq> []"
  by (auto simp: AddIterator_def AddIterator_pull_def split: sum.splits option.splits if_splits)

text \<open>What \<open>Receive\<close> can end with.\<close>

lemma Receive_cases:
  assumes "Receive E memory cb s exec w = Some (r, s', exec', w')"
  obtains (started) s1 ex ex' where "Subscription_Exists E s w = Some (Inr True, s1, w')"
      and "\<not> receiverActive s1" and "exec = Some ex" and "AddIterator memory (fullName s) cb ex = (Inr (), ex')"
      and "r = Inr ()" and "s' = s1\<lparr>receiverActive := True\<rparr>" and "exec' = Some ex'"
    | (refused) e r1 where "Subscription_Exists E s w = Some (r1, s', w')" and "r = Inl e" and "exec' = exec"
      and "r1 = Inr True \<longrightarrow> receiverActive s' \<or> exec = None \<or> cb = None \<or> fullName s = []"
  using assms
proof (cases "Subscription_Exists E s w")
  case (Some p)
  obtain r1 s1 w1 where p: "p = (r1, s1, w1)" by (cases p)
  have refused: thesis if "(\<exists>e. r = Inl e) \<and> s' = s1 \<and> exec' = exec \<and> w' = w1"
      and "r1 = Inr True \<longrightarrow> receiverActive s1 \<or> exec = None \<or> cb = None \<or> fullName s = []"
    using that Some p by (elim conjE exE) (rule refused [of r1], simp_all)
  show thesis
  proof (cases "r1 = Inr True \<and> \<not> receiverActive s1")
    case False
    then show thesis
      using assms Some p by (intro refused) (auto simp: Receive_def split: sum.splits if_splits)
  next
    case True
    show thesis
    proof (cases exec)
      case None
      then show thesis using assms Some p True by (intro refused) (auto simp: Receive_def)
    next
      case (Some ex)
      obtain ra ex' where add: "AddIterator memory (fullName s) cb ex = (ra, ex')"
        by (cases "AddIterator memory (fullName s) cb ex")
      show thesis
      proof (cases ra)
        case (Inl e)
        have "cb = None \<or> fullName s = []"
          using add Inl by (auto simp: AddIterator_def AddIterator_pull_def Let_def split: option.splits if_splits)
        then show thesis
          using assms \<open>Subscription_Exists E s w = Some p\<close> p True Some add Inl AddIterator_refused [of memory _ cb ex e ex']
          by (intro refused) (auto simp: Receive_def)
      next
        case (Inr u)
        then show thesis
          using assms \<open>Subscription_Exists E s w = Some p\<close> p True Some add
          by (intro started [of s1 ex ex']) (auto simp: Receive_def)
      qed
    qed
  qed
qed (simp add: Receive_def)

lemma Subscription_Exists_frame:
  assumes "Subscription_Exists E s w = Some (r, s', w')"
  shows "fullName s' = fullName s" and "receiverActive s' = receiverActive s"
    and "entity_countPolicy s' = entity_countPolicy s" and "entity_tr s' = entity_tr s"
  by (subst Subscription_Exists_done(2) [OF assms], simp)+

lemma Subscription_Exists_seen:
  assumes "Subscription_Exists E s w = Some (Inr True, s', w')"
  shows "\<exists>ev\<in>set (w_log w'). ev_request ev = GetSubscriptionRequest (fullName s) \<and> status_ok (ev_reply ev)"
  using Subscription_Exists_done(1) [OF assms]
  unfolding op_done_def by (force simp: list_all_iff split: if_splits)

section \<open>An example\<close>

definition demo_subscription :: SubscriptionImpl where
  "demo_subscription = \<lparr>entity_id = ''s'', fullName = ''s'', entity_tr = new_Trimpl,
     entity_countPolicy = default_RetryCountPolicy, entity_timePolicy = default_MaxRetryTimePolicy,
     entity_backoffPolicy = default_ExponentialBackoffPolicy, ackDeadline = None, receiverActive = False\<rparr>"

definition idle_executor :: Executor where
  "idle_executor = new_Executor (CreateDefault ''p'')"

definition demo_started :: Executor where
  "demo_started = snd (AddIterator (replicate HighLimit 0) ''s'' (Some 0) idle_executor)"

lemma demo_Receive:
  "Receive (demo_env ok_server) (replicate HighLimit 0) (Some 0) demo_subscription (Some idle_executor) demo_world =
    Some (Inr (), demo_subscription\<lparr>ackDeadline := Some 10, receiverActive := True\<rparr>, Some demo_started,
      answered_world (GetSubscriptionRequest ''s'') 20 (demo_reply OK [''id''] []) connected_world)"
proof -
  have "Subscription_Exists (demo_env ok_server) demo_subscription demo_world =
      Some (Inr True, demo_subscription\<lparr>ackDeadline := Some 10\<rparr>,
        answered_world (GetSubscriptionRequest ''s'') 20 (demo_reply OK [''id''] []) connected_world)"
    using demo_entity_call [of demo_subscription ok_server "GetSubscriptionRequest ''s''" "demo_reply OK [''id''] []"]
    by (simp add: Subscription_Exists_def with_reply_on_def demo_subscription_def ok_server_def status_ok_def)
      (simp add: demo_reply_def)
  moreover have "AddIterator (replicate HighLimit 0) ''s'' (Some 0) idle_executor = (Inr (), demo_started)"
    unfolding demo_started_def by (simp add: AddIterator_def AddIterator_pull_def Let_def)
  ultimately show ?thesis by (simp add: Receive_def demo_subscription_def)
qed

section \<open>Properties\<close>

text \<open>
  C34. \<open>Receive\<close> starts a receiver only if the service knows the subscription, the object has no receiver yet,
  the executor is alive and there is a callback; then both threads get an iterator and the object is
  marked. In every other case it throws, and neither the executor nor the mark has changed.
\<close>

theorem Receive_starts_one_receiver:
  assumes "Receive E memory cb s exec w = Some (r, s', exec', w')"
  shows "(r = Inr () \<longrightarrow> \<not> receiverActive s \<and> receiverActive s' \<and> cb \<noteq> None \<and>
      (\<exists>ex ex'. exec = Some ex \<and> exec' = Some ex' \<and> AddIterator memory (fullName s) cb ex = (Inr (), ex')) \<and>
      (\<exists>ev\<in>set (w_log w'). ev_request ev = GetSubscriptionRequest (fullName s) \<and> status_ok (ev_reply ev))) \<and>
    (\<forall>e. r = Inl e \<longrightarrow> exec' = exec \<and> receiverActive s' = receiverActive s) \<and> fullName s' = fullName s"
  using assms
proof (cases rule: Receive_cases)
  case (started s1 ex ex')
  note frame = Subscription_Exists_frame [OF started(1)] and seen = Subscription_Exists_seen [OF started(1)]
  have "cb \<noteq> None" using AddIterator_accepted [OF started(4)] by simp
  with started(2-7) frame seen show ?thesis by simp
next
  case (refused e r1)
  with Subscription_Exists_frame [OF refused(1)] show ?thesis by simp
qed

theorem Receive_starts_one_receiver_witness:
  "\<not> receiverActive demo_subscription \<and>
    (\<exists>ex ex'. Some idle_executor = Some ex \<and> Some demo_started = Some ex' \<and>
       AddIterator (replicate HighLimit 0) (fullName demo_subscription) (Some 0) ex = (Inr (), ex'))"
  using Receive_starts_one_receiver [OF demo_Receive] by simp



end
