(* ===== verification/Clients.thy ===== *)
theory Clients
  imports Subscriptions
begin

text \<open>
  The client, \<open>Client\<close> of \<open>pubsuber/include/pubsuber/Pubsuber.h\<close> and \<open>pubsuber/src/Pubsuber.cpp\<close>: it
  starts the executor, hands the policies on, makes topics and subscriptions, and stops the executor.
\<close>

section \<open>Policies\<close>

text \<open>The arguments of the variadic \<open>Create\<close>.\<close>

datatype policy =
    CountPolicy RetryCountPolicy
  | TimePolicy MaxRetryTimePolicy
  | BackoffPolicy ExponentialBackoffPolicy

record Client =
  cl_executor :: Executor
  cl_countPolicy :: RetryCountPolicy
  cl_timePolicy :: MaxRetryTimePolicy
  cl_backoffPolicy :: ExponentialBackoffPolicy

fun Client_Apply :: "policy \<Rightarrow> Client \<Rightarrow> Client" where
  "Client_Apply (CountPolicy p) c = c\<lparr>cl_countPolicy := p\<rparr>"
| "Client_Apply (TimePolicy p) c = c\<lparr>cl_timePolicy := p\<rparr>"
| "Client_Apply (BackoffPolicy p) c = c\<lparr>cl_backoffPolicy := p\<rparr>"

text \<open>The overload without arguments hands the policies on to the executor and ends the recursion.\<close>

definition ApplyPolicies_executor :: "Client \<Rightarrow> Client" where
  "ApplyPolicies_executor c =
     c\<lparr>cl_executor := ApplyPolicies (cl_countPolicy c) (cl_timePolicy c) (cl_backoffPolicy c) (cl_executor c)\<rparr>"

fun Client_ApplyPolicies :: "policy list \<Rightarrow> Client \<Rightarrow> Client" where
  "Client_ApplyPolicies [] c = ApplyPolicies_executor c"
| "Client_ApplyPolicies (first # policies) c = Client_ApplyPolicies policies (Client_Apply first c)"

section \<open>Construction\<close>

text \<open>
  The result of a construction: the exception, with the executor that was started and stopped again if
  there was one, or the client; the registry of the loggers and the world change in any case.
  \<open>pull_rest\<close> and \<open>ack_rest\<close> are what the threads still do before they stop, as for \<open>StopThreads\<close>.
\<close>

type_synonym 'r create_result = "((exn \<times> Executor option) + Client) \<times> 'r \<times> world"

definition new_Client ::
  "'r spdlog \<Rightarrow> env \<Rightarrow> (Executor \<Rightarrow> Executor) \<Rightarrow> (Executor \<Rightarrow> Executor) \<Rightarrow> ClientOptions \<Rightarrow> 'r \<Rightarrow> world
    \<Rightarrow> 'r create_result" where
  "new_Client lib E pull_rest ack_rest opts r w =
     (case construct_Executor lib opts r of
        Inl e \<Rightarrow> (Inl (e, None), r, w)
      | Inr (ex, r1) \<Rightarrow>
          (case EnsureConnected E w of (up, w1) \<Rightarrow>
             if \<not> up then
               (Inl (Exception (''Pubsuber: Unable to connect to '' @ pubsubHost (exec_options ex) @
                  '' within given timeout''), Some (StopThreads pull_rest ack_rest ex)), r1, w1)
             else
               (Inr \<lparr>cl_executor = ex, cl_countPolicy = default_RetryCountPolicy,
                  cl_timePolicy = default_MaxRetryTimePolicy, cl_backoffPolicy = default_ExponentialBackoffPolicy\<rparr>,
                r1, w1)))"

text \<open>Without policies overload resolution takes the constructor that does not apply any.\<close>

definition construct_Client ::
  "'r spdlog \<Rightarrow> env \<Rightarrow> (Executor \<Rightarrow> Executor) \<Rightarrow> (Executor \<Rightarrow> Executor) \<Rightarrow> ClientOptions \<Rightarrow> policy list \<Rightarrow> 'r \<Rightarrow> world
    \<Rightarrow> 'r create_result" where
  "construct_Client lib E pull_rest ack_rest opts policies r w =
     (case new_Client lib E pull_rest ack_rest opts r w of
        (Inl e, r1, w1) \<Rightarrow> (Inl e, r1, w1)
      | (Inr c, r1, w1) \<Rightarrow> (Inr (if policies = [] then c else Client_ApplyPolicies policies c), r1, w1))"

definition Client_Create ::
  "'r spdlog \<Rightarrow> env \<Rightarrow> (Executor \<Rightarrow> Executor) \<Rightarrow> (Executor \<Rightarrow> Executor) \<Rightarrow> ClientOptions \<Rightarrow> policy list \<Rightarrow> 'r \<Rightarrow> world
    \<Rightarrow> 'r create_result" where
  "Client_Create lib E pull_rest ack_rest opts policies r w =
     (if opt_project opts = [] then (Inl (Exception ''Pubsuber: project must not be empty string'', None), r, w)
      else if pubsubHost opts = [] then (Inl (Exception ''Pubsuber: pubsubHost must not be empty'', None), r, w)
      else construct_Client lib E pull_rest ack_rest opts policies r w)"

definition Client_SetLogLevel :: "'r spdlog \<Rightarrow> level_enum \<Rightarrow> 'r \<Rightarrow> 'r outcome" where
  "Client_SetLogLevel lib level r = ChangeLevel lib level r"

definition destroy_Client :: "(Executor \<Rightarrow> Executor) \<Rightarrow> (Executor \<Rightarrow> Executor) \<Rightarrow> Client \<Rightarrow> Executor" where
  "destroy_Client pull_rest ack_rest c = StopThreads pull_rest ack_rest (cl_executor c)"

section \<open>Topics and subscriptions\<close>

definition project_of :: "string \<Rightarrow> Client \<Rightarrow> string" where
  "project_of project c = (if project = [] then opt_project (exec_options (cl_executor c)) else project)"

definition GetTopic :: "string \<Rightarrow> string \<Rightarrow> Client \<Rightarrow> TopicImpl outcome" where
  "GetTopic ident project c =
     (if ident = [] then Inl (Exception ''Pubsuber: topic id (non-fully qualified name) must not be empty string'')
      else Inr (new_TopicImpl (exec_tr (cl_executor c)) ident
             (''projects/'' @ project_of project c @ ''/topics/'' @ ident)
             (cl_countPolicy c) (cl_timePolicy c) (cl_backoffPolicy c)))"

definition GetSubscription :: "string \<Rightarrow> string \<Rightarrow> Client \<Rightarrow> SubscriptionImpl outcome" where
  "GetSubscription ident project c =
     (if ident = [] then Inl (Exception ''Pubsuber: topic id (non-fully qualified name) must not be empty string'')
      else new_SubscriptionImpl (Some (cl_executor c)) ident
             (''projects/'' @ project_of project c @ ''/subscriptions/'' @ ident)
             (cl_countPolicy c) (cl_timePolicy c) (cl_backoffPolicy c))"

section \<open>Lemmas\<close>

text \<open>The last policy of a kind, or the one that was there.\<close>

fun last_count :: "RetryCountPolicy \<Rightarrow> policy list \<Rightarrow> RetryCountPolicy" where
  "last_count d [] = d"
| "last_count d (CountPolicy p # ps) = last_count p ps"
| "last_count d (TimePolicy p # ps) = last_count d ps"
| "last_count d (BackoffPolicy p # ps) = last_count d ps"

fun last_time :: "MaxRetryTimePolicy \<Rightarrow> policy list \<Rightarrow> MaxRetryTimePolicy" where
  "last_time d [] = d"
| "last_time d (CountPolicy p # ps) = last_time d ps"
| "last_time d (TimePolicy p # ps) = last_time p ps"
| "last_time d (BackoffPolicy p # ps) = last_time d ps"

fun last_backoff :: "ExponentialBackoffPolicy \<Rightarrow> policy list \<Rightarrow> ExponentialBackoffPolicy" where
  "last_backoff d [] = d"
| "last_backoff d (CountPolicy p # ps) = last_backoff d ps"
| "last_backoff d (TimePolicy p # ps) = last_backoff d ps"
| "last_backoff d (BackoffPolicy p # ps) = last_backoff p ps"

lemma ApplyPolicies_last:
  "Client_ApplyPolicies ps c =
    (let cp = last_count (cl_countPolicy c) ps; tp = last_time (cl_timePolicy c) ps; bp = last_backoff (cl_backoffPolicy c) ps
     in \<lparr>cl_executor = ApplyPolicies cp tp bp (cl_executor c), cl_countPolicy = cp, cl_timePolicy = tp, cl_backoffPolicy = bp\<rparr>)"
proof (induction ps arbitrary: c)
  case Nil
  then show ?case by (simp add: Let_def ApplyPolicies_executor_def)
next
  case (Cons p ps)
  then show ?case by (cases p) (simp_all add: Let_def)
qed

lemma new_Executor_policies:
  "ApplyPolicies default_RetryCountPolicy default_MaxRetryTimePolicy default_ExponentialBackoffPolicy (new_Executor opts)
    = new_Executor opts"
  by (simp add: ApplyPolicies_def new_Executor_def Let_def)

lemma AddIterator_first:
  assumes "name \<noteq> []" and "ack_heap ex = []" and "exec_countPolicy ex = cp" and "exec_timePolicy ex = tp"
    and "exec_backoffPolicy ex = bp"
  obtains ex' where "AddIterator memory name (Some cb) ex = (Inr (), ex')"
    and "iterator_at ex' 0 = new_ModAckIterator name memory cp tp bp"
  using assms
  by (simp add: AddIterator_def AddIterator_pull_def AddIterator_ack_def Let_def upd_pullThread_def upd_ackThread_def
      iterator_at_def)

text \<open>What a successful creation made.\<close>

lemma Client_Create_done:
  assumes "Client_Create lib E pull_rest ack_rest opts policies r w = (Inr c, r1, w1)"
  obtains "opt_project opts \<noteq> []" and "pubsubHost opts \<noteq> []" and "Setup lib (logSink opts) (logLevel opts) r = Inr r1"
    and "EnsureConnected E w = (True, w1)"
    and "cl_executor c = ApplyPolicies (cl_countPolicy c) (cl_timePolicy c) (cl_backoffPolicy c) (new_Executor opts)"
    and "cl_countPolicy c = last_count default_RetryCountPolicy policies"
    and "cl_timePolicy c = last_time default_MaxRetryTimePolicy policies"
    and "cl_backoffPolicy c = last_backoff default_ExponentialBackoffPolicy policies"
proof -
  from assms obtain c0 where guards: "opt_project opts \<noteq> []" "pubsubHost opts \<noteq> []"
    and new: "new_Client lib E pull_rest ack_rest opts r w = (Inr c0, r1, w1)"
    and c: "c = (if policies = [] then c0 else Client_ApplyPolicies policies c0)"
    by (auto simp: Client_Create_def construct_Client_def split: if_splits sum.splits prod.splits)
  from new have c0: "c0 = \<lparr>cl_executor = new_Executor opts, cl_countPolicy = default_RetryCountPolicy,
      cl_timePolicy = default_MaxRetryTimePolicy, cl_backoffPolicy = default_ExponentialBackoffPolicy\<rparr>"
    and up: "EnsureConnected E w = (True, w1)" and log: "Setup lib (logSink opts) (logLevel opts) r = Inr r1"
    by (auto simp: new_Client_def construct_Executor_def SetupLogger_def split: sum.splits prod.splits if_splits)
  from c have "c = Client_ApplyPolicies policies c0"
    using new_Executor_policies [of opts] by (cases "policies = []") (simp_all add: c0 ApplyPolicies_executor_def)
  then show thesis
    using guards up log by (intro that) (simp_all add: ApplyPolicies_last Let_def c0)
qed

section \<open>An example\<close>

definition demo_policies :: "policy list" where
  "demo_policies = [CountPolicy \<lparr>policy_count = 4\<rparr>, TimePolicy \<lparr>policy_interval = 30\<rparr>, CountPolicy \<lparr>policy_count = 5\<rparr>]"

definition demo_client :: "((exn \<times> Executor option) + Client) \<times> (string \<rightharpoonup> logger) \<times> world" where
  "demo_client = Client_Create demo_spdlog (demo_env ok_server) id id (CreateDefault ''p'') demo_policies Map.empty demo_world"

lemma demo_client_created:
  obtains c r1 w1 where "demo_client = (Inr c, r1, w1)"
proof -
  have "fst demo_client = Inr (projr (fst demo_client))"
    by (simp add: demo_client_def Client_Create_def construct_Client_def new_Client_def construct_Executor_def
        SetupLogger_def Setup_def ChangeLevel_def demo_spdlog_def logger_name_def CreateDefault_def new_ClientOptions_def
        DefaultPubsubHost_def EnsureConnected_def demo_policies_def Let_def)
  then show thesis by (cases demo_client) (metis fst_conv that)
qed

section \<open>Properties\<close>





text \<open>
  Of several policies of a kind the last one given to \<open>Create\<close> holds, for a kind that was not given the
  default, and it holds everywhere: in the client, in the topics and subscriptions it makes (whose full
  names have the project of the call or else that of the options), and in the receivers of its executor.
\<close>

lemma last_policy_wins:
  assumes "Client_Create lib E pull_rest ack_rest opts policies r w = (Inr c, r1, w1)" and "ident \<noteq> []" and "name \<noteq> []"
  shows "\<exists>cp tp bp t s ex.
    cp = last_count default_RetryCountPolicy policies \<and> tp = last_time default_MaxRetryTimePolicy policies \<and>
    bp = last_backoff default_ExponentialBackoffPolicy policies \<and>
    cl_countPolicy c = cp \<and> cl_timePolicy c = tp \<and> cl_backoffPolicy c = bp \<and>
    GetTopic ident project c = Inr t \<and>
    entity_countPolicy t = cp \<and> entity_timePolicy t = tp \<and> entity_backoffPolicy t = bp \<and>
    fullName t = ''projects/'' @ (if project = [] then opt_project opts else project) @ ''/topics/'' @ ident \<and>
    GetSubscription ident project c = Inr s \<and>
    entity_countPolicy s = cp \<and> entity_timePolicy s = tp \<and> entity_backoffPolicy s = bp \<and>
    fullName s = ''projects/'' @ (if project = [] then opt_project opts else project) @ ''/subscriptions/'' @ ident \<and>
    AddIterator memory name (Some cb) (cl_executor c) = (Inr (), ex) \<and>
    countPolicy (iterator_at ex 0) = cp \<and> timePolicy (iterator_at ex 0) = tp \<and> ackBackoffPolicy (iterator_at ex 0) = bp"
proof -
  let ?cp = "last_count default_RetryCountPolicy policies" and ?tp = "last_time default_MaxRetryTimePolicy policies"
    and ?bp = "last_backoff default_ExponentialBackoffPolicy policies"
  have c: "cl_executor c = ApplyPolicies ?cp ?tp ?bp (new_Executor opts)" "cl_countPolicy c = ?cp"
    "cl_timePolicy c = ?tp" "cl_backoffPolicy c = ?bp"
    using assms(1) by (rule Client_Create_done, simp)+
  obtain ex where ex: "AddIterator memory name (Some cb) (cl_executor c) = (Inr (), ex)"
      "iterator_at ex 0 = new_ModAckIterator name memory ?cp ?tp ?bp"
    by (rule AddIterator_first [OF assms(3), of "cl_executor c" ?cp ?tp ?bp memory cb])
      (simp_all add: c ApplyPolicies_def new_Executor_def Let_def)
  have p: "project_of project c = (if project = [] then opt_project opts else project)"
    by (simp add: project_of_def c ApplyPolicies_def new_Executor_def Let_def)
  obtain t where t: "GetTopic ident project c = Inr t" "entity_countPolicy t = ?cp" "entity_timePolicy t = ?tp"
      "entity_backoffPolicy t = ?bp" "fullName t = ''projects/'' @ project_of project c @ ''/topics/'' @ ident"
    using assms(2) by (simp add: GetTopic_def new_TopicImpl_def c)
  obtain s where s: "GetSubscription ident project c = Inr s" "entity_countPolicy s = ?cp" "entity_timePolicy s = ?tp"
      "entity_backoffPolicy s = ?bp" "fullName s = ''projects/'' @ project_of project c @ ''/subscriptions/'' @ ident"
    using assms(2) by (simp add: GetSubscription_def new_SubscriptionImpl_def c)
  show ?thesis
    by (rule exI [of _ ?cp], rule exI [of _ ?tp], rule exI [of _ ?bp], rule exI [of _ t], rule exI [of _ s],
        rule exI [of _ ex]) (simp only: c t s ex [unfolded c] p, simp add: new_ModAckIterator_def)
qed

lemma last_policy_wins_witness:
  "\<exists>c. fst demo_client = Inr c \<and> cl_countPolicy c = \<lparr>policy_count = 5\<rparr> \<and> cl_timePolicy c = \<lparr>policy_interval = 30\<rparr> \<and>
    cl_backoffPolicy c = default_ExponentialBackoffPolicy"
proof -
  obtain c r1 w1 where d: "demo_client = (Inr c, r1, w1)" by (rule demo_client_created)
  have "''t'' \<noteq> []" "''s'' \<noteq> []" by simp_all
  from last_policy_wins [OF d [unfolded demo_client_def] this, of "[]" "[]" 0]
  have "cl_countPolicy c = last_count default_RetryCountPolicy demo_policies \<and>
      cl_timePolicy c = last_time default_MaxRetryTimePolicy demo_policies \<and>
      cl_backoffPolicy c = last_backoff default_ExponentialBackoffPolicy demo_policies"
    by (elim exE conjE) (simp only:)
  then show ?thesis by (intro exI [of _ c]) (simp add: d, simp add: demo_policies_def)
qed

end
