(* ===== verification/Programs.thy ===== *)
theory Programs
  imports Clients Refinement
begin

text \<open>
  The public interface of \<open>pubsuber/include/pubsuber/Pubsuber.h\<close> and the programs that use it: the abstract
  classes \<open>Topic\<close>, \<open>Subscription\<close> and \<open>Message\<close> as datatypes of their methods, the calls of these methods
  on the state of \<open>Interleaving\<close>, and the states a program can bring a client to.

  Every call is a sequence of steps of \<open>Interleaving\<close>, so what holds in its reachable states holds for every
  program. A call runs without interruption here; the states in which the threads work between the
  parts of a call are reachable too.
\<close>

section \<open>The interface\<close>

type_synonym ByteBuffer = string

datatype topic_method =
    T_ID
  | T_Name
  | T_Exists
  | T_Create
  | T_Delete
  | T_Publish ByteBuffer "(string \<times> string) list"

datatype subscription_method =
    S_ID
  | S_Name
  | S_Exists
  | S_Create CreationOptions
  | S_Delete
  | S_Receive "callback_ref option"
  | S_Stop

datatype message_method =
    M_Payload
  | M_Attributes
  | M_SubscriptionName
  | M_Ack
  | M_Nack

datatype api_value =
    R_unit
  | R_bool bool
  | R_string string
  | R_attributes "string \<rightharpoonup> string"

section \<open>The accessors\<close>

definition Topic_ID :: "TopicImpl \<Rightarrow> string" where
  "Topic_ID t = entity_id t"

definition Topic_Name :: "TopicImpl \<Rightarrow> string" where
  "Topic_Name t = fullName t"

definition Subscription_ID :: "SubscriptionImpl \<Rightarrow> string" where
  "Subscription_ID s = entity_id s"

definition Subscription_Name :: "SubscriptionImpl \<Rightarrow> string" where
  "Subscription_Name s = fullName s"

section \<open>The calls\<close>

definition returns :: "('a \<Rightarrow> api_value) \<Rightarrow> 'a outcome \<Rightarrow> api_value outcome" where
  "returns f r = map_sum id f r"

text \<open>The operations of a topic change the world only.\<close>

definition on_world :: "('a \<Rightarrow> api_value) \<Rightarrow> conc \<Rightarrow> 'a op_result \<Rightarrow> (api_value outcome \<times> conc) option" where
  "on_world f c res =
     (case res of
        None \<Rightarrow> None
      | Some (r, w) \<Rightarrow> Some (returns f r, with_world w c))"

fun call_topic :: "env \<Rightarrow> TopicImpl \<Rightarrow> topic_method \<Rightarrow> conc \<Rightarrow> (api_value outcome \<times> conc) option" where
  "call_topic E t T_ID c = Some (Inr (R_string (Topic_ID t)), c)"
| "call_topic E t T_Name c = Some (Inr (R_string (Topic_Name t)), c)"
| "call_topic E t T_Exists c = on_world R_bool c (Topic_Exists E t (c_world c))"
| "call_topic E t T_Create c = on_world (\<lambda>_. R_unit) c (Topic_Create E t (c_world c))"
| "call_topic E t T_Delete c = on_world (\<lambda>_. R_unit) c (Topic_Delete E t (c_world c))"
| "call_topic E t (T_Publish buffer attributes) c =
     on_world R_string c (Topic_Publish E t buffer attributes (c_world c))"

text \<open>Those of a subscription change the object too, and two of them the executor, which is alive.\<close>

definition on_object ::
  "('a \<Rightarrow> api_value) \<Rightarrow> conc \<Rightarrow> 'a sub_result \<Rightarrow> (api_value outcome \<times> SubscriptionImpl \<times> conc) option" where
  "on_object f c res =
     (case res of
        None \<Rightarrow> None
      | Some (r, s, w) \<Rightarrow> Some (returns f r, s, with_world w c))"

definition set_executor :: "Executor option \<Rightarrow> conc \<Rightarrow> conc" where
  "set_executor exec c = (case exec of None \<Rightarrow> c | Some ex \<Rightarrow> with_exec (\<lambda>_. ex) c)"

fun call_subscription ::
  "env \<Rightarrow> hist \<Rightarrow> SubscriptionImpl \<Rightarrow> subscription_method \<Rightarrow> conc
    \<Rightarrow> (api_value outcome \<times> SubscriptionImpl \<times> conc) option" where
  "call_subscription E memory s S_ID c = Some (Inr (R_string (Subscription_ID s)), s, c)"
| "call_subscription E memory s S_Name c = Some (Inr (R_string (Subscription_Name s)), s, c)"
| "call_subscription E memory s S_Exists c = on_object R_bool c (Subscription_Exists E s (c_world c))"
| "call_subscription E memory s (S_Create opts) c =
     on_object (\<lambda>_. R_unit) c (Subscription_Create E opts s (c_world c))"
| "call_subscription E memory s S_Delete c = on_object (\<lambda>_. R_unit) c (Subscription_Delete E s (c_world c))"
| "call_subscription E memory s (S_Receive cb) c =
     (case Receive E memory cb s (Some (c_exec c)) (c_world c) of
        None \<Rightarrow> None
      | Some (r, s', exec, w) \<Rightarrow> Some (returns (\<lambda>_. R_unit) r, s', set_executor exec (with_world w c)))"
| "call_subscription E memory s S_Stop c =
     (case Subscription_Stop s (Some (c_exec c)) of
        (r, s', exec) \<Rightarrow> Some (returns (\<lambda>_. R_unit) r, s', set_executor exec c))"

text \<open>The message at position \<open>i\<close> of those the program holds.\<close>

fun call_message :: "env \<Rightarrow> nat \<Rightarrow> message_method \<Rightarrow> conc \<Rightarrow> (api_value outcome \<times> conc) option" where
  "call_message E i M_Payload c =
     (if i < length (c_held c) then Some (Inr (R_string (Payload (c_held c ! i))), c) else None)"
| "call_message E i M_Attributes c =
     (if i < length (c_held c) then Some (Inr (R_attributes (Attributes (c_held c ! i))), c) else None)"
| "call_message E i M_SubscriptionName c =
     (if i < length (c_held c) then Some (Inr (R_string (SubscriptionName (c_held c ! i))), c) else None)"
| "call_message E i M_Ack c = map_option (Pair (Inr R_unit)) (user_done E Ack True i c)"
| "call_message E i M_Nack c = map_option (Pair (Inr R_unit)) (user_done E Nack True i c)"

section \<open>Programs\<close>

text \<open>The state after \<open>Client::Create\<close>: the threads run and nobody holds a message.\<close>

definition client_state :: "Client \<Rightarrow> world \<Rightarrow> conc" where
  "client_state cl w = (initial (exec_options (cl_executor cl)) w)
     \<lparr>c_sys := \<lparr>sy_exec = cl_executor cl, sy_world = w, sy_user = []\<rparr>\<rparr>"

text \<open>
  What a program can do: create its client, call the methods of its topics, subscriptions and messages
  in any order and on any thread, drop messages and subscriptions, sleep, wait while the threads of the
  client work, and destroy the client, whose parts are those of \<open>StopThreads\<close>.
\<close>

inductive program :: "'r spdlog \<Rightarrow> env \<Rightarrow> ClientOptions \<Rightarrow> world \<Rightarrow> conc \<Rightarrow> bool" for lib E opts w where
  created: "Client_Create lib E pull_rest ack_rest opts policies r w = (Inr cl, r', w') \<Longrightarrow>
    program lib E opts w (client_state cl w')"
| threads: "program lib E opts w c \<Longrightarrow> next_state E (PullStep st) c = Some c' \<or> next_state E (AckStep st) c = Some c' \<Longrightarrow>
    program lib E opts w c'"
| topic: "program lib E opts w c \<Longrightarrow> call_topic E t tm c = Some (r, c') \<Longrightarrow> program lib E opts w c'"
| subscription: "program lib E opts w c \<Longrightarrow> length memory = HighLimit \<Longrightarrow>
    call_subscription E memory sub sm c = Some (r, sub', c') \<Longrightarrow> program lib E opts w c'"
| message: "program lib E opts w c \<Longrightarrow> call_message E i mm c = Some (r, c') \<Longrightarrow> program lib E opts w c'"
| dropped: "program lib E opts w c \<Longrightarrow> user_done E Nack False i c = Some c' \<Longrightarrow> program lib E opts w c'"
| unsubscribed: "program lib E opts w c \<Longrightarrow> destroy_SubscriptionImpl sub (Some (c_exec c)) = exec \<Longrightarrow>
    program lib E opts w (set_executor exec c)"
| stopped: "program lib E opts w c \<Longrightarrow> op \<in> {U_StopPull, U_StopAck, U_Clear} \<Longrightarrow> user_next E op c = Some c' \<Longrightarrow>
    program lib E opts w c'"
| slept: "program lib E opts w c \<Longrightarrow> program lib E opts w (with_world (sleep_for E d (c_world c)) c)"

section \<open>Calls are steps\<close>

lemma user_steps: "user_next E op c = Some c' \<Longrightarrow> (step E)\<^sup>*\<^sup>* c c'"
  by (intro r_into_rtranclp step.user)

lemma with_parts [simp]:
  "c_world (with_world w c) = w" "c_exec (with_world w c) = c_exec c" "c_exec (with_exec f c) = f (c_exec c)"
  "c_halves (with_world w c) = c_halves c" "c_held (with_world w c) = c_held c" "with_world (c_world c) c = c" "c_exec c = ex \<Longrightarrow> with_exec (\<lambda>_. ex) c = c"
  by (auto simp: with_world_def with_exec_def c_world_def c_exec_def c_held_def upd_exec_def)

lemma entity_call_truncate: "entity_call E (EntityBase.truncate t) = entity_call E t"
  by (simp add: entity_call_def EntityBase.truncate_def fun_eq_iff)

text \<open>A call that waits for a reply is one step, whatever is made of the reply.\<close>

lemma entity_steps:
  assumes "entity_call E t req (c_world c) = Some (r, w)" and "user_request req"
  shows "(step E)\<^sup>*\<^sup>* c (with_world w c)"
  using assms entity_call_truncate [of E t]
  by (intro user_steps [of E "U_Call (EntityBase.truncate t) req"]) simp

lemma reply_steps:
  assumes "with_reply (entity_call E t req (c_world c)) h = Some (r, w)" and "user_request req"
  shows "(step E)\<^sup>*\<^sup>* c (with_world w c)"
  using assms by (auto simp: with_reply_def split: option.splits sum.splits intro: entity_steps)

lemma object_steps:
  assumes "with_reply_on s (entity_call E s req (c_world c)) h = Some (r, s', w)" and "user_request req"
  shows "(step E)\<^sup>*\<^sup>* c (with_world w c)"
  using with_reply_on_with_reply(1) [OF assms(1)] assms(2) by (rule reply_steps)

lemma call_topic_steps:
  assumes "call_topic E t tm c = Some (r, c')"
  shows "(step E)\<^sup>*\<^sup>* c c'"
proof -
  have world: "(step E)\<^sup>*\<^sup>* c c'" if "on_world f c res = Some (r, c')"
    and "\<And>q w. res = Some (q, w) \<Longrightarrow> (step E)\<^sup>*\<^sup>* c (with_world w c)" for f :: "'x \<Rightarrow> api_value" and res
    using that by (auto simp: on_world_def split: option.splits prod.splits)
  show ?thesis
  proof (cases tm)
    case T_Exists
    with assms show ?thesis by (auto simp: Topic_Exists_def intro!: world reply_steps)
  next
    case T_Create
    with assms show ?thesis by (auto simp: Topic_Create_def intro!: world reply_steps)
  next
    case T_Delete
    with assms show ?thesis by (auto simp: Topic_Delete_def intro!: world reply_steps)
  next
    case (T_Publish b as)
    show ?thesis
    proof (cases "copy_attributes \<lparr>msg_data = b, msg_attributes = []\<rparr> as")
      case (Inl e)
      with T_Publish assms show ?thesis by (simp add: Topic_Publish_def on_world_def)
    next
      case (Inr msg)
      with T_Publish assms show ?thesis by (auto simp: Topic_Publish_def intro!: world reply_steps)
    qed
  qed (use assms in auto)
qed

text \<open>\<open>AddIterator\<close> and \<open>RemoveIterator\<close> are their two halves.\<close>

lemma AddIterator_steps:
  assumes "AddIterator memory n (Some cb) (c_exec c) = (Inr u, ex)" and "length memory = HighLimit"
  shows "(step E)\<^sup>*\<^sup>* c (with_exec (\<lambda>_. ex) c)"
proof -
  obtain p ex1 where pull: "AddIterator_pull memory n (Some cb) (c_exec c) = Inr (p, ex1)"
    and ex: "ex = AddIterator_ack n p ex1"
    using assms(1) by (auto simp: AddIterator_def split: sum.splits)
  let ?c1 = "(with_exec (\<lambda>_. ex1) c)\<lparr>c_halves := AddHalf n p # c_halves c\<rparr>"
  have "step E c ?c1" using pull assms(2) by (intro step.user [of E "U_Add memory n cb"]) simp
  moreover have "step E ?c1 (with_exec (\<lambda>_. ex) c)"
    by (intro step.user [of E "U_Finish 0"]) (simp add: ex finish_half_def with_exec_def upd_exec_def)
  ultimately show ?thesis by (meson converse_rtranclp_into_rtranclp r_into_rtranclp)
qed

lemma RemoveIterator_steps: "(step E)\<^sup>*\<^sup>* c (with_exec (\<lambda>_. RemoveIterator n (c_exec c)) c)"
proof -
  let ?c1 = "(with_exec (upd_pullThread (block_RemoveIterator n)) c)\<lparr>c_halves := RemoveHalf n # c_halves c\<rparr>"
  have "step E c ?c1" by (intro step.user [of E "U_Remove n"]) simp
  moreover have "step E ?c1 (with_exec (\<lambda>_. RemoveIterator n (c_exec c)) c)"
    by (intro step.user [of E "U_Finish 0"])
      (simp add: finish_half_def with_exec_def upd_exec_def RemoveIterator_def c_exec_def)
  ultimately show ?thesis by (meson converse_rtranclp_into_rtranclp r_into_rtranclp)
qed

lemma Exists_steps: "Subscription_Exists E s (c_world c) = Some (r, s', w) \<Longrightarrow> (step E)\<^sup>*\<^sup>* c (with_world w c)"
  by (auto simp: Subscription_Exists_def intro: object_steps)

lemma Receive_steps:
  assumes "Receive E memory cb s (Some (c_exec c)) (c_world c) = Some (r, s', exec, w)" and "length memory = HighLimit"
  shows "(step E)\<^sup>*\<^sup>* c (set_executor exec (with_world w c))"
  using assms(1)
proof (cases rule: Receive_cases)
  case (started s1 ex ex')
  then obtain cbr where cb: "cb = Some cbr" by (auto dest: AddIterator_accepted)
  have "(step E)\<^sup>*\<^sup>* (with_world w c) (with_exec (\<lambda>_. ex') (with_world w c))"
    using started(3,4) assms(2) by (intro AddIterator_steps [of memory "fullName s" cbr _ "()"]) (simp_all add: cb)
  with Exists_steps [OF started(1)] show ?thesis by (simp add: started(7) set_executor_def)
next
  case (refused e r1)
  from Exists_steps [OF refused(1)] show ?thesis by (simp add: refused(3) set_executor_def)
qed

lemma call_subscription_steps:
  assumes "call_subscription E memory s sm c = Some (r, s', c')" and "length memory = HighLimit"
  shows "(step E)\<^sup>*\<^sup>* c c'"
proof -
  have object: "(step E)\<^sup>*\<^sup>* c c'" if "on_object f c res = Some (r, s', c')"
    and "\<And>q t w. res = Some (q, t, w) \<Longrightarrow> (step E)\<^sup>*\<^sup>* c (with_world w c)" for f :: "'x \<Rightarrow> api_value" and res
    using that by (auto simp: on_object_def split: option.splits prod.splits)
  show ?thesis
  proof (cases sm)
    case S_Exists
    with assms show ?thesis by (auto intro!: object Exists_steps)
  next
    case (S_Create opts)
    with assms show ?thesis by (auto simp: Subscription_Create_def intro!: object object_steps)
  next
    case S_Delete
    with assms show ?thesis by (auto simp: Subscription_Delete_def intro!: object object_steps)
  next
    case (S_Receive cb)
    with assms show ?thesis by (auto split: option.splits intro: Receive_steps)
  next
    case S_Stop
    with assms show ?thesis
      by (auto simp: Subscription_Stop_def set_executor_def split: if_splits intro: RemoveIterator_steps)
  qed (use assms in auto)
qed

lemma call_message_steps:
  assumes "call_message E i mm c = Some (r, c')"
  shows "(step E)\<^sup>*\<^sup>* c c'"
proof (cases mm)
  case M_Ack
  with assms show ?thesis by (auto intro: user_steps [of E "U_Ack i"])
next
  case M_Nack
  with assms show ?thesis by (auto intro: user_steps [of E "U_Nack i"])
qed (use assms in \<open>auto split: if_splits\<close>)

lemma client_state_steps:
  assumes "Client_Create lib E pull_rest ack_rest opts policies r w = (Inr cl, r', w')"
  shows "(step E)\<^sup>*\<^sup>* (initial opts w) (client_state cl w')"
  using assms
proof (rule Client_Create_done)
  assume up: "EnsureConnected E w = (True, w')"
    and ex: "cl_executor cl = ApplyPolicies (cl_countPolicy cl) (cl_timePolicy cl) (cl_backoffPolicy cl) (new_Executor opts)"
  let ?c1 = "(initial opts w)\<lparr>c_sys := connect E (c_sys (initial opts w))\<rparr>"
  have "step E (initial opts w) ?c1" by (intro step.user [of E U_Connect]) simp
  moreover have "step E ?c1 (client_state cl w')"
    using up by (intro step.user [of E "U_Policies (cl_countPolicy cl) (cl_timePolicy cl) (cl_backoffPolicy cl)"])
      (simp add: client_state_def ex initial_def connect_def with_exec_def upd_exec_def)
  ultimately show ?thesis by (meson converse_rtranclp_into_rtranclp r_into_rtranclp)
qed

lemma reachable_steps_trans: "reachable E opts w c \<Longrightarrow> (step E)\<^sup>*\<^sup>* c c' \<Longrightarrow> reachable E opts w c'"
  by (rotate_tac, induction rule: rtranclp_induct) (auto intro: reachable.step)

lemma program_reachable: "program lib E opts w c \<Longrightarrow> reachable E opts w c"
proof (induction rule: program.induct)
  case (created pull_rest ack_rest policies r cl r' w')
  then show ?case by (blast intro: reachable_steps_trans reachable.start client_state_steps)
next
  case (threads c st c')
  then show ?case by (blast intro: reachable.step next_state_step)
next
  case (topic c t tm r c')
  then show ?case by (blast intro: reachable_steps_trans call_topic_steps)
next
  case (subscription c memory sub sm r sub' c')
  then show ?case by (blast intro: reachable_steps_trans call_subscription_steps)
next
  case (message c i mm r c')
  then show ?case by (blast intro: reachable_steps_trans call_message_steps)
next
  case (dropped c i c')
  then show ?case by (intro reachable.step [OF dropped.IH step.user [of E "U_Drop i"]]) simp
next
  case (unsubscribed c sub exec)
  then show ?case
    by (auto simp: destroy_SubscriptionImpl_def set_executor_def
        intro: reachable_steps_trans [OF unsubscribed.IH RemoveIterator_steps])
next
  case (stopped c op c')
  then show ?case by (blast intro: reachable.step step.user)
next
  case (slept c d)
  then show ?case by (intro reachable.step [OF slept.IH step.user [of E "U_Sleep d"]]) simp
qed

section \<open>Properties\<close>



end
