(* ===== verification/Example.thy ===== *)
theory Example
  imports Programs
begin

text \<open>
  The program of \<open>example/client.cpp\<close>: it makes a topic and a subscription, publishes \<open>limit\<close> messages,
  answers some of those it received, stops the receiver, and deletes everything again.

  Its main thread is a function on \<open>job\<close>. Before each of its calls the threads of the client make the steps
  that a schedule gives for it. The value is \<open>None\<close> where a call never returns, the process ends in one
  of the other threads, or the schedule has a step that its thread cannot make. What the program logs
  and the pattern of its sink are left out.
\<close>

section \<open>The main thread and the others\<close>

type_synonym schedule = "nat \<Rightarrow> (bool \<times> cv_status) list"

fun thread_action :: "bool \<times> cv_status \<Rightarrow> action" where
  "thread_action (pulls, st) = (if pulls then PullStep st else AckStep st)"

text \<open>What the process has read from the generator of random numbers and written to the standard output.\<close>

record job =
  jb_conc :: conc
  jb_turn :: nat
  jb_sub :: SubscriptionImpl
  jb_draws :: nat
  jb_out :: "bool list"

type_synonym 'a prog = "job \<Rightarrow> ('a outcome \<times> job) option"

definition finish_with :: "'a \<Rightarrow> 'a prog" where
  "finish_with x j = Some (Inr x, j)"

definition and_then :: "'a prog \<Rightarrow> ('a \<Rightarrow> 'b prog) \<Rightarrow> 'b prog" where
  "and_then m f j =
     (case m j of
        None \<Rightarrow> None
      | Some (Inl e, j') \<Rightarrow> Some (Inl e, j')
      | Some (Inr x, j') \<Rightarrow> f x j')"

definition yield :: "env \<Rightarrow> schedule \<Rightarrow> unit prog" where
  "yield E sched j =
     (case run E (map thread_action (sched (jb_turn j))) (jb_conc j) of
        None \<Rightarrow> None
      | Some c \<Rightarrow> Some (Inr (), j\<lparr>jb_conc := c, jb_turn := Suc (jb_turn j)\<rparr>))"

definition on_topic :: "env \<Rightarrow> schedule \<Rightarrow> TopicImpl \<Rightarrow> topic_method \<Rightarrow> api_value prog" where
  "on_topic E sched t m = and_then (yield E sched)
     (\<lambda>_ j. case call_topic E t m (jb_conc j) of
        None \<Rightarrow> None
      | Some (r, c) \<Rightarrow> Some (r, j\<lparr>jb_conc := c\<rparr>))"

definition on_subscription :: "env \<Rightarrow> schedule \<Rightarrow> hist \<Rightarrow> subscription_method \<Rightarrow> api_value prog" where
  "on_subscription E sched memory m = and_then (yield E sched)
     (\<lambda>_ j. case call_subscription E memory (jb_sub j) m (jb_conc j) of
        None \<Rightarrow> None
      | Some (r, s, c) \<Rightarrow> Some (r, j\<lparr>jb_sub := s, jb_conc := c\<rparr>))"

text \<open>A step of the main thread itself.\<close>

definition on_conc :: "(conc \<Rightarrow> conc option) \<Rightarrow> unit prog" where
  "on_conc f j = map_option (\<lambda>c. (Inr (), j\<lparr>jb_conc := c\<rparr>)) (f (jb_conc j))"

definition sleep_main :: "env \<Rightarrow> schedule \<Rightarrow> msecs \<Rightarrow> unit prog" where
  "sleep_main E sched d = and_then (on_conc (\<lambda>c. Some (with_world (sleep_for E d (c_world c)) c))) (\<lambda>_. yield E sched)"

definition print_bool :: "api_value \<Rightarrow> unit prog" where
  "print_bool v j = Some (Inr (), j\<lparr>jb_out := jb_out j @ [v = R_bool True]\<rparr>)"

section \<open>The program\<close>

definition kTopicName :: string where
  "kTopicName = ''mwapi-task%1''"

definition kSubscriptionName :: string where
  "kSubscriptionName = ''mwapi-task-subscription%1''"

text \<open>\<open>dis\<close> is what the distribution over 1 to 4 yields, by the number of the draw.\<close>

definition draw :: "(nat \<Rightarrow> nat) \<Rightarrow> nat prog" where
  "draw dis j = Some (Inr (dis (jb_draws j)), j\<lparr>jb_draws := Suc (jb_draws j)\<rparr>)"

text \<open>
  The newest message is answered and destroyed under the lock of the list. The list may be empty, and
  \<open>back\<close> of an empty list is undefined.
\<close>

definition answer_newest :: "env \<Rightarrow> schedule \<Rightarrow> nat \<Rightarrow> unit prog" where
  "answer_newest E sched cnt = and_then (yield E sched)
     (\<lambda>_ j. if c_held (jb_conc j) = [] then Some (Inl (Undefined ''back of an empty list''), j)
            else and_then (on_conc (user_done E (if cnt mod 2 = 0 then Nack else Ack) True (length (c_held (jb_conc j)) - 1)))
                   (\<lambda>_. on_conc (user_done E Nack False (length (c_held (jb_conc j)) - 1))) j)"

definition publish_round :: "env \<Rightarrow> schedule \<Rightarrow> (nat \<Rightarrow> nat) \<Rightarrow> TopicImpl \<Rightarrow> nat \<Rightarrow> unit prog" where
  "publish_round E sched dis topic cnt =
     and_then (draw dis) (\<lambda>s.
     and_then (sleep_main E sched (1000 * int s)) (\<lambda>_.
     and_then (on_topic E sched topic (T_Publish (''My message'' @ to_string (int cnt))
                 [(''key1'', ''KKK1'' @ to_string (int cnt)), (''key2'', ''KKK2'')])) (\<lambda>_.
     if 10 < cnt then answer_newest E sched cnt else finish_with ())))"

text \<open>\<open>while (count++ < limit)\<close>, with \<open>n\<close> rounds to go.\<close>

fun publish_loop :: "env \<Rightarrow> schedule \<Rightarrow> (nat \<Rightarrow> nat) \<Rightarrow> TopicImpl \<Rightarrow> nat \<Rightarrow> nat \<Rightarrow> unit prog" where
  "publish_loop E sched dis topic 0 cnt = finish_with ()"
| "publish_loop E sched dis topic (Suc n) cnt =
     and_then (publish_round E sched dis topic (Suc cnt)) (\<lambda>_. publish_loop E sched dis topic n (Suc cnt))"

text \<open>The messages that are left, from the first to the last; the loop takes no lock.\<close>

fun ack_messages :: "env \<Rightarrow> nat \<Rightarrow> nat \<Rightarrow> unit prog" where
  "ack_messages E 0 i = finish_with ()"
| "ack_messages E (Suc n) i = and_then (on_conc (user_done E Ack True i)) (\<lambda>_. ack_messages E n (Suc i))"

fun clear_messages :: "env \<Rightarrow> nat \<Rightarrow> unit prog" where
  "clear_messages E 0 = finish_with ()"
| "clear_messages E (Suc n) = and_then (on_conc (user_done E Nack False 0)) (\<lambda>_. clear_messages E n)"

definition make_entities :: "env \<Rightarrow> schedule \<Rightarrow> hist \<Rightarrow> TopicImpl \<Rightarrow> unit prog" where
  "make_entities E sched memory topic =
     and_then (on_topic E sched topic T_Exists) (\<lambda>there.
     and_then (if there = R_bool True then finish_with R_unit else on_topic E sched topic T_Create) (\<lambda>_.
     and_then (on_subscription E sched memory S_Delete) (\<lambda>_.
     and_then (on_subscription E sched memory S_Exists) (\<lambda>there.
     and_then (if there = R_bool True then finish_with R_unit
               else on_subscription E sched memory
                 (S_Create \<lparr>co_fullTopicName = Topic_Name topic, co_ackDeadline = 10\<rparr>)) (\<lambda>_.
     finish_with ())))))"

definition receive_and_publish ::
  "env \<Rightarrow> schedule \<Rightarrow> hist \<Rightarrow> (nat \<Rightarrow> nat) \<Rightarrow> TopicImpl \<Rightarrow> nat \<Rightarrow> unit prog" where
  "receive_and_publish E sched memory dis topic limit =
     and_then (on_topic E sched topic (T_Publish ''My message'' [(''key1'', ''KKK1''), (''key2'', ''KKK2'')])) (\<lambda>_.
     and_then (on_subscription E sched memory (S_Receive (Some 0))) (\<lambda>_.
     and_then (publish_loop E sched dis topic limit 0) (\<lambda>_.
     and_then (on_subscription E sched memory S_Stop) (\<lambda>_.
     and_then (yield E sched) (\<lambda>_ j.
     and_then (ack_messages E (length (c_held (jb_conc j))) 0) (\<lambda>_.
     clear_messages E (length (c_held (jb_conc j)))) j)))))"

definition delete_entities :: "env \<Rightarrow> schedule \<Rightarrow> hist \<Rightarrow> TopicImpl \<Rightarrow> unit prog" where
  "delete_entities E sched memory topic =
     and_then (on_subscription E sched memory S_Delete) (\<lambda>_.
     and_then (and_then (on_subscription E sched memory S_Exists) print_bool) (\<lambda>_.
     and_then (on_topic E sched topic T_Delete) (\<lambda>_.
     and_then (on_topic E sched topic T_Exists) print_bool)))"

definition job_body ::
  "env \<Rightarrow> schedule \<Rightarrow> hist \<Rightarrow> (nat \<Rightarrow> nat) \<Rightarrow> TopicImpl \<Rightarrow> nat \<Rightarrow> unit prog" where
  "job_body E sched memory dis topic limit =
     and_then (make_entities E sched memory topic) (\<lambda>_.
     and_then (receive_and_publish E sched memory dis topic limit) (\<lambda>_.
     and_then (delete_entities E sched memory topic) (\<lambda>_.
     and_then (delete_entities E sched memory topic) (\<lambda>_.
     sleep_main E sched 2000))))"

section \<open>The process\<close>

datatype process_end = Exits int | Dies exn

text \<open>
  Leaving the \<open>try\<close> block destroys the messages, then the subscription, which stops its receiver. The
  callback that the receiver still has refers to the list that is gone; the model ends with the process
  before a thread can use it.
\<close>

definition leave_scope :: "env \<Rightarrow> unit prog" where
  "leave_scope E j =
     and_then (clear_messages E (length (c_held (jb_conc j))))
       (\<lambda>_ j. on_conc (\<lambda>c. Some (set_executor (destroy_SubscriptionImpl (jb_sub j) (Some (c_exec c))) c)) j) j"

text \<open>The destructor of the client; joining a thread that does not end never returns.\<close>

definition close_client :: "env \<Rightarrow> schedule \<Rightarrow> unit prog" where
  "close_client E sched =
     and_then (on_conc (user_next E U_StopPull)) (\<lambda>_.
     and_then (yield E sched) (\<lambda>_.
     and_then (on_conc (user_next E U_StopAck)) (\<lambda>_.
     and_then (yield E sched) (\<lambda>_.
     on_conc (user_next E U_Clear)))))"

definition fails_with :: "exn \<Rightarrow> process_end" where
  "fails_with e = (if caught e then Exits 1 else Dies e)"

definition job_options :: "sink_ref \<Rightarrow> sink_ref \<Rightarrow> string \<Rightarrow> ClientOptions" where
  "job_options msink sink project =
     SetLogLevel debug (SetLogSink (Some sink) (SetMetricSink (Some msink) (CreateDefault project)))"

definition job_policies :: "policy list" where
  "job_policies =
     [TimePolicy \<lparr>policy_interval = 30\<rparr>, CountPolicy \<lparr>policy_count = 4\<rparr>,
      BackoffPolicy \<lparr>initialDelay = 250, maxDelay = 3000, scale = Dbl 2 0\<rparr>]"

definition job_start :: "Client \<Rightarrow> SubscriptionImpl \<Rightarrow> world \<Rightarrow> job" where
  "job_start cl sub w = \<lparr>jb_conc = client_state cl w, jb_turn = 0, jb_sub = sub, jb_draws = 0, jb_out = []\<rparr>"

definition run_job ::
  "env \<Rightarrow> schedule \<Rightarrow> hist \<Rightarrow> (nat \<Rightarrow> nat) \<Rightarrow> TopicImpl \<Rightarrow> nat \<Rightarrow> job \<Rightarrow> (process_end option \<times> job) option" where
  "run_job E sched memory dis topic limit j =
     (case job_body E sched memory dis topic limit j of
        None \<Rightarrow> None
      | Some (Inr u, j1) \<Rightarrow>
          map_option (\<lambda>(r, j2). (None, j2)) (and_then (leave_scope E) (\<lambda>_. close_client E sched) j1)
      | Some (Inl e, j1) \<Rightarrow>
          if caught e then map_option (\<lambda>(r, j2). (Some (Exits 1), j2)) (leave_scope E j1)
          else Some (Some (Dies e), j1))"

text \<open>The result: how the process ended, or \<open>None\<close> for a normal return; and what it came to, if it had a client.\<close>

definition DoTheJob ::
  "'r spdlog \<Rightarrow> env \<Rightarrow> schedule \<Rightarrow> hist \<Rightarrow> (nat \<Rightarrow> nat) \<Rightarrow> sink_ref \<Rightarrow> sink_ref \<Rightarrow> nat \<Rightarrow> string \<Rightarrow> 'r \<Rightarrow> world
    \<Rightarrow> (process_end option \<times> job option) option" where
  "DoTheJob lib E sched memory dis msink sink limit project r w =
     (case Client_Create lib E id id (job_options msink sink project) job_policies r w of
        (Inl (e, ex), r1, w1) \<Rightarrow> Some (Some (fails_with e), None)
      | (Inr cl, r1, w1) \<Rightarrow>
          (case Client_SetLogLevel lib debug r1 of
             Inl e \<Rightarrow> Some (Some (fails_with e), None)
           | Inr r2 \<Rightarrow>
          (case GetTopic kTopicName [] cl of
             Inl e \<Rightarrow> Some (Some (fails_with e), None)
           | Inr topic \<Rightarrow>
          (case GetSubscription kSubscriptionName [] cl of
             Inl e \<Rightarrow> Some (Some (fails_with e), None)
           | Inr sub \<Rightarrow>
               map_option (map_prod id Some) (run_job E sched memory dis topic limit (job_start cl sub w1))))))"

text \<open>\<open>atoi\<close>, and the conversion of its result to the \<open>uint32_t\<close> parameter.\<close>

definition digit_value :: "char \<Rightarrow> int" where
  "digit_value ch = int (of_char ch) - 48"

fun digits_value :: "int \<Rightarrow> string \<Rightarrow> int" where
  "digits_value acc [] = acc"
| "digits_value acc (ch # s) =
     (if 0 \<le> digit_value ch \<and> digit_value ch \<le> 9 then digits_value (10 * acc + digit_value ch) s else acc)"

fun atoi :: "string \<Rightarrow> int" where
  "atoi [] = 0"
| "atoi (ch # s) =
     (if of_char ch = (32 :: nat) \<or> of_char ch \<in> {9 ..< 14 :: nat} then atoi s
      else if ch = CHR ''-'' then - digits_value 0 s
      else if ch = CHR ''+'' then digits_value 0 s
      else digits_value 0 (ch # s))"

definition run_limit :: "string \<Rightarrow> nat outcome" where
  "run_limit arg =
     (if - (2 ^ 31) \<le> atoi arg \<and> atoi arg < 2 ^ 31 then Inr (unat (word_of_int (atoi arg) :: u32))
      else Inl (Undefined ''atoi out of range''))"

definition example_main ::
  "'r spdlog \<Rightarrow> env \<Rightarrow> schedule \<Rightarrow> hist \<Rightarrow> (nat \<Rightarrow> nat) \<Rightarrow> sink_ref \<Rightarrow> sink_ref \<Rightarrow> string list \<Rightarrow> 'r \<Rightarrow> world
    \<Rightarrow> (process_end \<times> job option) option" where
  "example_main lib E sched memory dis msink sink argv r w =
     (if length argv < 3 then Some (Exits 1, None)
      else case run_limit (argv ! 1) of
             Inl e \<Rightarrow> Some (Dies e, None)
           | Inr limit \<Rightarrow>
               map_option (map_prod (\<lambda>res. case res of None \<Rightarrow> Exits 0 | Some x \<Rightarrow> x) id)
                 (DoTheJob lib E sched memory dis msink sink limit (argv ! 2) r w))"

section \<open>What the calls keep\<close>

definition keeps :: "(conc \<Rightarrow> bool) \<Rightarrow> 'a prog \<Rightarrow> bool" where
  "keeps P m \<longleftrightarrow> (\<forall>j r j'. m j = Some (r, j') \<longrightarrow> P (jb_conc j) \<longrightarrow> P (jb_conc j'))"

lemma keepsI: "(\<And>j r j'. m j = Some (r, j') \<Longrightarrow> P (jb_conc j) \<Longrightarrow> P (jb_conc j')) \<Longrightarrow> keeps P m"
  unfolding keeps_def by blast

lemma keepsD: "keeps P m \<Longrightarrow> m j = Some (r, j') \<Longrightarrow> P (jb_conc j) \<Longrightarrow> P (jb_conc j')"
  unfolding keeps_def by blast

lemma keeps_finish [simp, intro]: "keeps P (finish_with x)" "keeps P (draw dis)" "keeps P (print_bool v)"
  by (auto intro!: keepsI simp: finish_with_def draw_def print_bool_def)

lemma keeps_and_then [intro]:
  assumes "keeps P m" and "\<And>x. keeps P (f x)"
  shows "keeps P (and_then m f)"
proof (rule keepsI)
  fix j r j'
  assume "and_then m f j = Some (r, j')" and P: "P (jb_conc j)"
  then consider (failed) e where "m j = Some (Inl e, j')" | (went_on) x j1 where "m j = Some (Inr x, j1)" "f x j1 = Some (r, j')"
    by (auto simp: and_then_def split: option.splits sum.splits)
  then show "P (jb_conc j')"
    by cases (auto intro: keepsD [OF assms(1) _ P] keepsD [OF assms(2)])
qed

lemma keeps_on_conc: "(\<And>c c'. f c = Some c' \<Longrightarrow> P c \<Longrightarrow> P c') \<Longrightarrow> keeps P (on_conc f)"
  by (auto intro!: keepsI simp: on_conc_def)

text \<open>A function of the state that passes it on as a program for each state.\<close>

lemma keeps_state: "(\<And>j0. keeps P (f j0)) \<Longrightarrow> keeps P (\<lambda>j. f j j)"
  unfolding keeps_def by blast

text \<open>
  The contract between the operations of the library and a program: what each of them, and each step
  of the threads, keeps.
\<close>

locale api_invariant =
  fixes E :: env and P :: "conc \<Rightarrow> bool"
  assumes thread_keeps: "next_state E (thread_action th) c = Some c' \<Longrightarrow> P c \<Longrightarrow> P c'"
    and topic_keeps: "call_topic E t tm c = Some (r, c') \<Longrightarrow> P c \<Longrightarrow> P c'"
    and subscription_keeps: "call_subscription E memory s sm c = Some (r, s', c') \<Longrightarrow> length memory = HighLimit \<Longrightarrow>
      P c \<Longrightarrow> P c'"
    and answer_keeps: "user_done E a True i c = Some c' \<Longrightarrow> P c \<Longrightarrow> P c'"
    and drop_keeps: "user_done E Nack False i c = Some c' \<Longrightarrow> P c \<Longrightarrow> P c'"
    and unsubscribe_keeps: "P c \<Longrightarrow> P (set_executor (destroy_SubscriptionImpl s (Some (c_exec c))) c)"
    and stop_keeps: "op \<in> {U_StopPull, U_StopAck, U_Clear} \<Longrightarrow> user_next E op c = Some c' \<Longrightarrow> P c \<Longrightarrow> P c'"
    and sleep_keeps: "P c \<Longrightarrow> P (with_world (sleep_for E d (c_world c)) c)"
begin

lemma run_keeps: "run E (map thread_action as) c = Some c' \<Longrightarrow> P c \<Longrightarrow> P c'"
  by (induction as arbitrary: c) (auto split: option.splits dest: thread_keeps)

lemma yield_keeps [simp, intro]: "keeps P (yield E sched)"
  by (auto intro!: keepsI simp: yield_def split: option.splits dest: run_keeps)

lemma on_topic_keeps [simp, intro]: "keeps P (on_topic E sched t m)"
  unfolding on_topic_def
  by (intro keeps_and_then yield_keeps keepsI) (auto split: option.splits, erule (1) topic_keeps)

lemma on_subscription_keeps [simp, intro]: "length memory = HighLimit \<Longrightarrow> keeps P (on_subscription E sched memory m)"
  unfolding on_subscription_def
  by (intro keeps_and_then yield_keeps keepsI) (auto split: option.splits, erule (2) subscription_keeps)

lemma sleep_main_keeps [simp, intro]: "keeps P (sleep_main E sched d)"
  unfolding sleep_main_def by (intro keeps_and_then keeps_on_conc yield_keeps) (auto intro: sleep_keeps)

lemma answer_newest_keeps [simp, intro]: "keeps P (answer_newest E sched cnt)"
  unfolding answer_newest_def
proof (intro keeps_and_then yield_keeps keepsI)
  fix x :: unit and j :: job and r j'
  let ?last = "length (c_held (jb_conc j)) - 1"
  let ?m = "and_then (on_conc (user_done E (if cnt mod 2 = 0 then Nack else Ack) True ?last))
    (\<lambda>_. on_conc (user_done E Nack False ?last))"
  have m: "keeps P ?m" by (intro keeps_and_then keeps_on_conc) (auto intro: answer_keeps drop_keeps)
  assume "(if c_held (jb_conc j) = [] then Some (Inl (Undefined ''back of an empty list''), j) else ?m j) = Some (r, j')"
    and "P (jb_conc j)"
  then show "P (jb_conc j')" by (auto split: if_splits intro: keepsD [OF m])
qed

lemma publish_round_keeps [simp, intro]: "keeps P (publish_round E sched dis topic cnt)"
  unfolding publish_round_def by (intro keeps_and_then) auto

lemma publish_loop_keeps [simp, intro]: "keeps P (publish_loop E sched dis topic n cnt)"
  by (induction n arbitrary: cnt) auto

lemma ack_messages_keeps [simp, intro]: "keeps P (ack_messages E n i)"
  by (induction n arbitrary: i) (auto intro!: keeps_on_conc intro: answer_keeps)

lemma clear_messages_keeps [simp, intro]: "keeps P (clear_messages E n)"
  by (induction n) (auto intro!: keeps_on_conc intro: drop_keeps)

lemma make_entities_keeps: "length memory = HighLimit \<Longrightarrow> keeps P (make_entities E sched memory topic)"
  unfolding make_entities_def by (intro keeps_and_then) auto

lemma job_body_keeps:
  assumes "length memory = HighLimit"
  shows "keeps P (job_body E sched memory dis topic limit)"
proof -
  note made = make_entities_keeps [OF assms]
  have deleted: "keeps P (delete_entities E sched memory topic)"
    unfolding delete_entities_def using assms by (intro keeps_and_then) auto
  have rest: "keeps P (\<lambda>j. and_then (ack_messages E (length (c_held (jb_conc j))) 0)
      (\<lambda>_. clear_messages E (length (c_held (jb_conc j)))) j)"
    by (rule keeps_state [where f = "\<lambda>j. and_then (ack_messages E (length (c_held (jb_conc j))) 0)
        (\<lambda>_. clear_messages E (length (c_held (jb_conc j))))"]) (intro keeps_and_then; simp)
  have "keeps P (receive_and_publish E sched memory dis topic limit)"
    unfolding receive_and_publish_def using assms rest by (intro keeps_and_then) auto
  with made deleted show ?thesis unfolding job_body_def by (intro keeps_and_then) auto
qed

lemma leave_scope_keeps: "keeps P (leave_scope E)"
proof -
  have "keeps P (\<lambda>j. on_conc (\<lambda>c. Some (set_executor (destroy_SubscriptionImpl (jb_sub j) (Some (c_exec c))) c)) j)"
    by (rule keeps_state [where f = "\<lambda>j. on_conc (\<lambda>c. Some (set_executor
        (destroy_SubscriptionImpl (jb_sub j) (Some (c_exec c))) c))"])
      (intro keeps_on_conc, auto intro: unsubscribe_keeps)
  then have "keeps P (and_then (clear_messages E n)
      (\<lambda>_ j. on_conc (\<lambda>c. Some (set_executor (destroy_SubscriptionImpl (jb_sub j) (Some (c_exec c))) c)) j))" for n
    by (intro keeps_and_then clear_messages_keeps)
  then show ?thesis
    unfolding leave_scope_def by (rule keeps_state [where f = "\<lambda>j. and_then (clear_messages E (length (c_held (jb_conc j))))
       (\<lambda>_ j. on_conc (\<lambda>c. Some (set_executor (destroy_SubscriptionImpl (jb_sub j) (Some (c_exec c))) c)) j)"])
qed

lemma close_client_keeps: "keeps P (close_client E sched)"
  unfolding close_client_def
  by (intro keeps_and_then keeps_on_conc yield_keeps; rule stop_keeps; (assumption | simp))

lemma run_job_keeps:
  assumes "run_job E sched memory dis topic limit j = Some (res, j')" and "length memory = HighLimit" and "P (jb_conc j)"
  shows "P (jb_conc j')"
proof -
  obtain r j1 where body: "job_body E sched memory dis topic limit j = Some (r, j1)"
    using assms(1) by (auto simp: run_job_def split: option.splits)
  have P1: "P (jb_conc j1)" using keepsD [OF job_body_keeps [OF assms(2)] body assms(3)] .
  have closed: "keeps P (and_then (leave_scope E) (\<lambda>_. close_client E sched))"
    by (intro keeps_and_then leave_scope_keeps close_client_keeps)
  from assms(1) body P1 show ?thesis
    by (auto simp: run_job_def split: sum.splits if_splits intro: keepsD [OF closed] keepsD [OF leave_scope_keeps])
qed

end

section \<open>Every state of the job is one of a program\<close>

lemma thread_program: "program lib E opts w c \<Longrightarrow> next_state E (thread_action th) c = Some c' \<Longrightarrow> program lib E opts w c'"
  by (cases th) (auto intro: program.threads split: if_splits)

interpretation example: api_invariant E "program lib E opts w" for lib :: "'r spdlog" and E opts w
proof (unfold_locales, goal_cases)
  case (4 a i c c')
  have "\<exists>r. call_message E i (case a of Ack \<Rightarrow> M_Ack | Nack \<Rightarrow> M_Nack) c = Some (r, c')"
    using 4(1) by (cases a) simp_all
  with 4(2) show ?case by (blast intro: program.message)
qed (blast intro: thread_program program.topic program.subscription program.dropped program.unsubscribed program.stopped
    program.slept)+

section \<open>A service without messages\<close>

text \<open>Nothing was received and nothing is about to be delivered.\<close>

definition no_mail :: "conc \<Rightarrow> bool" where
  "no_mail c \<longleftrightarrow> c_held c = [] \<and>
     (case c_pull c of
        P_Watch start it now msgs vec todo \<Rightarrow> msgs = [] \<and> vec = []
      | P_Deliver start ms todo \<Rightarrow> ms = []
      | _ \<Rightarrow> True)"

definition silent :: "env \<Rightarrow> bool" where
  "silent E \<longleftrightarrow> (\<forall>evs n k b t. resp_received_messages (rep_response (e_server E evs (PullRequest n k b) t)) = [])"

lemma no_mailI: "no_mail c \<Longrightarrow> c_held c' = c_held c \<Longrightarrow> c_pull c' = c_pull c \<Longrightarrow> no_mail c'"
  by (simp add: no_mail_def)

lemma pull_call_silent:
  "silent E \<Longrightarrow> pull_call E it w = (Inr (msgs, now), w') \<Longrightarrow> msgs = []"
  by (auto simp: pull_call_def rpc_call_def pull_request_def silent_def Let_def
      split: option.splits if_splits prod.splits)

lemma pull_next_no_mail:
  assumes "pull_next E st (c_pull c) c = Some c'" and "no_mail c" and "silent E"
  shows "no_mail c'"
  using assms
  by (cases "(E, st, c_pull c, c)" rule: pull_next.cases)
    (auto simp: no_mail_def Let_def conc_simps connect_def dest: pull_call_silent
      split: if_splits sum.splits prod.splits)

lemma ack_next_no_mail:
  assumes "ack_next E st (c_ack c) c = Some c'" and "no_mail c"
  shows "no_mail c'"
  using assms
  by (cases "(E, st, c_ack c, c)" rule: ack_next.cases)
    (auto simp: no_mail_def Let_def conc_simps connect_def split: if_splits sum.splits prod.splits option.splits)

lemma call_topic_frame:
  "call_topic E t tm c = Some (r, c') \<Longrightarrow> c_held c' = c_held c \<and> c_pull c' = c_pull c"
  by (cases tm) (auto simp: on_world_def conc_simps split: option.splits)

lemma set_executor_frame [simp]: "c_held (set_executor exec c) = c_held c" "c_pull (set_executor exec c) = c_pull c"
  by (simp_all add: set_executor_def conc_simps split: option.split)

lemma call_subscription_frame:
  "call_subscription E memory s sm c = Some (r, s', c') \<Longrightarrow> c_held c' = c_held c \<and> c_pull c' = c_pull c"
  by (cases sm) (auto simp: on_object_def conc_simps Let_def split: option.splits prod.splits, auto simp: set_executor_def conc_simps split: option.splits)

lemma user_done_no_mail: "no_mail c \<Longrightarrow> user_done E a keep i c = None"
  by (simp add: no_mail_def user_done_def)

interpretation mailless: api_invariant E "\<lambda>c. silent E \<longrightarrow> no_mail c" for E
proof (unfold_locales, goal_cases)
  case (1 th c c')
  then show ?case by (cases th) (auto split: if_splits dest: pull_next_no_mail ack_next_no_mail)
next
  case (2 t tm c r c')
  then show ?case using call_topic_frame [OF 2(1)] by (auto intro: no_mailI)
next
  case (3 memory s sm c r s' c')
  then show ?case using call_subscription_frame [OF 3(1)] by (auto intro: no_mailI)
next
  case (4 a i c c')
  then show ?case using user_done_no_mail [of c E a True i] by auto
next
  case (5 i c c')
  then show ?case using user_done_no_mail [of c E Nack False i] by auto
next
  case (6 c s)
  then show ?case by (auto intro: no_mailI)
next
  case (7 op c c')
  then show ?case by (auto simp: no_mail_def conc_simps split: if_splits)
next
  case (8 c d)
  then show ?case by (auto simp: no_mail_def conc_simps)
qed

lemma and_then_done:
  assumes "and_then m f j = Some (Inr y, j')"
  obtains x j1 where "m j = Some (Inr x, j1)" and "f x j1 = Some (Inr y, j')"
  using assms by (auto simp: and_then_def split: option.splits sum.splits)

lemma answer_newest_needs_mail:
  assumes "silent E" and "no_mail (jb_conc j)"
  shows "answer_newest E sched cnt j \<noteq> Some (Inr u, j')"
proof
  assume "answer_newest E sched cnt j = Some (Inr u, j')"
  then obtain j1 where "yield E sched j = Some (Inr (), j1)" and "c_held (jb_conc j1) \<noteq> []"
    unfolding answer_newest_def by (elim and_then_done) (auto split: if_splits)
  with keepsD [OF mailless.yield_keeps] assms show False by (fastforce simp: no_mail_def)
qed

lemma publish_loop_needs_mail:
  assumes "silent E" and "no_mail (jb_conc j)" and "cnt \<le> 10" and "10 < cnt + n"
  shows "publish_loop E sched dis topic n cnt j \<noteq> Some (Inr u, j')"
  using assms
proof (induction n arbitrary: cnt j)
  case 0
  then show ?case by simp
next
  case (Suc n)
  show ?case
  proof
    assume "publish_loop E sched dis topic (Suc n) cnt j = Some (Inr u, j')"
    then obtain j1 where round: "publish_round E sched dis topic (Suc cnt) j = Some (Inr (), j1)"
      and rest: "publish_loop E sched dis topic n (Suc cnt) j1 = Some (Inr u, j')"
      by (auto elim: and_then_done)
    have mail: "no_mail (jb_conc j1)" using keepsD [OF mailless.publish_round_keeps round] Suc.prems by simp
    show False
    proof (cases "cnt = 10")
      case False
      with Suc.IH [OF Suc.prems(1) mail, of "Suc cnt"] Suc.prems rest show False by simp
    next
      case True
      have keep: "keeps (\<lambda>c. silent E \<longrightarrow> no_mail c) m \<Longrightarrow> m i = Some (r, i') \<Longrightarrow> no_mail (jb_conc i) \<Longrightarrow> no_mail (jb_conc i')"
        for m :: "'x prog" and i r i'
        using keepsD [of "\<lambda>c. silent E \<longrightarrow> no_mail c" m i r i'] Suc.prems(1) by simp
      from round True obtain s i1 i2 v i3 where "draw dis j = Some (Inr s, i1)"
        and "sleep_main E sched (1000 * int s) i1 = Some (Inr (), i2)"
        and "on_topic E sched topic (T_Publish (''My message'' @ to_string (int (Suc cnt)))
               [(''key1'', ''KKK1'' @ to_string (int (Suc cnt))), (''key2'', ''KKK2'')]) i2 = Some (Inr v, i3)"
        and last: "answer_newest E sched (Suc cnt) i3 = Some (Inr (), j1)"
        unfolding publish_round_def by (elim and_then_done) simp
      then have "no_mail (jb_conc i3)"
        using Suc.prems(2) by (meson keep keeps_finish(2) mailless.sleep_main_keeps mailless.on_topic_keeps)
      with answer_newest_needs_mail [OF Suc.prems(1)] last show False by blast
    qed
  qed
qed

lemma DoTheJob_client:
  assumes "DoTheJob lib E sched memory dis msink sink limit project r w = Some (res, Some j)"
  obtains cl r1 w1 topic sub where
    "Client_Create lib E id id (job_options msink sink project) job_policies r w = (Inr cl, r1, w1)"
    and "run_job E sched memory dis topic limit (job_start cl sub w1) = Some (res, j)"
  using assms by (auto simp: DoTheJob_def split: prod.splits sum.splits)

lemma job_options_executor: "exec_options (cl_executor cl) = opts" if
  "Client_Create lib E pull_rest ack_rest opts policies r w = (Inr cl, r1, w1)"
  using that
proof (rule Client_Create_done)
  assume "cl_executor cl = ApplyPolicies (cl_countPolicy cl) (cl_timePolicy cl) (cl_backoffPolicy cl) (new_Executor opts)"
  then show ?thesis by (simp add: ApplyPolicies_def new_Executor_def Let_def)
qed

text \<open>A normal return has been through the whole loop.\<close>

lemma run_job_returned:
  assumes "run_job E sched memory dis topic limit j = Some (None, j')" and "length memory = HighLimit"
    and "silent E" and "no_mail (jb_conc j)"
  obtains i i' where "no_mail (jb_conc i)" and "publish_loop E sched dis topic limit 0 i = Some (Inr (), i')"
proof -
  have keep: "keeps (\<lambda>c. silent E \<longrightarrow> no_mail c) m \<Longrightarrow> m k = Some (r, k') \<Longrightarrow> no_mail (jb_conc k) \<Longrightarrow> no_mail (jb_conc k')"
    for m :: "'x prog" and k r k'
    using keepsD [of "\<lambda>c. silent E \<longrightarrow> no_mail c" m k r k'] assms(3) by simp
  obtain u j1 where "job_body E sched memory dis topic limit j = Some (Inr u, j1)"
    using assms(1) by (auto simp: run_job_def split: option.splits sum.splits if_splits)
  then obtain j2 j3 where made: "make_entities E sched memory topic j = Some (Inr (), j2)"
    and "receive_and_publish E sched memory dis topic limit j2 = Some (Inr (), j3)"
    unfolding job_body_def by (elim and_then_done) simp
  then obtain v v' i0 i i' where pub: "on_topic E sched topic (T_Publish ''My message'' [(''key1'', ''KKK1''), (''key2'', ''KKK2'')]) j2 =
        Some (Inr v, i0)" and recv: "on_subscription E sched memory (S_Receive (Some 0)) i0 = Some (Inr v', i)"
    and loop: "publish_loop E sched dis topic limit 0 i = Some (Inr (), i')"
    unfolding receive_and_publish_def by (elim and_then_done) simp
  have "keeps (\<lambda>c. silent E \<longrightarrow> no_mail c) (make_entities E sched memory topic)"
    by (rule mailless.make_entities_keeps [OF assms(2)])
  from keep [OF this made assms(4)] have "no_mail (jb_conc j2)" .
  from keep [OF mailless.on_topic_keeps pub this] have "no_mail (jb_conc i0)" .
  from keep [OF mailless.on_subscription_keeps [OF assms(2)] recv this] loop show thesis by (rule that)
qed

lemma no_mail_start: "no_mail (jb_conc (job_start cl sub w))"
  by (simp add: no_mail_def job_start_def client_state_def initial_def c_held_def)

section \<open>An example run\<close>

text \<open>The service refuses to make the topic, so the job ends with the exception.\<close>

definition refused_run :: "(process_end option \<times> job option) option" where
  "refused_run = DoTheJob demo_spdlog (demo_env missing_server) (\<lambda>_. []) (replicate HighLimit 0) (\<lambda>_. 1) 0 1 11 ''p''
     Map.empty demo_world"

lemma missing_call:
  assumes "0 < policy_interval (entity_timePolicy t)" and "0 \<le> w_time w" and "w_time w < 2 ^ 61"
  shows "\<exists>w'. entity_call (demo_env missing_server) t req w = Some (Inr (demo_reply NOT_FOUND [] [], w_time w + 4000), w') \<and>
    w_time w' = w_time w + 5000"
  using assms demo_answered_by [of missing_server "snd (EnsureConnected (demo_env missing_server) w)" req
      "demo_reply NOT_FOUND [] []" "entity_timePolicy t" "entity_countPolicy t" "entity_backoffPolicy t"]
  by (simp add: entity_call_def EnsureConnected_def Let_def missing_server_def retryable_def kDefaultRPCTimeout_def)

lemma refused_entities:
  assumes "0 < policy_interval (entity_timePolicy topic)" and "w_time (c_world (jb_conc j)) = 1000"
  shows "\<exists>e j'. make_entities (demo_env missing_server) (\<lambda>_. []) memory topic j = Some (Inl e, j') \<and> caught e \<and>
    c_held (jb_conc j') = c_held (jb_conc j)"
proof -
  let ?E = "demo_env missing_server"
  from missing_call [OF assms(1), of "c_world (jb_conc j)" "GetTopicRequest (fullName topic)"] assms(2)
  obtain w1 where w1: "entity_call ?E topic (GetTopicRequest (fullName topic)) (c_world (jb_conc j)) =
      Some (Inr (demo_reply NOT_FOUND [] [], 5000), w1)" "w_time w1 = 6000" by auto
  from missing_call [OF assms(1), of w1 "CreateTopicRequest (fullName topic)"] w1(2)
  obtain w2 where w2: "entity_call ?E topic (CreateTopicRequest (fullName topic)) w1 =
      Some (Inr (demo_reply NOT_FOUND [] [], 10000), w2)" by auto
  show ?thesis
    using w1(1) w2
    by (simp add: make_entities_def and_then_def on_topic_def yield_def Topic_Exists_def with_reply_def on_world_def
        returns_def Topic_Create_def status_ok_def request_failed_def)
qed

lemma refused_client:
  obtains cl r1 where "Client_Create demo_spdlog (demo_env missing_server) id id (job_options 0 1 ''p'') job_policies
      Map.empty demo_world = (Inr cl, r1, snd (EnsureConnected (demo_env missing_server) demo_world))"
    and "cl_timePolicy cl = \<lparr>policy_interval = 30\<rparr>" and "r1 logger_name \<noteq> None"
proof -
  let ?c = "Client_Create demo_spdlog (demo_env missing_server) id id (job_options 0 1 ''p'') job_policies Map.empty demo_world"
  have "fst ?c = Inr (projr (fst ?c)) \<and> fst (snd ?c) logger_name \<noteq> None"
    by (simp add: Client_Create_def construct_Client_def new_Client_def construct_Executor_def
        SetupLogger_def Setup_def ChangeLevel_def demo_spdlog_def logger_name_def CreateDefault_def new_ClientOptions_def
        DefaultPubsubHost_def EnsureConnected_def job_policies_def job_options_def SetLogLevel_def SetLogSink_def
        SetMetricSink_def Let_def)
  then obtain cl r1 w1 where c: "?c = (Inr cl, r1, w1)" and log: "r1 logger_name \<noteq> None"
    by (cases ?c) auto
  have w1: "w1 = snd (EnsureConnected (demo_env missing_server) demo_world)" using c by (rule Client_Create_done) simp
  have tp: "cl_timePolicy cl = \<lparr>policy_interval = 30\<rparr>" using c by (rule Client_Create_done) (simp add: job_policies_def)
  show thesis using that [OF c [unfolded w1] tp log] .
qed

lemma refused_run_done: "\<exists>j. refused_run = Some (Some (Exits 1), Some j)"
proof -
  obtain cl r1 where cl: "Client_Create demo_spdlog (demo_env missing_server) id id (job_options 0 1 ''p'') job_policies
      Map.empty demo_world = (Inr cl, r1, snd (EnsureConnected (demo_env missing_server) demo_world))"
    and tp: "cl_timePolicy cl = \<lparr>policy_interval = 30\<rparr>" and log: "r1 logger_name \<noteq> None"
    by (rule refused_client)
  obtain r2 where r2: "Client_SetLogLevel demo_spdlog debug r1 = Inr r2"
    using log by (auto simp: Client_SetLogLevel_def ChangeLevel_def demo_spdlog_def)
  obtain topic where topic: "GetTopic kTopicName [] cl = Inr topic" "entity_timePolicy topic = cl_timePolicy cl"
    by (simp add: GetTopic_def kTopicName_def new_TopicImpl_def)
  obtain sub where sub: "GetSubscription kSubscriptionName [] cl = Inr sub" "\<not> receiverActive sub"
    by (simp add: GetSubscription_def kSubscriptionName_def new_SubscriptionImpl_def)
  let ?j = "job_start cl sub (snd (EnsureConnected (demo_env missing_server) demo_world))"
  have "w_time (c_world (jb_conc ?j)) = 1000"
    by (simp add: job_start_def client_state_def c_world_def EnsureConnected_def Let_def)
  then obtain e j1 where made: "make_entities (demo_env missing_server) (\<lambda>_. []) (replicate HighLimit 0) topic ?j = Some (Inl e, j1)"
    and e: "caught e" and held: "c_held (jb_conc j1) = []"
    using refused_entities [of topic ?j "replicate HighLimit 0"] topic(2) tp
    by (auto simp: job_start_def client_state_def c_held_def)
  have "\<exists>j2. leave_scope (demo_env missing_server) j1 = Some (Inr (), j2)"
    by (simp add: leave_scope_def and_then_def held finish_with_def on_conc_def)
  then have "\<exists>j2. run_job (demo_env missing_server) (\<lambda>_. []) (replicate HighLimit 0) (\<lambda>_. 1) topic 11 ?j = Some (Some (Exits 1), j2)"
    using made e by (auto simp: run_job_def job_body_def and_then_def)
  then show ?thesis
    using cl r2 topic(1) sub(1) by (auto simp: refused_run_def DoTheJob_def)
qed

section \<open>Properties\<close>

text \<open>
  Whatever the service does and however the threads are scheduled, the state the example has come to when
  its function ends is one that a program can bring the library to by its public interface, and so one
  of the reachable states of the threads and the user.
\<close>

lemma example_is_a_program:
  assumes "DoTheJob lib E sched memory dis msink sink limit project r w = Some (res, Some j)"
    and "length memory = HighLimit"
  shows "program lib E (job_options msink sink project) w (jb_conc j) \<and>
    reachable E (job_options msink sink project) w (jb_conc j)"
proof -
  obtain cl r1 w1 topic sub where
    cl: "Client_Create lib E id id (job_options msink sink project) job_policies r w = (Inr cl, r1, w1)"
    and run: "run_job E sched memory dis topic limit (job_start cl sub w1) = Some (res, j)"
    using assms(1) by (rule DoTheJob_client)
  have "program lib E (job_options msink sink project) w (jb_conc (job_start cl sub w1))"
    using program.created [OF cl] by (simp add: job_start_def)
  with example.run_job_keeps [OF run assms(2)] show ?thesis by (blast intro: program_reachable)
qed

lemma example_is_a_program_refused:
  "\<exists>j. refused_run = Some (Some (Exits 1), Some j) \<and>
    reachable (demo_env missing_server) (job_options 0 1 ''p'') demo_world (jb_conc j)"
proof -
  obtain j where j: "refused_run = Some (Some (Exits 1), Some j)" using refused_run_done ..
  from example_is_a_program [OF j [unfolded refused_run_def] length_replicate] j show ?thesis by blast
qed



end
