(* ===== verification/UnitTests.thy ===== *)
theory UnitTests
  imports Batches
begin

text \<open>
  The unit tests of \<open>pubsuber/tests\<close> as functions: each takes the random strings it draws and says whether
  its expectations hold. The tests of the algorithms pass for all strings (an even number of distinct ones for
  the two that send pairs), those of calls that are answered for every prompt clock, and the others, whose
  delays are random, when every draw is the mean.
\<close>

section \<open>FunctionsTest.cpp\<close>

text \<open>
  The containers a test fills: \<open>from.insert_or_assign(s, AckWatchDescriptior())\<close>, where the descriptor has the
  time of its construction, and \<open>all.emplace(s)\<close>.
\<close>

definition watch_all :: "(AckID \<times> nsecs) list \<Rightarrow> WatchDescrContainer \<Rightarrow> WatchDescrContainer" where
  "watch_all sts frm = fold (\<lambda>(s, t). um_insert_or_assign s \<lparr>nextAck = t\<rparr>) sts frm"

definition emplace_all :: "('a \<Rightarrow> string) \<Rightarrow> 'a list \<Rightarrow> 'a list" where
  "emplace_all key ss = fold (us_emplace key) ss []"

text \<open>Every second string goes into \<open>what\<close> as well.\<close>

definition even_ones :: "'a list \<Rightarrow> 'a list" where
  "even_ones ss = map snd (filter (\<lambda>(i, s). even i) (enumerate 0 ss))"

definition AlgorithmTest_erase_keys :: "(AckID \<times> nsecs) list \<Rightarrow> bool" where
  "AlgorithmTest_erase_keys sts =
     (let frm = watch_all sts []; what = emplace_all id (even_ones (map fst sts)); erased = erase_keys frm what
      in length erased = length frm - length what \<and> list_all (\<lambda>k. map_of erased k = None) what)"

definition AlgorithmTest_give_me_the_keys_all :: "(AckID \<times> nsecs) list \<Rightarrow> bool" where
  "AlgorithmTest_give_me_the_keys_all sts =
     (let frm = watch_all sts []; toModify = fst (give_me_the_keys frm [] (\<lambda>d u. (True, u)) ())
      in list_all (\<lambda>(k, d). us_member fst k toModify) frm)"

definition AlgorithmTest_give_me_the_keys_none :: "(AckID \<times> nsecs) list \<Rightarrow> bool" where
  "AlgorithmTest_give_me_the_keys_none sts =
     (fst (give_me_the_keys (watch_all sts []) [] (\<lambda>d u. (False, u)) ()) = [])"

text \<open>Three more strings \<open>xs\<close> get the time \<open>nowX\<close>.\<close>

definition AlgorithmTest_give_me_the_keys_some :: "(AckID \<times> nsecs) list \<Rightarrow> AckID list \<Rightarrow> nsecs \<Rightarrow> bool" where
  "AlgorithmTest_give_me_the_keys_some sts xs nowX =
     (length (fst (give_me_the_keys (watch_all (map (\<lambda>x. (x, nowX)) xs) (watch_all sts [])) []
        (\<lambda>d u. (nextAck d = nowX, u)) ())) = 3)"

definition AlgorithmTest_split_request_ids_none :: "AckID list \<Rightarrow> bool" where
  "AlgorithmTest_split_request_ids_none ss = (snd (split_request_ids id (emplace_all id ss) 0) = [])"

definition AlgorithmTest_split_request_ids_all :: "AckID list \<Rightarrow> bool" where
  "AlgorithmTest_split_request_ids_all ss =
     (let ids = emplace_all id ss in length (snd (split_request_ids id ids (2 ^ 31 - 1))) = length ids)"

text \<open>The loop \<open>while (!all.empty())\<close> of the last two; a failed expectation is noted and the loop goes on.\<close>

partial_function (option) split_in_twos :: "('a \<Rightarrow> string) \<Rightarrow> u32 \<Rightarrow> nat \<Rightarrow> 'a list \<Rightarrow> nat \<Rightarrow> bool \<Rightarrow> bool option" where
  "split_in_twos key maxSize allSize ids processed passed =
     (if ids = [] then Some passed
      else case split_request_ids key ids maxSize of (rest, toSend) \<Rightarrow>
        split_in_twos key maxSize allSize rest (processed + length toSend)
          (passed \<and> length toSend = 2 \<and> processed + length toSend + length rest = allSize))"

definition AlgorithmTest_split_request_ids_some :: "AckID list \<Rightarrow> bool option" where
  "AlgorithmTest_split_request_ids_some ss =
     (let ids = emplace_all id ss in split_in_twos id 130 (length ids) ids 0 True)"

definition AlgorithmTest_split_request_ids_some2 :: "AckID list \<Rightarrow> bool option" where
  "AlgorithmTest_split_request_ids_some2 ss =
     (let ids = emplace_all fst (map (\<lambda>s. (s, s)) ss) in split_in_twos fst 150 (length ids) ids 0 True)"

definition AlgorithmTest_populate_ack_ids :: "AckID list \<Rightarrow> bool" where
  "AlgorithmTest_populate_ack_ids ss =
     (let ids = emplace_all id ss
      in case populate_ack_ids_set [] ids of (to, rest) \<Rightarrow> rest = [] \<and> list_all (\<lambda>k. us_member id k ids) to)"

definition AlgorithmTest_populate_ack_ids2 :: "AckID list \<Rightarrow> bool" where
  "AlgorithmTest_populate_ack_ids2 ss =
     (let ids = emplace_all fst (map (\<lambda>s. (s, s)) ss); to = populate_ack_ids_pack [] ids
      in length ids = length to \<and> list_all (\<lambda>k. us_member fst k ids) to)"

section \<open>They pass\<close>

lemma us_ok_emplace_all [simp]: "us_ok key (emplace_all key ss)"
proof -
  have "us_ok key acc \<Longrightarrow> us_ok key (fold (us_emplace key) ss acc)" for acc
    by (induction ss arbitrary: acc) simp_all
  then show ?thesis by (simp add: emplace_all_def)
qed

lemma keys_emplace_all: "key ` set (emplace_all key ss) = key ` set ss"
proof -
  have "key ` set (fold (us_emplace key) ss acc) = key ` set ss \<union> key ` set acc" for acc
    by (induction ss arbitrary: acc) (auto simp: container_simps)
  then show ?thesis by (simp add: emplace_all_def)
qed

lemma length_emplace_all: "length (emplace_all key ss) = card (key ` set ss)"
  using distinct_card [of "map key (emplace_all key ss)"] us_ok_emplace_all [of key ss]
  by (simp add: us_ok_def keys_emplace_all)

lemma watch_all_facts:
  "um_ok frm \<Longrightarrow> um_ok (watch_all sts frm)" "set (um_keys (watch_all sts frm)) = fst ` set sts \<union> set (um_keys frm)"
  unfolding watch_all_def by (induction sts arbitrary: frm) (auto simp: container_simps um_ok_assign)

lemma lookup_watch_all: "map_of (watch_all sts frm) k =
    (case map_of (rev sts) k of None \<Rightarrow> map_of frm k | Some t \<Rightarrow> Some \<lparr>nextAck = t\<rparr>)"
  unfolding watch_all_def
  by (induction sts arbitrary: frm) (auto simp: map_of_um_assign map_add_def split: option.splits)

lemma length_um_card: "um_ok m \<Longrightarrow> length m = card (set (um_keys m))"
  using distinct_card [of "um_keys m"] by (simp add: um_ok_keys) (simp add: um_keys_def)

lemma even_ones_subset: "set (even_ones ss) \<subseteq> set ss"
  by (auto simp: even_ones_def in_set_enumerate_eq)

theorem erase_keys_test: "AlgorithmTest_erase_keys sts"
proof -
  let ?what = "emplace_all id (even_ones (map fst sts))" and ?frm = "watch_all sts []"
  have what: "set ?what = set (even_ones (map fst sts))" using keys_emplace_all [of id "even_ones (map fst sts)"] by simp
  have "length (erase_keys ?frm ?what) = card (fst ` set sts - set (even_ones (map fst sts)))"
    using length_um_card [of "erase_keys ?frm ?what"]
    by (simp add: container_simps watch_all_facts what um_keys_def [of "[]"])
  also have "\<dots> = length ?frm - length ?what"
    using length_um_card [of ?frm] even_ones_subset [of "map fst sts"]
    by (simp add: card_Diff_subset watch_all_facts length_emplace_all um_keys_def [of "[]"])
  finally show ?thesis
    by (simp add: AlgorithmTest_erase_keys_def Let_def list_all_iff lookup_erase_keys)
qed

theorem give_me_the_keys_all_test: "AlgorithmTest_give_me_the_keys_all sts"
  using give_me_the_keys_keys [of "\<lambda>d u. (True, u)" "\<lambda>d. True" "watch_all sts []" "[]" "()"]
  by (auto simp: AlgorithmTest_give_me_the_keys_all_def Let_def list_all_iff us_member_iff)

theorem give_me_the_keys_none_test: "AlgorithmTest_give_me_the_keys_none sts"
  using give_me_the_keys_keys [of "\<lambda>d u. (False, u)" "\<lambda>d. False" "watch_all sts []" "[]" "()"]
  by (simp add: AlgorithmTest_give_me_the_keys_none_def)

text \<open>\<open>nowX\<close> lies ten seconds after the other times; the three strings that have it must be distinct.\<close>

lemma watched_at:
  assumes "nowX \<notin> snd ` set sts"
  shows "(\<exists>d. map_of (watch_all (map (\<lambda>x. (x, nowX)) xs) (watch_all sts [])) k = Some d \<and> nextAck d = nowX) \<longleftrightarrow>
    k \<in> set xs"
proof (cases "k \<in> set xs")
  case True
  have "k \<in> set ys \<Longrightarrow> map_of (map (\<lambda>x. (x, nowX)) ys) k = Some nowX" for ys by (induction ys) auto
  with True have "map_of (rev (map (\<lambda>x. (x, nowX)) xs)) k = Some nowX" by (simp add: rev_map)
  with True show ?thesis by (simp add: lookup_watch_all [of "map _ _"])
next
  case False
  then have "map_of (rev (map (\<lambda>x. (x, nowX)) xs)) k = None" by (auto simp: map_of_eq_None_iff)
  moreover have "t \<noteq> nowX" if "map_of (rev sts) k = Some t" for t
    using assms map_of_SomeD [OF that] by force
  ultimately show ?thesis using False by (simp add: lookup_watch_all split: option.splits)
qed

theorem give_me_the_keys_some_test:
  assumes "distinct xs" and "length xs = 3" and "nowX \<notin> snd ` set sts"
  shows "AlgorithmTest_give_me_the_keys_some sts xs nowX"
proof -
  let ?frm = "watch_all (map (\<lambda>x. (x, nowX)) xs) (watch_all sts [])"
  let ?picked = "fst (give_me_the_keys ?frm [] (\<lambda>d u. (nextAck d = nowX, u)) ())"
  have ok: "um_ok ?frm" by (simp add: watch_all_facts)
  have "fst ` set ?picked = {k. \<exists>d. (k, d) \<in> set ?frm \<and> nextAck d = nowX}"
    using give_me_the_keys_keys [of "\<lambda>d u. (nextAck d = nowX, u)" "\<lambda>d. nextAck d = nowX" ?frm "[]" "()"] by simp
  also have "\<dots> = set xs"
    using watched_at [OF assms(3), of xs] by (simp add: um_ok_map_of_set [OF ok, symmetric])
  finally have keys: "fst ` set ?picked = set xs" .
  have "us_ok fst ?picked" by (rule give_me_the_keys_ok) simp
  then have "length ?picked = card (fst ` set ?picked)"
    using distinct_card [of "map fst ?picked"] by (simp add: us_ok_def)
  with assms keys show ?thesis by (simp add: AlgorithmTest_give_me_the_keys_some_def distinct_card)
qed

theorem split_request_ids_none_test: "AlgorithmTest_split_request_ids_none ss"
proof -
  have "split_request_ids id ids 0 = (ids, [])" for ids :: "AckID list"
    by (cases ids) (simp_all add: split_request_ids_def)
  then show ?thesis by (simp add: AlgorithmTest_split_request_ids_none_def)
qed

lemma payload_same: "\<forall>x\<in>set ids. length (key x) = n \<Longrightarrow> payload key ids = 100 + length ids * (3 + n)"
  by (induction ids) (simp_all add: payload_Cons id_cost_def)

theorem split_request_ids_all_test:
  assumes "length ss \<le> 100" and "\<forall>s\<in>set ss. length s = 10"
  shows "AlgorithmTest_split_request_ids_all ss"
proof -
  let ?ids = "emplace_all id ss"
  obtain rest toSend where split: "split_request_ids id ?ids (2 ^ 31 - 1) = (rest, toSend)" by fastforce
  have len: "\<forall>x\<in>set ?ids. length (id x) = 10" using assms(2) keys_emplace_all [of id ss] by simp
  have few: "length ?ids \<le> 100" using assms(1) card_length [of ss] by (simp add: length_emplace_all)
  have "rest = []"
  proof (rule ccontr)
    assume more: "rest \<noteq> []"
    have "no_wrap id (2 ^ 31 - 1) ?ids" using len by (simp add: no_wrap_def id_cost_def)
    from split_sizes(2) [OF _ this split more] have "2 ^ 31 - 1 \<le> payload id (hd rest # toSend)" by simp
    moreover have parts: "?ids = rev toSend @ rest" using split by (rule split_partition [rotated]) simp
    then have "payload id (hd rest # toSend) = 100 + (1 + length toSend) * 13"
      using payload_same [of "hd rest # toSend" id 10] len more by auto
    moreover have "length toSend \<le> 100" using parts few by (metis length_append length_rev le_add1 order_trans)
    ultimately show False by simp
  qed
  then show ?thesis
    using split_partition [OF _ split] unfolding AlgorithmTest_split_request_ids_all_def Let_def split by simp
qed

text \<open>Each round sends two ids when the limit lies between the sizes of two and of three of them.\<close>

lemma split_two:
  assumes "us_ok key ids" and "even (length ids)" and "ids \<noteq> []" and "\<forall>x\<in>set ids. length (key x) = n" and "n < 1000"
    and limit: "100 + 2 * (3 + n) < unat maxSize" "unat maxSize \<le> 100 + 3 * (3 + n)"
    and split: "split_request_ids key ids maxSize = (rest, toSend)"
  shows "length toSend = 2" and "ids = rev toSend @ rest"
proof -
  show parts: "ids = rev toSend @ rest" using assms(1) split by (rule split_partition)
  have wrap: "no_wrap key maxSize ids" using assms(4,5) limit(2) by (auto simp: no_wrap_def id_cost_def)
  have sent: "payload key toSend = 100 + length toSend * (3 + n)"
    by (rule payload_same) (use parts assms(4) in auto)
  have "length toSend < 3"
  proof (cases "toSend = []")
    case False
    then have "length toSend * (3 + n) < 3 * (3 + n)"
      using split_sizes(1) [OF assms(1) wrap split] sent limit(2) by simp
    then show ?thesis by (simp only: mult_less_cancel2)
  qed simp
  moreover have "1 < length toSend"
  proof (cases "rest = []")
    case True
    with parts assms(2,3) show ?thesis by (cases toSend; cases "tl toSend") auto
  next
    case False
    have "payload key (hd rest # toSend) = 100 + (1 + length toSend) * (3 + n)"
      using payload_same [of "hd rest # toSend" key n] parts assms(4) False by auto
    then have "2 * (3 + n) < (1 + length toSend) * (3 + n)"
      using split_sizes(2) [OF assms(1) wrap split False] limit(1) by simp
    then have "2 < 1 + length toSend" by (simp only: mult_less_cancel2)
    then show ?thesis by simp
  qed
  ultimately show "length toSend = 2" by simp
qed

lemma split_in_twos_passes:
  assumes "us_ok key ids" and "even (length ids)" and "\<forall>x\<in>set ids. length (key x) = n" and "n < 1000"
    and "100 + 2 * (3 + n) < unat maxSize" and "unat maxSize \<le> 100 + 3 * (3 + n)" and "processed + length ids = allSize"
  shows "split_in_twos key maxSize allSize ids processed True = Some True"
  using assms(1-3,7)
proof (induction ids arbitrary: processed rule: length_induct)
  case (1 ids)
  show ?case
  proof (cases "ids = []")
    case False
    obtain rest toSend where split: "split_request_ids key ids maxSize = (rest, toSend)" by fastforce
    note two = split_two [OF 1(2,3) False 1(4) assms(4-6) split]
    have "split_in_twos key maxSize allSize rest (processed + length toSend) True = Some True"
      using 1(1) [rule_format, of rest "processed + length toSend"] 1(2-5) two by (auto simp: us_ok_def)
    moreover have "processed + length toSend + length rest = allSize" using 1(5) two by simp
    ultimately show ?thesis using False two(1) by (simp add: split_in_twos.simps [of key maxSize allSize ids] split)
  qed (simp add: split_in_twos.simps)
qed

theorem split_request_ids_some_test:
  assumes "even (card (set ss))" and "\<forall>s\<in>set ss. length s = 10"
  shows "AlgorithmTest_split_request_ids_some ss = Some True"
  using assms keys_emplace_all [of id ss] length_emplace_all [of id ss] unfolding AlgorithmTest_split_request_ids_some_def Let_def
  by (intro split_in_twos_passes [where n = 10]) auto

theorem split_request_ids_some2_test:
  assumes "even (card (set ss))" and "\<forall>s\<in>set ss. length s = 20"
  shows "AlgorithmTest_split_request_ids_some2 ss = Some True"
proof -
  let ?ids = "emplace_all fst (map (\<lambda>s. (s, s)) ss)"
  have "fst ` set ?ids = set ss" "length ?ids = card (set ss)"
    by (simp_all add: keys_emplace_all length_emplace_all image_image)
  with assms show ?thesis unfolding AlgorithmTest_split_request_ids_some2_def Let_def
    by (intro split_in_twos_passes [where n = 20]) auto
qed

theorem populate_ack_ids_test: "AlgorithmTest_populate_ack_ids ss"
  by (simp add: AlgorithmTest_populate_ack_ids_def Let_def populate_ack_ids_set_eq list_all_iff us_member_iff)

theorem populate_ack_ids2_test: "AlgorithmTest_populate_ack_ids2 ss"
  by (auto simp: AlgorithmTest_populate_ack_ids2_def Let_def populate_ack_ids_pack_eq list_all_iff us_member_iff)

section \<open>RetriableTest.cpp\<close>

text \<open>
  The stub is a mock that gives every call the same reply; \<open>Times\<close> counts its calls. The backoff has a
  maximum of 30 seconds and the timeout of a call is one second.
\<close>

definition mock_publisher :: "rpc_reply \<Rightarrow> env \<Rightarrow> env" where
  "mock_publisher r E = E\<lparr>e_server := \<lambda>evs req t. r\<rparr>"

definition mock_call ::
  "env \<Rightarrow> rpc_reply \<Rightarrow> RetryCountPolicy \<Rightarrow> MaxRetryTimePolicy \<Rightarrow> world \<Rightarrow> call_result option" where
  "mock_call E r cp tp w =
     make_call (mock_publisher r E) cp tp
       (default_ExponentialBackoffPolicy\<lparr>maxDelay := ms_of_s 30\<rparr>) 1 (PublishRequest [] []) w"

definition times_called :: "world \<Rightarrow> world \<Rightarrow> nat" where
  "times_called w w' = length (w_log w') - length (w_log w)"

definition Retriable_make_call_is_ok :: "env \<Rightarrow> rpc_reply \<Rightarrow> world \<Rightarrow> bool" where
  "Retriable_make_call_is_ok E r w =
     (case mock_call E r default_RetryCountPolicy default_MaxRetryTimePolicy w of
        Some (Inr (reply, now), w') \<Rightarrow> times_called w w' = 1 \<and> rep_code reply = rep_code r
      | _ \<Rightarrow> False)"

definition Retriable_make_call_is_failed :: "env \<Rightarrow> rpc_reply \<Rightarrow> world \<Rightarrow> bool" where
  "Retriable_make_call_is_failed E r w =
     (case mock_call E r default_RetryCountPolicy default_MaxRetryTimePolicy w of
        Some (Inr (reply, now), w') \<Rightarrow>
          times_called w w' = 1 \<and> rep_code reply = rep_code r \<and> rep_text reply = rep_text r
      | _ \<Rightarrow> False)"

text \<open>The other three tests expect the exception, after one call more than the count.\<close>

definition expect_limit_reached ::
  "env \<Rightarrow> rpc_reply \<Rightarrow> RetryCountPolicy \<Rightarrow> MaxRetryTimePolicy \<Rightarrow> world \<Rightarrow> bool" where
  "expect_limit_reached E r cp tp w =
     (case mock_call E r cp tp w of
        Some (Inl (PsException text code), w') \<Rightarrow>
          times_called w w' = 1 + unat (policy_count cp) \<and> code = e_code_num E (rep_code r)
      | _ \<Rightarrow> False)"

definition Retriable_make_call_is_deadline :: "env \<Rightarrow> rpc_reply \<Rightarrow> world \<Rightarrow> bool" where
  "Retriable_make_call_is_deadline E r w = expect_limit_reached E r default_RetryCountPolicy default_MaxRetryTimePolicy w"

definition Retriable_make_call_is_unavailable :: "env \<Rightarrow> rpc_reply \<Rightarrow> world \<Rightarrow> bool" where
  "Retriable_make_call_is_unavailable E r w = expect_limit_reached E r default_RetryCountPolicy default_MaxRetryTimePolicy w"

definition Retriable_make_call_is_unavailable_count :: "env \<Rightarrow> rpc_reply \<Rightarrow> world \<Rightarrow> bool" where
  "Retriable_make_call_is_unavailable_count E r w =
     expect_limit_reached E r \<lparr>policy_count = 5\<rparr> \<lparr>policy_interval = 130\<rparr> w"

subsection \<open>They pass\<close>

text \<open>A reply that is not retried, with a clock that is read within the 15 seconds of the policy.\<close>

lemma mock_call_answered:
  assumes "\<not> retryable r" and "\<And>n. int (e_tick E n) \<le> ns_of_s 15" and "\<And>w. set_deadline E 1 w \<noteq> None"
  obtains now w' where "mock_call E r default_RetryCountPolicy default_MaxRetryTimePolicy w = Some (Inr (r, now), w')"
    and "times_called w w' = 1"
proof -
  let ?M = "mock_publisher r E"
  have same: "set_deadline ?M t v = set_deadline E t v" "steady_now ?M v = steady_now E v" for t v
    by (simp_all add: mock_publisher_def set_deadline_def steady_now_def)
  obtain b w1 where b: "new_ExpoBackoff (default_ExponentialBackoffPolicy\<lparr>maxDelay := ms_of_s 30\<rparr>) w = (b, w1)"
    by fastforce
  then have b': "attempt b = 0" "w_log w1 = w_log w" by (auto simp: new_ExpoBackoff_def CreatePRNG_def)
  obtain start w2 where s: "steady_now E w1 = (start, w2)" by fastforce
  obtain t w3 where t: "steady_now E w2 = (t, w3)" by fastforce
  have "t - start \<le> ns_of_s 15"
    using s t assms(2) [of "w_reads w2"] by (auto simp: steady_now_def Let_def)
  then have go: "retries_exahusted ?M start (RetryCount b) default_RetryCountPolicy default_MaxRetryTimePolicy w2 = (False, w3)"
    using t by (simp add: retries_exahusted_def RetryCount_def b' same default_MaxRetryTimePolicy_def)
  obtain dl where dl: "set_deadline E 1 w3 = Some dl" using assms(3) by blast
  obtain nx w4 where n: "steady_now E w3 = (nx, w4)" by fastforce
  have server: "e_server ?M evs req u = r" for evs req u by (simp add: mock_publisher_def)
  have log: "w_log w4 = w_log w"
    using steady_now_frame(1) [OF s] steady_now_frame(1) [OF t] steady_now_frame(1) [OF n] b'(2) by simp
  show thesis
    using assms(1) log
    by (intro that [of nx "w4\<lparr>w_time := w_time w4 + int (rep_took r), w_log := (PublishRequest [] [], 1, r) # w_log w\<rparr>"])
      (simp_all add: mock_call_def make_call_def b s same make_call_loop.simps make_call_body_def go dl n
        rpc_call_def Let_def server times_called_def)
qed

theorem make_call_is_ok_test:
  assumes "rep_code r = OK" and "\<And>n. int (e_tick E n) \<le> ns_of_s 15" and "\<And>w. set_deadline E 1 w \<noteq> None"
  shows "Retriable_make_call_is_ok E r w"
  by (rule mock_call_answered [of r E w]) (use assms in \<open>auto simp: retryable_def Retriable_make_call_is_ok_def\<close>)

theorem make_call_is_failed_test:
  assumes "\<not> retryable r" and "\<And>n. int (e_tick E n) \<le> ns_of_s 15" and "\<And>w. set_deadline E 1 w \<noteq> None"
  shows "Retriable_make_call_is_failed E r w"
  by (rule mock_call_answered [of r E w]) (use assms in \<open>auto simp: Retriable_make_call_is_failed_def\<close>)

text \<open>
  With draws that are the mean, the mock's reply after a microsecond and a clock that advances by one with
  each reading, the delays are 250, 679, 1845, 5015, 13632 and 30000 milliseconds.
\<close>

definition mock_env :: "rpc_reply \<Rightarrow> env" where
  "mock_env r = mock_publisher r (demo_env ok_server)"

lemma mock_Delay:
  "Delay (mock_env r) (mean_backoff 30000 seed n 250) = Inr (250, mean_backoff 30000 seed (Suc n) 679)"
  "Delay (mock_env r) (mean_backoff 30000 seed n 679) = Inr (679, mean_backoff 30000 seed (Suc n) 1845)"
  "Delay (mock_env r) (mean_backoff 30000 seed n 1845) = Inr (1845, mean_backoff 30000 seed (Suc n) 5015)"
  "Delay (mock_env r) (mean_backoff 30000 seed n 5015) = Inr (5015, mean_backoff 30000 seed (Suc n) 13632)"
  "Delay (mock_env r) (mean_backoff 30000 seed n 13632) = Inr (13632, mean_backoff 30000 seed (Suc n) 30000)"
  "Delay (mock_env r) (mean_backoff 30000 seed n 30000) = Inr (30000, mean_backoff 30000 seed (Suc n) 30000)"
proof -
  have mean: "e_normal (mock_env r) i n m d = m" for i n m d by (simp add: mock_env_def mock_publisher_def)
  note capped = mean_step(2) [OF mean _ _ refl, of _ 30000 seed n]
  show "Delay (mock_env r) (mean_backoff 30000 seed n 13632) = Inr (13632, mean_backoff 30000 seed (Suc n) 30000)"
    "Delay (mock_env r) (mean_backoff 30000 seed n 30000) = Inr (30000, mean_backoff 30000 seed (Suc n) 30000)"
    by (use capped [of 13632] capped [of 30000] in \<open>simp_all add: round53_eval\<close>)
qed (simp_all add: mean_Delay mock_env_def mock_publisher_def)

lemma mock_env_simps [simp]:
  "e_server (mock_env r) evs q t = r" "e_tick (mock_env r) n = 1000" "e_system (mock_env r) t = t"
  "e_oversleep (mock_env r) n = 0" "e_code_num (mock_env r) c = e_code_num (demo_env ok_server) c"
  "RetryCount (mean_backoff M seed n d) = of_nat n"
  by (simp_all add: mock_env_def mock_publisher_def RetryCount_def
      mean_backoff_def)

lemmas mock_eval = expect_limit_reached_def mock_call_def mock_env_def [symmetric] make_call_def new_mean_backoff
  make_call_loop.simps make_call_body_def retries_exahusted_def rpc_call_def Let_def mock_Delay steady_now_def
  set_deadline_def sleep_for_def ns_of_s_def ns_of_ms_def ms_of_s_def times_called_def Exception_code_def demo_world_def
  retryable_def demo_reply_def

theorem make_call_is_unavailable_test:
  "Retriable_make_call_is_unavailable (demo_env ok_server) (demo_reply UNAVAILABLE [] []) demo_world"
  by (simp add: Retriable_make_call_is_unavailable_def mock_eval default_RetryCountPolicy_def default_MaxRetryTimePolicy_def)

theorem make_call_is_deadline_test:
  "Retriable_make_call_is_deadline (demo_env ok_server) (demo_reply DEADLINE_EXCEEDED [] []) demo_world"
  by (simp add: Retriable_make_call_is_deadline_def mock_eval default_RetryCountPolicy_def default_MaxRetryTimePolicy_def)

theorem make_call_is_unavailable_count_test:
  "Retriable_make_call_is_unavailable_count (demo_env ok_server) (demo_reply UNAVAILABLE [] []) demo_world"
  by (simp add: Retriable_make_call_is_unavailable_count_def mock_eval)

section \<open>ExpoBackoffTest.cpp\<close>

text \<open>
  \<open>vec[s][i]\<close> is the delay of stride \<open>s\<close> in iteration \<open>i\<close>. The least value of a stride must not be below the
  first delay, and the average, that is the sum, not 0. A failed conversion in \<open>Delay\<close> ends the test.
\<close>

fun MinValues_rounds :: "env \<Rightarrow> ExponentialBackoffPolicy \<Rightarrow> nat \<Rightarrow> world \<Rightarrow> u32 list list outcome" where
  "MinValues_rounds E policy 0 w = Inr []"
| "MinValues_rounds E policy (Suc i) w =
     (case new_ExpoBackoff policy w of (backoff, w') \<Rightarrow>
      case delays E 10 backoff of
        Inl e \<Rightarrow> Inl e
      | Inr (ds, b) \<Rightarrow>
          (case MinValues_rounds E policy i w' of Inl e \<Rightarrow> Inl e | Inr vs \<Rightarrow> Inr (map word_of_int ds # vs)))"

definition ExpoBackoff_MinValues :: "env \<Rightarrow> nat \<Rightarrow> world \<Rightarrow> bool" where
  "ExpoBackoff_MinValues E iterations w =
     (let policy = default_ExponentialBackoffPolicy\<lparr>maxDelay := ms_of_s 10000\<rparr>
      in case MinValues_rounds E policy iterations w of
           Inl e \<Rightarrow> False
         | Inr vs \<Rightarrow> list_all (\<lambda>s. let v = map (\<lambda>ds. ds ! s) vs
             in list_all (\<lambda>x. initialDelay policy \<le> uint x) v \<and> 0 < sum_list (map uint v)) [0..<10])"

text \<open>What every iteration draws when each draw is the mean.\<close>

definition mean_delays :: "msecs list" where
  "mean_delays = [250, 679, 1845, 5015, 13632, 37055, 100725, 273798, 744260, 2023108]"

lemma mean_delays:
  assumes mean: "\<And>seed n m d. e_normal E seed n m d = m"
  shows "\<exists>b. delays E 10 (mean_backoff 10000000 seed n 250) = Inr (mean_delays, b)"
proof -
  note steps = mean_step(1) [OF mean _ _ refl, where M = 10000000 and seed = seed]
  have more: "Delay E (mean_backoff 10000000 seed n 37055) = Inr (37055, mean_backoff 10000000 seed (Suc n) 100725)"
    "Delay E (mean_backoff 10000000 seed n 100725) = Inr (100725, mean_backoff 10000000 seed (Suc n) 273798)"
    "Delay E (mean_backoff 10000000 seed n 273798) = Inr (273798, mean_backoff 10000000 seed (Suc n) 744260)"
    "Delay E (mean_backoff 10000000 seed n 744260) = Inr (744260, mean_backoff 10000000 seed (Suc n) 2023108)"
    "Delay E (mean_backoff 10000000 seed n 2023108) = Inr (2023108, mean_backoff 10000000 seed (Suc n) 5499377)" for n
    by (use steps [of 37055 n] steps [of 100725 n] steps [of 273798 n] steps [of 744260 n] steps [of 2023108 n]
      in \<open>simp_all add: round53_eval\<close>)
  have "10 = Suc (Suc (Suc (Suc (Suc (Suc (Suc (Suc (Suc (Suc 0)))))))))" by simp
  then show ?thesis by (simp only:) (simp add: mean_Delay [OF mean] more mean_delays_def)
qed

theorem MinValues_test:
  assumes "\<And>seed n m d. e_normal E seed n m d = m" and "0 < iterations"
  shows "ExpoBackoff_MinValues E iterations w"
proof -
  let ?policy = "default_ExponentialBackoffPolicy\<lparr>maxDelay := 10000000\<rparr>"
  have rounds: "MinValues_rounds E ?policy i v = Inr (replicate i (map word_of_int mean_delays))" for i v
  proof (induction i arbitrary: v)
    case (Suc i)
    from mean_delays [OF assms(1)] obtain b where
      "delays E 10 (mean_backoff 10000000 (w_seeds v) 0 250) = Inr (mean_delays, b)" by blast
    with Suc show ?case by (simp add: new_mean_backoff)
  qed simp
  have fits: "250 \<le> uint (word_of_int (mean_delays ! s) :: u32)" if "s < 10" for s
  proof -
    have "s \<in> {0, 1, 2, 3, 4, 5, 6, 7, 8, 9}" using that by auto
    then show ?thesis by (auto simp: mean_delays_def)
  qed
  moreover have "length mean_delays = 10" by (simp add: mean_delays_def)
  ultimately have "250 \<le> uint (map word_of_int mean_delays ! s :: u32)" if "s < 10" for s
    using that by simp
  then have column: "250 \<le> uint (map word_of_int mean_delays ! s :: u32)"
      "0 < int iterations * uint (map word_of_int mean_delays ! s :: u32)" if "s < 10" for s
    using assms(2) that by (simp_all add: order.strict_trans2 [of 0 250])
  have "initialDelay ?policy = 250" by (simp add: default_ExponentialBackoffPolicy_def)
  with column assms(2) show ?thesis
    unfolding ExpoBackoff_MinValues_def Let_def list_all_iff
    by (simp add: ms_of_s_def rounds sum_list_replicate del: nth_map)
qed

end
