(* ===== verification/Spec2Isabelle.thy ===== *)
theory Spec2Isabelle
  imports Names Timeouts Shutdown Example UnitTests
begin

text \<open>
  pubsuber is a C++ client library for Google Pub/Sub (\<open>pubsuber/src\<close>, public interface in
  \<open>pubsuber/include/pubsuber/Pubsuber.h\<close>). This development models its logic and proves what the library
  promises its user about messages, acknowledgements, deadlines and retries.

  \<^bold>\<open>How the program works.\<close> A \<open>Client\<close> owns an \<open>Executor\<close> with two background threads and makes topics and
  subscriptions, whose operations are single remote calls that \<open>make_call\<close> repeats. \<open>Receive\<close> gives each
  thread an iterator of the subscription. The pull thread asks the service for messages, has the
  \<open>ModAckIterator\<close> of the subscription watch the deadline of each of them and passes them to the user's
  callback. The user answers a message (\<open>Ack\<close>, \<open>Nack\<close>, or drop it), which is noted in its
  \<open>ModAckIterator\<close>. The ack thread goes round all \<open>ModAckIterator\<close>s: it sends the answers in batches, extends
  the deadlines that are due by the 99th percentile of the latencies, and sleeps until more are due.

  \<^bold>\<open>What models what.\<close> Definitions carry the names of the code where HOL allows it.
  \<^item> \<open>Prelude\<close>: exceptions and \<open>std::chrono\<close> conversions. \<open>Containers\<close>: unordered sets and maps as lists
    with distinct keys. \<open>Doubles\<close>: IEEE rounding. \<open>World\<close>: clocks, random numbers, the channel and the
    service as parameters (\<open>env\<close>), and the log of all remote calls; \<open>EnsureConnected\<close> of \<open>Trimpl.h\<close>.
  \<^item> \<open>Distribution\<close>: \<open>Record\<close> and \<open>Percentile\<close> of \<open>Distribution.h\<close>. \<open>Algorithms\<close>: \<open>Algorithms.h\<close> and
    \<open>ContainerTypes.h\<close>. \<open>Backoff\<close>: policies and \<open>ExpoBackoff\<close>. \<open>Retriable\<close>: the retry loop \<open>make_call\<close>.
    \<open>Timeouts\<close>: how its two time limits work together. \<open>Names\<close>: \<open>Namer::Name\<close> byte by byte.
    \<open>Logging\<close>: the logger of \<open>PSLog.h\<close> over a registry of spdlog.
  \<^item> \<open>ModAck\<close>: the state and operations of \<open>ModAckIterator\<close>. \<open>Batches\<close>: what a round sends. \<open>Deadlines\<close>: which
    deadlines it extends and how long it lets the thread sleep. \<open>Iterators\<close>: its invariant, and the
    abstract book of answers that its pending sets implement.
  \<^item> \<open>Threads\<close>: \<open>ThreadDataBlock\<close>, one definition for each critical section. \<open>Executors\<close>: \<open>Executor\<close> with
    its options, \<open>AddIterator\<close>, \<open>RemoveIterator\<close>, \<open>StopThreads\<close>. \<open>Messages\<close>: \<open>MessageImpl\<close> and
    \<open>SubscriptionPullIterator::Pull\<close> with callbacks that may throw. \<open>Loops\<close>: \<open>Executor::Pull\<close>,
    \<open>Executor::ProcessModAcks\<close> and the sections of the two thread functions.
  \<^item> \<open>Topics\<close>, \<open>Subscriptions\<close>, \<open>Clients\<close>: the classes the user calls.
  \<^item> \<open>Interleaving\<close>: the two thread functions as state machines, interleaved with the user's calls.
    \<open>Programs\<close>: the public interface, and that its calls are sequences of these steps. \<open>Example\<close>: the program
    of \<open>example/client.cpp\<close> on top of it.
    \<open>Protocol\<close>: what the acknowledgement machinery promises, as an abstract transition system.
    \<open>Refinement\<close>: the invariant of the interleaved threads, and that they implement \<open>Protocol\<close>. \<open>Race\<close>: one
    concrete run in which a message is answered too early. \<open>Sequential\<close>: the steps of one thread, run without the
    other, are the functions of \<open>Loops\<close>. \<open>Served\<close>: all ids in a state came from the service. \<open>Shutdown\<close>:
    \<open>Executor::StopThreads\<close> step by step, until both threads are joined.
  \<^item> \<open>UnitTests\<close>: the tests of \<open>pubsuber/tests\<close>, which pass on these definitions (the delays drawn as their means).

  \<^bold>\<open>What is proved.\<close> The properties of this theory are about all interleavings: a message that is out is
  watched, the service is asked to acknowledge or redeliver only what the user answered so, and answers
  are kept until the service was told, which the next undisturbed round of the ack thread does; the run in
  \<open>Race\<close> shows the gap in it, an acknowledgement that is sent before its deadline watcher is merged. The other
  theories show, for each component, its invariant, what each operation does on each branch, that its loops
  end (or, for an id that is as long as a request may be, that they do not), the bounds of delays, deadlines,
  requests and sleeps, and the behaviour on errors. \<open>Shutdown\<close> shows that stopping comes back: from every
  reachable state both threads leave their loops, which needs that the library only ever handles ids the
  service handed out and that its retried calls come back, as those with the default policies do when the
  delays are drawn within range. \<open>Programs\<close> carries what holds in all interleavings over to every program
  that uses the library, the example included.

  \<^bold>\<open>Interfaces.\<close> \<open>unordered_assoc\<close> (maps), \<open>transport\<close> and its extension \<open>request_maker\<close> (a retried call),
  \<open>batch_sender\<close> (one batch), \<open>answer_book\<close> (pending answers), \<open>iterator_registry\<close> (blocks of the threads),
  \<open>protocol_implementation\<close> and \<open>api_invariant\<close> (what the calls of a program keep) are locales, each interpreted
  on the model's own definitions.

  \<^bold>\<open>Loops, bounds and fuel.\<close> No definition takes fuel. \<open>make_call\<close> and the batch loop may run for ever in
  the code, so they are partial functions and not returning is \<open>None\<close>; that they return is proved under a
  retry count other than 0 and ids that fit into a request. A wait on a condition variable may end at any
  step with either status. Counters of calls, requests and ids are machine words as in the code;
  durations are unbounded, except where the code's own values can exceed them.

  \<^bold>\<open>Atomicity.\<close> A step of \<open>Interleaving\<close> is a critical section of the code, a remote call with the local work
  around it, or a piece of work on data that only that thread touches. All remote calls of an ack round
  for one iterator are one step: in between the thread touches only \<open>_keepAliveAckIDs\<close>, which no
  other thread does, and the histogram, whose counters are atomic. So are the retries of one call of a
  topic or subscription, which touch nothing but the world. The schedule of \<open>Example\<close> lets the threads work
  before each call of the main thread, not within it.

  \<^bold>\<open>Not modelled.\<close> The text of log messages and of \<open>VersionString\<close>. gRPC, protobuf and spdlog are parameters;
  so are the type names the compiler yields, the random numbers and the memory of uninitialised counters.
  Data races and dangling references of C++ (the callback of the example outlives what it captured) have
  no counterpart. \<open>StubSignature\<close> is typing only, \<open>PubsuberMock.h\<close> has declarations for googlemock only.
\<close>

section \<open>Properties of the threads together\<close>







text \<open>
  C4. The next round of the ack thread that ends normally, with nobody else running, gets every last answer
  to the messages of the active iterators to the service, unless an earlier round of the iterator failed.
\<close>

theorem round_sends_every_answer:
  assumes "reachable E opts w c" and "w_log w = []" and "c_ack c = A_Begin"
    and "exec_ProcessModAcks E (connect E (c_sys c)) = Some (Inr sleep, s)"
    and "(n, p) \<in> set (activeIterators (ackThread (c_exec c)))" and "p \<notin> set (c_failed c)"
    and "c_answered c = later @ (p, k, a) # before" and "\<forall>a'. (p, k, a') \<notin> set later"
  shows "\<exists>m c'. run E (replicate m (AckStep st)) c = Some c' \<and> c_sys c' = s \<and>
    (\<exists>ev\<in>set (w_log (c_world c')). status_ok (ev_reply ev) \<and>
       k \<in> set (asked_ids (subscriptionName (heap_of c' ! p)) a (ev_request ev)))"
proof -
  let ?c' = "c\<lparr>c_sys := s, c_ack := A_Top sleep (sleep \<noteq> kSoManyMilliseconds)\<rparr>"
  obtain m where run: "run E (replicate m (AckStep st)) c = Some ?c'"
    and quiet: "quiet_heap s (snd ` set (activeIterators (ackThread (c_exec c))))"
    using round_reaches [OF assms(1,3,4)] .
  have "answers (heap_of ?c' ! p) = Map.empty"
    using quiet assms(5) by (force simp: quiet_heap_def heap_of_def c_exec_def iterator_at_def)
  with last_answer_kept [OF run_reachable [OF assms(1) run] assms(2), of later p k a before] assms(6-8)
  have "\<exists>ev\<in>set (w_log (c_world ?c')). status_ok (ev_reply ev) \<and>
       k \<in> set (asked_ids (subscriptionName (heap_of ?c' ! p)) a (ev_request ev))" by simp
  with run show ?thesis by (intro exI [of _ m] exI [of _ ?c']) simp
qed

theorem round_sends_every_answer_witness:
  "\<exists>m c'. run (demo_env race_server) (replicate m (AckStep no_timeout)) race_waiting = Some c' \<and>
    (\<exists>ev\<in>set (w_log (c_world c')). status_ok (ev_reply ev) \<and>
       ''k'' \<in> set (asked_ids (subscriptionName (heap_of c' ! 0)) Ack (ev_request ev)))"
proof -
  obtain s where s: "exec_ProcessModAcks (demo_env race_server) (connect (demo_env race_server) (c_sys race_waiting)) =
      Some (Inr kSoManyMilliseconds, s)"
    using race_waiting_round ..
  have "c_ack race_waiting = A_Begin" "(''s'', 0) \<in> set (activeIterators (ackThread (c_exec race_waiting)))"
    "0 \<notin> set (c_failed race_waiting)" "c_answered race_waiting = [] @ (0, ''k'', Ack) # []"
    by (simp_all add: race_waiting_def race_state_def Let_def c_exec_def)
  from round_sends_every_answer [OF race_waiting_reachable _ this(1) s this(2-4)] show ?thesis
    by (simp add: demo_world_def) blast
qed

text \<open>
  C5. The threads implement the protocol: each of their steps from a reachable state, seen through
  \<open>proto_of\<close>, is a step of the abstract acknowledgement protocol.
\<close>

theorem step_refines_protocol:
  assumes "reachable E opts w c" and "step E c c'"
  shows "proto_step (proto_of c) (proto_of c')"
  using assms by (blast intro: step_sim reachable_ok)

theorem step_refines_protocol_witness:
  "\<exists>c'. step (demo_env race_server) race_delivered c' \<and> proto_step (proto_of race_delivered) (proto_of c')"
proof -
  have "step (demo_env race_server) race_delivered race_answered"
    using race_answer_run by (intro next_state_step [of _ "UserStep (U_Ack 0)"]) (simp add: race_answer_def split: option.splits)
  with step_refines_protocol [OF race_reachable(1)] show ?thesis by blast
qed

text \<open>
  C7. Every reachable state is well formed: the iterator maps have distinct keys, every iterator is filed under
  its own name, every reference of a map, a message, a program counter or a half finished call points into
  the heap, and every iterator keeps its invariant.
\<close>

theorem reachable_states_well_formed:
  assumes "reachable E opts w c"
  shows "conc_ok c"
  using assms by (rule reachable_ok)

theorem reachable_states_well_formed_witness: "conc_ok race_final"
  using race_reachable(3) by (rule reachable_states_well_formed)

text \<open>
  C9. An acknowledgement can come too early: in the run \<open>race\<close> the service has accepted the ack of a message,
  nobody holds the message any more, and still its id is among those whose deadline is extended.
\<close>

theorem early_ack_is_forgotten:
  "\<exists>c. run (demo_env race_server) race (initial (CreateDefault ''p'') demo_world) = Some c \<and>
     (\<exists>ev\<in>set (w_log (c_world c)). ev_request ev = AcknowledgeRequest ''s'' [''k''] \<and> status_ok (ev_reply ev)) \<and>
     list_all (\<lambda>m. mi_iterator m = None) (out_messages c) \<and>
     ''k'' \<in> set (um_keys (keepAliveAckIDs (heap_of c ! 0)))"
  by (rule exI [of _ race_final])
    (simp add: race_run race_facts race_leaked_def um_keys_def status_ok_def)

text \<open>
  Such an id is never forgotten: while the service does not deliver the message again, an id that is watched
  but neither out, answered nor in flight stays watched, whatever the threads and the user do.
\<close>

lemma orphan_stays_watched:
  assumes "reachable E opts w c" and "p < length (heap_of c)" and "k \<in> watched_ids (heap_of c ! p)"
    and "(p, k) \<notin> out_of (out_messages c)" and "answers (heap_of c ! p) k = None"
    and "\<forall>acks nacks todo sleep. c_ack c = A_Send p acks nacks todo sleep \<longrightarrow> verdict acks nacks k = None"
    and "(\<lambda>a b. step E a b \<and> (p, k) \<notin> out_of (out_messages b))\<^sup>*\<^sup>* c c'"
  shows "k \<in> watched_ids (heap_of c' ! p)"
proof -
  have "in_flight (proto_of c) p k = None"
    using assms(6) in_flight_proto [of c p k "the (in_flight (proto_of c) p k)"]
    by (cases "in_flight (proto_of c) p k") (simp, fastforce)
  then have orphan: "orphaned (proto_of c) p k"
    using assms(2-5) by (simp add: orphaned_def) (simp add: proto_of_def watched_of_def pending_of_def)
  have "(\<lambda>a b. step E a b \<and> (p, k) \<notin> pr_out (proto_of b))\<^sup>*\<^sup>* c c'"
    using assms(7) by (simp add: proto_of_def)
  from threads.orphaned_steps [OF this reachable_ok [OF assms(1)] orphan] have "orphaned (proto_of c') p k" .
  then show ?thesis by (simp add: orphaned_def) (simp add: proto_of_def watched_of_def split: if_splits)
qed


lemma orphan_stays_watched_witness:
  "\<exists>c'. step (demo_env race_server) race_final c' \<and> ''k'' \<in> watched_ids (heap_of c' ! 0)"
proof -
  obtain c' where c': "ack_next (demo_env race_server) no_timeout (c_ack race_final) race_final = Some c'"
    by (simp add: race_facts Let_def)
  have s: "step (demo_env race_server) race_final c'" using c' by (rule step.ack)
  have "out_messages c' = out_messages race_final"
    using c' by (auto simp: race_facts Let_def out_messages_def conc_simps)
  then have "(\<lambda>a b. step (demo_env race_server) a b \<and> (0, ''k'') \<notin> out_of (out_messages b))\<^sup>*\<^sup>* race_final c'"
    using s by (intro r_into_rtranclp) (simp add: race_facts out_of_def)
  then have "''k'' \<in> watched_ids (heap_of c' ! 0)"
    by (rule orphan_stays_watched [OF race_reachable(3), rotated -1])
      (simp_all add: race_facts watched_ids_def out_of_def race_leaked_def um_keys_def race_iterator_def
        new_ModAckIterator_def answers_def verdict_def)
  with s show ?thesis by blast
qed

end
